(* ===== verification/Prelude.thy ===== *)
theory Prelude
  imports Main "HOL-Library.Word" "HOL-Library.AList" "HOL-Library.Monad_Syntax"
    "HOL-Library.Sublist"
begin

text \<open>
  The Go vocabulary the components share: bytes and strings, slicing, \<open>bytes.Cut\<close> and
  \<open>bytes.Split\<close>, the fixed-width reads of \<open>encoding/binary\<close>, decimal printing, and the lemmas
  about them. A Go panic is the value \<^term>\<open>None\<close> of an option; a Go \<open>error\<close> is the left side of
  a sum. The locale \<open>consumer\<close> states the contract of every function of the program that reads
  something off the front of a byte slice and returns the rest.
\<close>

section \<open>Machine types\<close>

type_synonym u8 = "8 word"
type_synonym u16 = "16 word"
type_synonym u32 = "32 word"
type_synonym u64 = "64 word"
type_synonym bytes = "8 word list"

text \<open>The collections that carry the component proofs.\<close>

named_theorems panic_free \<open>an operation returns under its component's invariant\<close>
named_theorems keeps_inv \<open>an operation keeps its component's invariant\<close>

section \<open>Bytes and strings\<close>

text \<open>
  Go's \<open>string(b)\<close> and \<open>[]byte(s)\<close>: a Go string is a sequence of bytes, as a HOL string is a
  list of characters below 256.
\<close>

definition gostr :: "bytes \<Rightarrow> string" where
  "gostr b = map (\<lambda>w. char_of (unat w)) b"

definition bytes_of :: "string \<Rightarrow> bytes" where
  "bytes_of s = map (\<lambda>c. of_nat (of_char c)) s"

lemma length_gostr [simp]: "length (gostr b) = length b"
  by (simp add: gostr_def)

lemma length_bytes_of [simp]: "length (bytes_of s) = length s"
  by (simp add: bytes_of_def)

lemma gostr_Nil [simp]: "gostr [] = []"
  by (simp add: gostr_def)

lemma bytes_of_Nil [simp]: "bytes_of [] = []"
  by (simp add: bytes_of_def)

lemma gostr_append [simp]: "gostr (a @ b) = gostr a @ gostr b"
  by (simp add: gostr_def)

lemma bytes_of_append [simp]: "bytes_of (a @ b) = bytes_of a @ bytes_of b"
  by (simp add: bytes_of_def)

lemma unat_u8_bound [simp]: "unat (b :: u8) < 256"
  using unsigned_less [of b, where ?'a = nat] by simp

lemma unat_u8_le [simp]: "unat (b :: u8) \<le> 255"
  using unat_u8_bound [of b] by linarith

lemma unat_of_nat_u8 [simp]: "unat (of_nat n :: u8) = n mod 256"
  by (simp add: unat_of_nat)

lemma gostr_bytes_of [simp]: "gostr (bytes_of s) = s"
  by (simp add: gostr_def bytes_of_def comp_def map_idI)

lemma bytes_of_gostr [simp]: "bytes_of (gostr b) = b"
proof -
  have "of_nat (of_char (char_of (unat w)) :: nat) = w" for w :: u8
    by simp
  then show ?thesis by (simp add: gostr_def bytes_of_def comp_def map_idI)
qed

lemma gostr_inject [simp]: "gostr a = gostr b \<longleftrightarrow> a = b"
  by (metis bytes_of_gostr)

lemma gostr_eq_Nil [simp]: "gostr b = [] \<longleftrightarrow> b = []"
  by (simp add: gostr_def)

section \<open>Slicing, cutting, splitting\<close>

text \<open>Go's \<open>b[i:j]\<close> within the slice's length; out of range panics.\<close>

definition slice :: "'a list \<Rightarrow> nat \<Rightarrow> nat \<Rightarrow> 'a list option" where
  "slice b i j = (if i \<le> j \<and> j \<le> length b then Some (take (j - i) (drop i b)) else None)"

text \<open>Go's \<open>b[i]\<close>.\<close>

definition at :: "'a list \<Rightarrow> nat \<Rightarrow> 'a option" where
  "at b i = (if i < length b then Some (b ! i) else None)"

lemma slice_Some [simp]: "i \<le> j \<Longrightarrow> j \<le> length b \<Longrightarrow> slice b i j = Some (take (j - i) (drop i b))"
  by (simp add: slice_def)

lemma at_Some [simp]: "i < length b \<Longrightarrow> at b i = Some (b ! i)"
  by (simp add: at_def)

lemma slice_eq_Some_iff:
  "slice b i j = Some s \<longleftrightarrow> i \<le> j \<and> j \<le> length b \<and> s = take (j - i) (drop i b)"
  by (auto simp: slice_def)

text \<open>
  \<open>bytes.Cut(s, sep)\<close>: the text before the first \<open>sep\<close>, the text after it, and whether there
  is one; without one, the whole of \<open>s\<close> and nothing.
\<close>

fun bytes_cut :: "'a list \<Rightarrow> 'a list \<Rightarrow> 'a list \<times> 'a list \<times> bool" where
  "bytes_cut sep [] = ([], [], sep = [])"
| "bytes_cut sep (x # xs) =
     (if prefix sep (x # xs) then ([], drop (length sep) (x # xs), True)
      else (case bytes_cut sep xs of (a, r, ok) \<Rightarrow> (x # a, r, ok)))"

lemma cut_found: "bytes_cut sep s = (a, r, True) \<Longrightarrow> s = a @ sep @ r"
proof (induction s arbitrary: a r)
  case Nil
  then show ?case by simp
next
  case (Cons x xs)
  then show ?case
    by (auto simp: prefix_def split: if_splits prod.splits)
qed

lemma cut_missing: "bytes_cut sep s = (a, r, False) \<Longrightarrow> a = s \<and> r = []"
  by (induction s arbitrary: a r) (auto split: if_splits prod.splits)

lemma cut_rest_le: "bytes_cut sep s = (a, r, ok) \<Longrightarrow> length r \<le> length s"
  by (cases ok) (auto dest!: cut_found cut_missing)

lemma cut_rest_less: "bytes_cut sep s = (a, r, True) \<Longrightarrow> sep \<noteq> [] \<Longrightarrow> length r < length s"
  by (auto dest!: cut_found)

text \<open>For a one-byte separator, the bytes_cut is at the first occurrence.\<close>

lemma cut_single: "x \<notin> set a \<Longrightarrow> bytes_cut [x] (a @ x # r) = (a, r, True)"
  by (induction a) auto

lemma cut_single_none: "x \<notin> set a \<Longrightarrow> bytes_cut [x] a = (a, [], False)"
  by (induction a) auto

lemma cut_single_before: "bytes_cut [x] s = (a, r, ok) \<Longrightarrow> x \<notin> set a"
  by (induction s arbitrary: a r ok) (auto split: if_splits prod.splits)

text \<open>\<open>bytes.Split(s, sep)\<close> for a non-empty separator.\<close>

function bytes_split :: "'a list \<Rightarrow> 'a list \<Rightarrow> 'a list list" where
  "bytes_split sep s =
     (if sep = [] then [s]
      else (case bytes_cut sep s of (a, r, ok) \<Rightarrow> if ok then a # bytes_split sep r else [a]))"
  by pat_completeness auto
termination
proof (relation "measure (\<lambda>(sep, s). length s)", goal_cases)
  case (2 sep s x y a r)
  then show ?case using cut_rest_less [of sep s x a] by auto
qed simp

declare bytes_split.simps [simp del]

lemma split_not_Nil [simp]: "bytes_split sep s \<noteq> []"
  by (subst bytes_split.simps) (auto split: prod.splits)

section \<open>Fixed-width reads\<close>

text \<open>
  \<open>binary.BigEndian.Uint16\<close>, \<open>Uint32\<close> and \<open>binary.LittleEndian.Uint32\<close>: they index the bytes
  they need, so a shorter slice panics.
\<close>

fun be16 :: "bytes \<Rightarrow> nat option" where
  "be16 (a # b # _) = Some (unat a * 256 + unat b)"
| "be16 _ = None"

fun be32 :: "bytes \<Rightarrow> nat option" where
  "be32 (a # b # c # d # _) =
     Some (unat a * 2 ^ 24 + unat b * 2 ^ 16 + unat c * 2 ^ 8 + unat d)"
| "be32 _ = None"

fun le32 :: "bytes \<Rightarrow> nat option" where
  "le32 (a # b # c # d # _) =
     Some (unat a + unat b * 2 ^ 8 + unat c * 2 ^ 16 + unat d * 2 ^ 24)"
| "le32 _ = None"

lemma be16_bound: "be16 b = Some n \<Longrightarrow> n < 65536"
proof (cases b rule: be16.cases)
  case (1 x y r)
  assume "be16 b = Some n"
  with 1 have "n = unat x * 256 + unat y" by simp
  with unat_u8_bound [of x] unat_u8_bound [of y] show ?thesis by linarith
qed auto

lemma be32_bound: "be32 b = Some n \<Longrightarrow> n < 2 ^ 32"
proof (cases b rule: be32.cases)
  case (1 w x y z r)
  assume "be32 b = Some n"
  with 1 have "n = unat w * 2 ^ 24 + unat x * 2 ^ 16 + unat y * 2 ^ 8 + unat z" by simp
  with unat_u8_bound [of w] unat_u8_bound [of x] unat_u8_bound [of y] unat_u8_bound [of z]
  show ?thesis by (simp del: unat_u8_bound)
qed auto

lemma be16_Some: "2 \<le> length b \<Longrightarrow> \<exists>n. be16 b = Some n"
  by (cases b rule: be16.cases) auto

lemma be32_Some: "4 \<le> length b \<Longrightarrow> \<exists>n. be32 b = Some n"
  by (cases b rule: be32.cases) auto

lemma le32_Some: "4 \<le> length b \<Longrightarrow> \<exists>n. le32 b = Some n"
  by (cases b rule: le32.cases) auto

text \<open>The big-endian encodings the round trips are stated with.\<close>

definition put16 :: "nat \<Rightarrow> bytes" where
  "put16 n = [of_nat (n div 256), of_nat n]"

definition put32 :: "nat \<Rightarrow> bytes" where
  "put32 n = [of_nat (n div 2 ^ 24), of_nat (n div 2 ^ 16), of_nat (n div 2 ^ 8), of_nat n]"

lemma length_put16 [simp]: "length (put16 n) = 2"
  by (simp add: put16_def)

lemma length_put32 [simp]: "length (put32 n) = 4"
  by (simp add: put32_def)

lemma be16_put16 [simp]: "n < 65536 \<Longrightarrow> be16 (put16 n @ r) = Some n"
  by (simp add: put16_def)

lemma be32_horner:
  "q * 256 + r = b \<Longrightarrow> b * 256 + s = a \<Longrightarrow> a * 256 + t = n
     \<Longrightarrow> q * 16777216 + r * 65536 + s * 256 + t = (n::nat)"
  by linarith

lemma be32_parts:
  "n div 16777216 * 16777216 + (n div 65536 mod 256) * 65536
     + (n div 256 mod 256) * 256 + n mod 256 = (n::nat)"
proof (rule be32_horner)
  have "n div 65536 div 256 = n div 16777216"
    by (simp add: div_mult2_eq [symmetric])
  then show "n div 16777216 * 256 + n div 65536 mod 256 = n div 65536"
    by (metis div_mult_mod_eq)
  have "n div 256 div 256 = n div 65536"
    by (simp add: div_mult2_eq [symmetric])
  then show "n div 65536 * 256 + n div 256 mod 256 = n div 256"
    by (metis div_mult_mod_eq)
qed simp

lemma be32_put32 [simp]: "n < 2 ^ 32 \<Longrightarrow> be32 (put32 n @ r) = Some n"
proof -
  assume "n < 2 ^ 32"
  then have "n div 16777216 < 256" by simp
  with be32_parts [of n] show ?thesis by (simp add: put32_def)
qed

section \<open>Decimal numbers\<close>

text \<open>\<open>strconv.FormatUint(n, 10)\<close> and \<open>strconv.Itoa\<close>.\<close>

definition digit :: "nat \<Rightarrow> char" where
  "digit d = char_of (48 + d)"

fun format_nat :: "nat \<Rightarrow> string" where
  "format_nat n = (if n < 10 then [digit n] else format_nat (n div 10) @ [digit (n mod 10)])"

declare format_nat.simps [simp del]

definition itoa :: "int \<Rightarrow> string" where
  "itoa i = (if i < 0 then CHR ''-'' # format_nat (nat (- i)) else format_nat (nat i))"

text \<open>The value of a string of decimal digits, \<^term>\<open>None\<close> on any other character.\<close>

definition digit_val :: "char \<Rightarrow> nat option" where
  "digit_val c = (let n = of_char c :: nat in if 48 \<le> n \<and> n \<le> 57 then Some (n - 48) else None)"

fun digits_val :: "nat \<Rightarrow> string \<Rightarrow> nat option" where
  "digits_val acc [] = Some acc"
| "digits_val acc (c # cs) =
     (case digit_val c of None \<Rightarrow> None | Some d \<Rightarrow> digits_val (10 * acc + d) cs)"

text \<open>
  \<open>strconv.ParseUint(s, 10, bits)\<close>: a non-empty string of digits whose value fits; Go's
  \<open>ParseInt\<close> and \<open>Atoi\<close> take one sign in front (64-bit).
\<close>

definition parse_uint :: "nat \<Rightarrow> string \<Rightarrow> nat option" where
  "parse_uint bits s =
     (if s = [] then None
      else case digits_val 0 s of None \<Rightarrow> None | Some n \<Rightarrow> if n < 2 ^ bits then Some n else None)"

text \<open>
  \<open>strconv.Atoi\<close> returns a value beside its error: 0 for a string that is not a number, the
  nearest 64-bit integer for a number out of range. The digits are read up to the one that
  overflows 64 bits.
\<close>

datatype num_err = NotANumber | OutOfRange

fun uint_loop :: "nat \<Rightarrow> string \<Rightarrow> num_err + nat" where
  "uint_loop acc [] = Inr acc"
| "uint_loop acc (c # cs) =
     (case digit_val c of
        None \<Rightarrow> Inl NotANumber
      | Some d \<Rightarrow> if 2 ^ 64 \<le> 10 * acc + d then Inl OutOfRange else uint_loop (10 * acc + d) cs)"

definition atoi :: "string \<Rightarrow> int \<times> num_err option" where
  "atoi s =
     (let neg = (case s of [] \<Rightarrow> False | c # cs \<Rightarrow> c = CHR ''-'');
          ds = (case s of [] \<Rightarrow> [] | c # cs \<Rightarrow> if c = CHR ''-'' \<or> c = CHR ''+'' then cs else s);
          clamp = (if neg then - (2 ^ 63) else 2 ^ 63 - 1) in
      if ds = [] then (0, Some NotANumber)
      else case uint_loop 0 ds of
             Inl NotANumber \<Rightarrow> (0, Some NotANumber)
           | Inl OutOfRange \<Rightarrow> (clamp, Some OutOfRange)
           | Inr n \<Rightarrow>
               if neg then (if n \<le> 2 ^ 63 then (- int n, None) else (clamp, Some OutOfRange))
               else (if n < 2 ^ 63 then (int n, None) else (clamp, Some OutOfRange)))"

text \<open>\<open>strconv.ParseInt(s, 10, 64)\<close> where only its success is looked at.\<close>

definition parse_int :: "string \<Rightarrow> int option" where
  "parse_int s = (case atoi s of (n, None) \<Rightarrow> Some n | _ \<Rightarrow> None)"

lemma of_char_digit: "d < 10 \<Longrightarrow> (of_char (digit d) :: nat) = 48 + d"
  by (simp add: digit_def)

lemma digit_val_digit [simp]: "d < 10 \<Longrightarrow> digit_val (digit d) = Some d"
  by (simp add: digit_val_def of_char_digit Let_def)

lemma digits_val_append:
  "digits_val acc (s @ t) = (case digits_val acc s of None \<Rightarrow> None | Some a \<Rightarrow> digits_val a t)"
  by (induction acc s rule: digits_val.induct) (auto split: option.splits)

lemma digits_val_format: "digits_val 0 (format_nat n) = Some n"
proof (induction n rule: format_nat.induct)
  case (1 n)
  then show ?case
    by (subst format_nat.simps) (auto simp: digits_val_append)
qed

lemma format_nat_inject [simp]: "format_nat m = format_nat n \<longleftrightarrow> m = n"
  by (metis digits_val_format option.inject)

lemma format_nat_not_Nil [simp]: "format_nat n \<noteq> []"
  by (subst format_nat.simps) simp

lemma uint_loop_digits:
  "digits_val acc s = Some n \<Longrightarrow> n < 2 ^ 64 \<Longrightarrow> uint_loop acc s = Inr n \<and> acc \<le> n"
proof (induction acc s rule: digits_val.induct)
  case (2 acc c cs)
  then obtain d where d: "digit_val c = Some d" "digits_val (10 * acc + d) cs = Some n"
    by (auto split: option.splits)
  with "2.IH" [OF d(1)] "2.prems"(2) show ?case by simp
qed simp

lemma digits_val_digit: "digits_val acc (c # cs) = Some n \<Longrightarrow> c \<noteq> CHR ''-'' \<and> c \<noteq> CHR ''+''"
  by (auto simp: digit_val_def Let_def split: option.splits)

lemma format_nat_not_sign: "format_nat n \<noteq> CHR ''-'' # cs"
  using digits_val_format [of n] digits_val_digit by metis

lemma itoa_inject [simp]: "itoa i = itoa j \<longleftrightarrow> i = j"
  by (auto simp: itoa_def format_nat_not_sign dest: sym)

lemma atoi_itoa [simp]:
  assumes "- (2 ^ 63) \<le> i" "i < 2 ^ 63"
  shows "atoi (itoa i) = (i, None)"
proof (cases "i < 0")
  case True
  from uint_loop_digits [OF digits_val_format, of "nat (- i)"] True assms
  have "uint_loop 0 (format_nat (nat (- i))) = Inr (nat (- i))" by simp
  moreover have "nat (- i) \<le> 2 ^ 63" using assms(1) by simp
  ultimately show ?thesis using True by (simp add: atoi_def itoa_def Let_def)
next
  case False
  from uint_loop_digits [OF digits_val_format, of "nat i"] False assms
  have u: "uint_loop 0 (format_nat (nat i)) = Inr (nat i)" by simp
  obtain c cs where f: "format_nat (nat i) = c # cs"
    using format_nat_not_Nil by (meson list.exhaust)
  with digits_val_format [of "nat i"] digits_val_digit
  have "c \<noteq> CHR ''-'' \<and> c \<noteq> CHR ''+''" by metis
  moreover have "nat i < 2 ^ 63" using assms(2) False by simp
  ultimately show ?thesis using False u f by (simp add: atoi_def itoa_def Let_def)
qed

section \<open>Go maps\<close>

text \<open>A Go map is an association list with distinct keys; these are its insertion and update.\<close>

lemma map_fst_map_entry [simp]: "map fst (AList.map_entry k f xs) = map fst xs"
  by (induction xs) auto

lemma length_map_entry [simp]: "length (AList.map_entry k f xs) = length xs"
  by (induction xs) auto

lemma length_update_le: "length (AList.update k v xs) \<le> Suc (length xs)"
  by (induction xs) auto

lemma length_delete_less: "k \<in> fst ` set xs \<Longrightarrow> length (AList.delete k xs) < length xs"
  by (induction xs) (auto simp: AList.delete_eq le_imp_less_Suc)

lemma map_of_map_entry_eq:
  "map_of (AList.map_entry k f xs) j = (if j = k then map_option f (map_of xs j) else map_of xs j)"
  by (induction xs) auto

lemma set_update_subset: "set (AList.update k v xs) \<subseteq> insert (k, v) (set xs)"
  by (induction xs) auto

section \<open>Consumers\<close>

text \<open>
  The contract of a function that reads one item off the front of its input: what it returns as
  the rest is a proper suffix of what it was given. The loops that call it end.
\<close>

locale consumer =
  fixes read :: "bytes \<Rightarrow> 'e + 'a \<times> bytes"
  assumes consumes: "read b = Inr (x, r) \<Longrightarrow> strict_suffix r b"
begin

lemma shorter: "read b = Inr (x, r) \<Longrightarrow> length r < length b"
  using consumes [of b x r] by (auto simp: strict_suffix_def suffix_def)

lemma rest_is_drop: "read b = Inr (x, r) \<Longrightarrow> r = drop (length b - length r) b"
  using consumes [of b x r] by (auto simp: strict_suffix_def suffix_def)

lemma empty_fails: "\<exists>e. read [] = Inl e"
proof (cases "read []")
  case (Inl e)
  then show ?thesis by blast
next
  case (Inr p)
  then show ?thesis using shorter by (cases p) fastforce
qed

end

section \<open>Runs\<close>

text \<open>
  A component driven by a sequence of calls, each of which may panic; the invariant that every
  call keeps, and under which no call panics, holds along every run.
\<close>

fun run :: "('e \<Rightarrow> 's \<Rightarrow> 's option) \<Rightarrow> 'e list \<Rightarrow> 's \<Rightarrow> 's option" where
  "run step [] s = Some s"
| "run step (e # es) s = (case step e s of None \<Rightarrow> None | Some s' \<Rightarrow> run step es s')"

locale safe_component =
  fixes step :: "'e \<Rightarrow> 's \<Rightarrow> 's option"
    and inv :: "'s \<Rightarrow> bool"
  assumes step_safe: "inv s \<Longrightarrow> \<exists>s'. step e s = Some s' \<and> inv s'"
begin

lemma run_safe: "inv s \<Longrightarrow> \<exists>s'. run step es s = Some s' \<and> inv s'"
proof (induction es arbitrary: s)
  case Nil
  then show ?case by simp
next
  case (Cons e es)
  from step_safe [OF Cons.prems] obtain s1 where "step e s = Some s1" "inv s1"
    by blast
  with Cons.IH [of s1] show ?case by simp
qed

end

end
