(* ===== verification/L7.thy ===== *)
theory L7
  imports Prelude
begin

text \<open>
  The vocabulary of \<open>src/ebpftracer/l7/l7.go\<close>: protocols, methods, statuses and the event the
  parsers are given. \<open>Protocol\<close> and \<open>Method\<close> are bytes that come from the kernel, so every value is
  possible; \<open>Status\<close> is a Go \<open>int\<close>.
\<close>

type_synonym Protocol = u8
type_synonym Method = u8
type_synonym Status = int

abbreviation (input) MethodUnknown :: Method where "MethodUnknown \<equiv> 0"
abbreviation (input) MethodProduce :: Method where "MethodProduce \<equiv> 1"
abbreviation (input) MethodConsume :: Method where "MethodConsume \<equiv> 2"
abbreviation (input) MethodStatementPrepare :: Method where "MethodStatementPrepare \<equiv> 3"
abbreviation (input) MethodStatementClose :: Method where "MethodStatementClose \<equiv> 4"
abbreviation (input) MethodHttp2ClientFrames :: Method where "MethodHttp2ClientFrames \<equiv> 5"
abbreviation (input) MethodHttp2ServerFrames :: Method where "MethodHttp2ServerFrames \<equiv> 6"

abbreviation (input) StatusUnknown :: Status where "StatusUnknown \<equiv> 0"
abbreviation (input) StatusOk :: Status where "StatusOk \<equiv> 200"
abbreviation (input) StatusFailed :: Status where "StatusFailed \<equiv> 500"

abbreviation (input) LostWrites :: u8 where "LostWrites \<equiv> 1"
abbreviation (input) LostReads :: u8 where "LostReads \<equiv> 2"

section \<open>Labels\<close>

text \<open>A Go \<open>switch\<close> on constants, as the list of its cases.\<close>

definition Protocol_names :: "(Protocol \<times> string) list" where
  "Protocol_names =
     [(1, ''HTTP''), (2, ''Postgres''), (3, ''Redis''), (4, ''Memcached''), (5, ''Mysql''),
      (6, ''Mongo''), (7, ''Kafka''), (8, ''Cassandra''), (9, ''Rabbitmq''), (10, ''NATS''),
      (11, ''HTTP2''), (12, ''Dubbo2''), (13, ''DNS''), (14, ''ClickHouse''), (15, ''Zookeeper''),
      (16, ''FoundationDB''), (17, ''TLSClientHello'')]"

definition Protocol_String :: "Protocol \<Rightarrow> string" where
  "Protocol_String p =
     (case map_of Protocol_names p of
        Some s \<Rightarrow> s
      | None \<Rightarrow> ''UNKNOWN:'' @ itoa (int (unat p)))"

definition Method_names :: "(Method \<times> string) list" where
  "Method_names =
     [(MethodUnknown, ''unknown''), (MethodProduce, ''produce''), (MethodConsume, ''consume''),
      (MethodStatementPrepare, ''statement_prepare''), (MethodStatementClose, ''statement_close''),
      (MethodHttp2ClientFrames, ''http2_client_frames''),
      (MethodHttp2ServerFrames, ''http2_server_frames'')]"

definition Method_String :: "Method \<Rightarrow> string" where
  "Method_String m =
     (case map_of Method_names m of
        Some s \<Rightarrow> s
      | None \<Rightarrow> ''UNKNOWN:'' @ itoa (int (unat m)))"

definition Status_String :: "Status \<Rightarrow> string" where
  "Status_String s =
     (if s = StatusUnknown then ''unknown''
      else if s = StatusOk then ''ok''
      else if s = StatusFailed then ''failed''
      else itoa s)"

definition Status_Http :: "Status \<Rightarrow> string" where
  "Status_Http s = itoa s"

definition Status_DNS :: "Status \<Rightarrow> string" where
  "Status_DNS s =
     (if s = 0 then ''ok''
      else if s = 1 then ''format_error''
      else if s = 2 then ''servfail''
      else if s = 3 then ''nxdomain''
      else if s = 4 then ''not_implemented''
      else if s = 5 then ''refused''
      else [])"

definition Status_Zookeeper :: "Status \<Rightarrow> string" where
  "Status_Zookeeper s =
     (if s \<le> -1 \<and> s \<ge> -9 then ''failed''
      else if s = -123 then ''failed''
      else ''ok'')"

definition GRPC_names :: "(Status \<times> string) list" where
  "GRPC_names =
     [(0, ''grpc:OK''), (1, ''grpc:CANCELLED''), (2, ''grpc:UNKNOWN''), (3, ''grpc:INVALID_ARGUMENT''),
      (4, ''grpc:DEADLINE_EXCEEDED''), (5, ''grpc:NOT_FOUND''), (6, ''grpc:ALREADY_EXISTS''),
      (7, ''grpc:PERMISSION_DENIED''), (8, ''grpc:RESOURCE_EXHAUSTED''),
      (9, ''grpc:FAILED_PRECONDITION''), (10, ''grpc:ABORTED''), (11, ''grpc:OUT_OF_RANGE''),
      (12, ''grpc:UNIMPLEMENTED''), (13, ''grpc:INTERNAL''), (14, ''grpc:UNAVAILABLE''),
      (15, ''grpc:DATA_LOSS''), (16, ''grpc:UNAUTHENTICATED'')]"

definition Status_GRPC :: "Status \<Rightarrow> string" where
  "Status_GRPC s = (case map_of GRPC_names s of Some n \<Rightarrow> n | None \<Rightarrow> [])"

definition Status_Error :: "Status \<Rightarrow> bool" where
  "Status_Error s \<longleftrightarrow> s = StatusFailed"

section \<open>Events\<close>

record RequestData =
  Protocol :: Protocol
  Status :: Status
  Duration :: int
  Method :: Method
  TLS :: bool
  KernelTime :: u64
  StatementId :: u32
  LostBefore :: u8
  Payload :: bytes
  PayloadSize :: u64
  ResponseSize :: u64
  Response :: bytes

section \<open>HTTP\<close>

text \<open>The helpers at the end of \<open>src/ebpftracer/l7/http2.go\<close>, which both HTTP parsers use.\<close>

definition isHttpMethod :: "string \<Rightarrow> bool" where
  "isHttpMethod s \<longleftrightarrow>
     s \<in> set [''GET'', ''HEAD'', ''POST'', ''PUT'', ''PATCH'', ''DELETE'', ''CONNECT'', ''OPTIONS'', ''TRACE'']"

definition isHttpPath :: "string \<Rightarrow> bool" where
  "isHttpPath s \<longleftrightarrow> prefix ''/'' s \<or> s = ''*''"

definition isHttpScheme :: "string \<Rightarrow> bool" where
  "isHttpScheme s \<longleftrightarrow> s = ''http'' \<or> s = ''https''"

section \<open>Labels tell the values apart\<close>

lemma Protocol_String_cases:
  obtains "map_of Protocol_names p = Some (Protocol_String p)"
  | "map_of Protocol_names p = None" "Protocol_String p = ''UNKNOWN:'' @ itoa (int (unat p))"
  by (cases "map_of Protocol_names p") (auto simp: Protocol_String_def)

text \<open>
  The label of a protocol determines it, also for the 239 values the agent has no name for.
\<close>

theorem Protocol_String_injective: "Protocol_String p = Protocol_String q \<longleftrightarrow> p = q"
proof
  assume eq: "Protocol_String p = Protocol_String q"
  have names: "distinct (map snd Protocol_names)" by (simp add: Protocol_names_def)
  have known: "hd s \<noteq> CHR ''U''" if "map_of Protocol_names k = Some s" for k s
    using map_of_SomeD [OF that] by (auto simp: Protocol_names_def)
  show "p = q"
  proof (cases p rule: Protocol_String_cases; cases q rule: Protocol_String_cases)
    assume "map_of Protocol_names p = Some (Protocol_String p)"
      "map_of Protocol_names q = Some (Protocol_String q)"
    with eq have "(p, Protocol_String q) \<in> set Protocol_names" "(q, Protocol_String q) \<in> set Protocol_names"
      by (auto dest: map_of_SomeD)
    with names show "p = q" by (fastforce simp: distinct_map inj_on_def)
  qed (use eq known [of p] known [of q] in \<open>auto simp: word_uint_eq_iff\<close>)
qed simp

end
