(* ===== verification/Hpack.thy ===== *)
theory Hpack
  imports Prelude
begin

text \<open>
  \<open>ebpftracer/l7/hpack.go\<close>: the HPACK (RFC 7541) header decoder that tolerates a dynamic table it
  knows only in part. The decoder's state is the record \<open>hpackDecoder\<close>, its ring buffer included;
  every operation of the file is a definition here. Go's array accesses can fail, so the operations
  that index the ring or the static table return an option, \<^term>\<open>None\<close> standing for the panic.
  Huffman decoding is done by \<open>golang.org/x/net\<close> and is the parameter \<open>huff\<close>.
  The theory \<open>Hpack_Spec\<close> states what RFC 7541 asks of a decoder and proves it of these
  definitions.
\<close>

unbundle bit_operations_syntax

section \<open>Data\<close>

text \<open>
  \<open>hpack.HeaderField\<close> (its \<open>Sensitive\<close> flag is never set) and \<open>hpackEntry\<close>, which embeds it. The
  fields of \<open>hpackDecoder\<close> are \<open>ring\<close>, \<open>head\<close> (here \<open>head_ix\<close>), \<open>n\<close> (\<open>nent\<close>), \<open>size\<close>
  (\<open>tsize\<close>) and \<open>maxSize\<close>.
\<close>

record HeaderField =
  hname :: string
  hvalue :: string

record hpackEntry = HeaderField +
  noName :: bool

record hpackDecoder =
  ring :: "hpackEntry list"
  head_ix :: nat
  nent :: nat
  tsize :: u32
  maxSize :: u32

datatype hpackErr = HpackTruncated | HpackInvalid

type_synonym fields = "(string \<times> string) list"

definition hpackDefaultTableSize :: u32 where
  "hpackDefaultTableSize = 4096"

definition hpackMaxTableSize :: nat where
  "hpackMaxTableSize = 64 * 1024"

definition hpackEntryOverhead :: u32 where
  "hpackEntryOverhead = 32"

text \<open>The zero value of \<open>hpackEntry\<close>.\<close>

definition zero_entry :: hpackEntry where
  "zero_entry = \<lparr>hname = [], hvalue = [], noName = False\<rparr>"

definition mk_entry :: "string \<Rightarrow> string \<Rightarrow> bool \<Rightarrow> hpackEntry" where
  "mk_entry n v u = \<lparr>hname = n, hvalue = v, noName = u\<rparr>"

lemma mk_entry_sel [simp]:
  "hname (mk_entry n v u) = n" "hvalue (mk_entry n v u) = v" "noName (mk_entry n v u) = u"
  by (simp_all add: mk_entry_def)

definition hpackStaticTable :: "(string \<times> string) list" where
  "hpackStaticTable =
    [('':authority'', []), ('':method'', ''GET''), ('':method'', ''POST''), ('':path'', ''/''),
     ('':path'', ''/index.html''), ('':scheme'', ''http''), ('':scheme'', ''https''),
     ('':status'', ''200''), ('':status'', ''204''), ('':status'', ''206''), ('':status'', ''304''),
     ('':status'', ''400''), ('':status'', ''404''), ('':status'', ''500''),
     (''accept-charset'', []), (''accept-encoding'', ''gzip, deflate''), (''accept-language'', []),
     (''accept-ranges'', []), (''accept'', []), (''access-control-allow-origin'', []),
     (''age'', []), (''allow'', []), (''authorization'', []), (''cache-control'', []),
     (''content-disposition'', []), (''content-encoding'', []), (''content-language'', []),
     (''content-length'', []), (''content-location'', []), (''content-range'', []),
     (''content-type'', []), (''cookie'', []), (''date'', []), (''etag'', []), (''expect'', []),
     (''expires'', []), (''from'', []), (''host'', []), (''if-match'', []),
     (''if-modified-since'', []), (''if-none-match'', []), (''if-range'', []),
     (''if-unmodified-since'', []), (''last-modified'', []), (''link'', []), (''location'', []),
     (''max-forwards'', []), (''proxy-authenticate'', []), (''proxy-authorization'', []),
     (''range'', []), (''referer'', []), (''refresh'', []), (''retry-after'', []), (''server'', []),
     (''set-cookie'', []), (''strict-transport-security'', []), (''transfer-encoding'', []),
     (''user-agent'', []), (''vary'', []), (''via'', []), (''www-authenticate'', [])]"

lemma length_static [simp]: "length hpackStaticTable = 61"
  by (simp add: hpackStaticTable_def)

section \<open>The dynamic table\<close>

definition newHpackDecoder :: hpackDecoder where
  "newHpackDecoder =
     \<lparr>ring = [], head_ix = 0, nent = 0, tsize = 0, maxSize = hpackDefaultTableSize\<rparr>"

definition empty_table :: "hpackDecoder \<Rightarrow> hpackDecoder" where
  "empty_table d =
     d\<lparr>ring := replicate (length (ring d)) zero_entry, head_ix := 0, nent := 0, tsize := 0\<rparr>"

definition reset :: "hpackDecoder \<Rightarrow> hpackDecoder" where
  "reset d = (empty_table d)\<lparr>maxSize := hpackDefaultTableSize\<rparr>"

text \<open>
  \<open>entry(i)\<close> is a pointer into the ring: reading through it is \<open>entry\<close>, writing \<open>set_entry\<close>.
  An empty ring makes \<open>% len(d.ring)\<close> a division by zero.
\<close>

definition entry_ix :: "hpackDecoder \<Rightarrow> nat \<Rightarrow> nat" where
  "entry_ix d i = (head_ix d + i) mod length (ring d)"

definition entry :: "hpackDecoder \<Rightarrow> nat \<Rightarrow> hpackEntry option" where
  "entry d i = (if ring d = [] then None else Some (ring d ! entry_ix d i))"

definition set_entry :: "hpackDecoder \<Rightarrow> nat \<Rightarrow> hpackEntry \<Rightarrow> hpackDecoder option" where
  "set_entry d i f =
     (if ring d = [] then None else Some (d\<lparr>ring := (ring d)[entry_ix d i := f]\<rparr>))"

definition entry_size :: "hpackEntry \<Rightarrow> u32" where
  "entry_size f = of_nat (length (hname f) + length (hvalue f)) + hpackEntryOverhead"

text \<open>One round of the loop of \<open>evict\<close>: drop the oldest entry.\<close>

definition evict_one :: "hpackDecoder \<Rightarrow> hpackDecoder option" where
  "evict_one d =
     do {
       f \<leftarrow> entry d 0;
       d1 \<leftarrow> set_entry (d\<lparr>tsize := tsize d - entry_size f\<rparr>) 0 zero_entry;
       Some (d1\<lparr>head_ix := (head_ix d1 + 1) mod length (ring d1), nent := nent d1 - 1\<rparr>)
     }"

lemma evict_one_nent: "evict_one d = Some d' \<Longrightarrow> nent d' = nent d - 1"
  by (auto simp: evict_one_def set_entry_def split: bind_splits if_splits)

function evict :: "u32 \<Rightarrow> hpackDecoder \<Rightarrow> hpackDecoder option" where
  "evict room d =
     (if maxSize d < tsize d + room \<and> 0 < nent d
      then (case evict_one d of None \<Rightarrow> None | Some d' \<Rightarrow> evict room d')
      else Some d)"
  by pat_completeness auto
termination
  by (relation "measure (\<lambda>(room, d). nent d)") (auto dest!: evict_one_nent)

declare evict.simps [simp del]

text \<open>The doubling of a full ring: \<open>grown[i] = *d.entry(i)\<close> for the \<open>n\<close> entries, zero above.\<close>

definition grow :: "hpackDecoder \<Rightarrow> hpackDecoder" where
  "grow d =
     d\<lparr>ring := map (\<lambda>i. ring d ! entry_ix d i) [0..<nent d]
                @ replicate (max (2 * length (ring d)) 16 - nent d) zero_entry,
       head_ix := 0\<rparr>"

definition insert_entry :: "hpackEntry \<Rightarrow> hpackDecoder \<Rightarrow> hpackDecoder option" where
  "insert_entry f d =
     (let size = entry_size f in
      if maxSize d < size then Some (empty_table d)
      else do {
        d1 \<leftarrow> evict size d;
        let d2 = (if nent d1 = length (ring d1) then grow d1 else d1);
        d3 \<leftarrow> set_entry d2 (nent d2) f;
        Some (d3\<lparr>nent := nent d3 + 1, tsize := tsize d3 + size\<rparr>)
      })"

text \<open>
  \<open>field(idx)\<close>: \<open>Some (Some f)\<close> is \<open>(f, true)\<close>, \<open>Some None\<close> is \<open>(_, false)\<close>, \<open>None\<close> the
  panic of \<open>hpackStaticTable[idx-1]\<close> at index 0.
\<close>

definition field :: "hpackDecoder \<Rightarrow> u64 \<Rightarrow> hpackEntry option option" where
  "field d idx =
     (if unat idx \<le> length hpackStaticTable then
        (if idx = 0 then None
         else Some (Some (case hpackStaticTable ! (unat idx - 1) of (n, v) \<Rightarrow> mk_entry n v False)))
      else
        (let i = unat idx - length hpackStaticTable in
         if nent d < i then Some None
         else map_option Some (entry d (nent d - i))))"

section \<open>Integers and strings\<close>

definition int_mask :: "nat \<Rightarrow> u8" where
  "int_mask n = of_nat (2 ^ n - 1)"

fun hpackInt_loop :: "u64 \<Rightarrow> nat \<Rightarrow> bytes \<Rightarrow> hpackErr + u64 \<times> bytes" where
  "hpackInt_loop v shift [] = Inl HpackTruncated"
| "hpackInt_loop v shift (c # b) =
     (let v' = v + push_bit shift (ucast (c AND 0x7f)) in
      if c AND 0x80 = 0 then Inr (v', b)
      else if shift + 7 > 28 then Inl HpackInvalid
      else hpackInt_loop v' (shift + 7) b)"

definition hpackInt :: "nat \<Rightarrow> bytes \<Rightarrow> hpackErr + u64 \<times> bytes" where
  "hpackInt n b =
     (case b of
        [] \<Rightarrow> Inl HpackTruncated
      | c # b' \<Rightarrow>
          (let mask = int_mask n; v = ucast (c AND mask) in
           if v < ucast mask then Inr (v, b') else hpackInt_loop v 0 b'))"

definition hpackString :: "(bytes \<Rightarrow> string option) \<Rightarrow> bytes \<Rightarrow> hpackErr + string \<times> bytes" where
  "hpackString huff b =
     (case b of
        [] \<Rightarrow> Inl HpackTruncated
      | c # _ \<Rightarrow>
          (case hpackInt 7 b of
             Inl e \<Rightarrow> Inl e
           | Inr (n, b') \<Rightarrow>
               if length b' < unat n then Inl HpackTruncated
               else
                 (let raw = take (unat n) b'; rest = drop (unat n) b' in
                  if c AND 0x80 = 0 then Inr (gostr raw, rest)
                  else (case huff raw of
                          None \<Rightarrow> Inl HpackInvalid
                        | Some s \<Rightarrow> Inr (s, rest)))))"

section \<open>Decoding a block\<close>

text \<open>
  The body of the loop of \<open>decode\<close>, by the case of its \<open>switch\<close>. A round that fails returns its
  error and has changed nothing; one that succeeds gives the decoder, the rest of the block, the
  fields it emitted (\<open>emit\<close> is called with them in this order) and what it added to \<open>unknown\<close>.
\<close>

type_synonym round = "hpackErr + hpackDecoder \<times> bytes \<times> fields \<times> nat"

text \<open>\<open>f, ok := d.field(idx); ok && !f.noName\<close>.\<close>

definition known_field :: "hpackDecoder \<Rightarrow> u64 \<Rightarrow> (string \<times> string) option option" where
  "known_field d idx =
     do {
       r \<leftarrow> field d idx;
       Some (case r of None \<Rightarrow> None
             | Some f \<Rightarrow> if noName f then None else Some (hname f, hvalue f))
     }"

definition decode_indexed :: "hpackDecoder \<Rightarrow> bytes \<Rightarrow> round option" where
  "decode_indexed d block =
     (case hpackInt 7 block of
        Inl e \<Rightarrow> Some (Inl e)
      | Inr (idx, block') \<Rightarrow>
          if idx = 0 then Some (Inl HpackInvalid)
          else do {
            r \<leftarrow> known_field d idx;
            Some (case r of
                    Some nv \<Rightarrow> Inr (d, block', [nv], 0)
                  | None \<Rightarrow> Inr (d, block', [], 1))
          })"

definition decode_size_update :: "hpackDecoder \<Rightarrow> bytes \<Rightarrow> round option" where
  "decode_size_update d block =
     (case hpackInt 5 block of
        Inl e \<Rightarrow> Some (Inl e)
      | Inr (sz, block') \<Rightarrow>
          do {
            d' \<leftarrow> evict 0 (d\<lparr>maxSize := of_nat (min (unat sz) hpackMaxTableSize)\<rparr>);
            Some (Inr (d', block', [], 0))
          })"

text \<open>The name of a literal: its own string, or the name of an indexed entry.\<close>

definition literal_name ::
  "(bytes \<Rightarrow> string option) \<Rightarrow> hpackDecoder \<Rightarrow> u64 \<Rightarrow> bytes
     \<Rightarrow> (hpackErr + string option \<times> bytes) option" where
  "literal_name huff d nameIdx block =
     (if nameIdx = 0 then
        Some (case hpackString huff block of Inl e \<Rightarrow> Inl e | Inr (s, b) \<Rightarrow> Inr (Some s, b))
      else do {
        r \<leftarrow> known_field d nameIdx;
        Some (Inr (map_option fst r, block))
      })"

definition decode_literal ::
  "(bytes \<Rightarrow> string option) \<Rightarrow> hpackDecoder \<Rightarrow> bytes \<Rightarrow> round option" where
  "decode_literal huff d block =
     (let index = (hd block AND 0xc0 = 0x40); prefix = (if index then 6 else 4) in
      case hpackInt prefix block of
        Inl e \<Rightarrow> Some (Inl e)
      | Inr (nameIdx, b1) \<Rightarrow>
          do {
            r \<leftarrow> literal_name huff d nameIdx b1;
            (case r of
               Inl e \<Rightarrow> Some (Inl e)
             | Inr (name, b2) \<Rightarrow>
                 (case hpackString huff b2 of
                    Inl e \<Rightarrow> Some (Inl e)
                  | Inr (value, b3) \<Rightarrow>
                      do {
                        d' \<leftarrow> (if index
                               then insert_entry (mk_entry (case name of None \<Rightarrow> [] | Some n \<Rightarrow> n)
                                                    value (name = None)) d
                               else Some d);
                        Some (case name of
                                Some n \<Rightarrow> Inr (d', b3, [(n, value)], 0)
                              | None \<Rightarrow> Inr (d', b3, [], 1))
                      }))
          })"

definition decode_round ::
  "(bytes \<Rightarrow> string option) \<Rightarrow> hpackDecoder \<Rightarrow> bytes \<Rightarrow> round option" where
  "decode_round huff d block =
     (let b = hd block in
      if b AND 0x80 \<noteq> 0 then decode_indexed d block
      else if b AND 0xe0 = 0x20 then decode_size_update d block
      else decode_literal huff d block)"

section \<open>Termination of the loop\<close>

lemma hpackInt_loop_suffix: "hpackInt_loop v s b = Inr (x, r) \<Longrightarrow> strict_suffix r b"
proof (induction v s b rule: hpackInt_loop.induct)
  case (2 v s c b)
  have "strict_suffix r b \<or> r = b"
    using 2 by (auto simp: Let_def split: if_splits)
  then show ?case
    by (auto simp: strict_suffix_def suffix_def)
qed simp

interpretation int_reader: consumer "hpackInt n" for n
proof
  fix b r and x :: u64
  assume "hpackInt n b = Inr (x, r)"
  then obtain c b' where b: "b = c # b'" and "r = b' \<or> strict_suffix r b'"
    by (auto simp: hpackInt_def Let_def split: list.splits if_splits dest: hpackInt_loop_suffix)
  then show "strict_suffix r b"
    by (auto simp: strict_suffix_def suffix_def)
qed

interpretation string_reader: consumer "hpackString huff" for huff
proof
  fix b r and x :: string
  assume a: "hpackString huff b = Inr (x, r)"
  then obtain n b' where i: "hpackInt 7 b = Inr (n, b')" and r: "r = drop (unat n) b'"
    by (auto simp: hpackString_def Let_def split: list.splits if_splits sum.splits option.splits)
  have "length r \<le> length b'" and "suffix r b'"
    using r by (simp_all add: suffix_drop)
  moreover have "suffix b' b" and "length b' < length b"
    using int_reader.consumes [OF i] int_reader.shorter [OF i] by (simp_all add: strict_suffix_def)
  ultimately show "strict_suffix r b"
    by (auto simp: strict_suffix_def intro: suffix_order.order_trans)
qed

lemma literal_name_le:
  "literal_name huff d i b = Some (Inr (nm, r)) \<Longrightarrow> length r \<le> length b"
  by (auto simp: literal_name_def split: if_splits sum.splits bind_splits
      dest: string_reader.shorter)

lemma decode_indexed_shorter:
  "decode_indexed d block = Some (Inr (d', r, fs, u)) \<Longrightarrow> length r < length block"
  by (auto simp: decode_indexed_def split: if_splits sum.splits bind_splits option.splits
      dest: int_reader.shorter)

lemma decode_size_update_shorter:
  "decode_size_update d block = Some (Inr (d', r, fs, u)) \<Longrightarrow> length r < length block"
  by (auto simp: decode_size_update_def split: sum.splits bind_splits dest: int_reader.shorter)

lemma decode_literal_shorter:
  assumes "decode_literal huff d block = Some (Inr (d', r, fs, u))"
  shows "length r < length block"
proof -
  from assms obtain n i b1 nm b2 v
    where "hpackInt n block = Inr (i, b1)" "literal_name huff d i b1 = Some (Inr (nm, b2))"
      "hpackString huff b2 = Inr (v, r)"
    unfolding decode_literal_def Let_def
    by (auto split: sum.splits bind_splits option.splits)
  then show ?thesis
    using int_reader.shorter literal_name_le string_reader.shorter by fastforce
qed

lemma decode_round_shorter:
  "decode_round huff d block = Some (Inr (d', r, fs, u)) \<Longrightarrow> length r < length block"
  unfolding decode_round_def Let_def
  by (auto split: if_splits
      dest: decode_indexed_shorter decode_size_update_shorter decode_literal_shorter)

text \<open>
  \<open>decode\<close>: the whole loop. The result is the decoder, the fields emitted in order, the count of
  unknown fields and the error that ended the loop, if any.
\<close>

function decode ::
  "(bytes \<Rightarrow> string option) \<Rightarrow> hpackDecoder \<Rightarrow> bytes
     \<Rightarrow> (hpackDecoder \<times> fields \<times> nat \<times> hpackErr option) option" where
  "decode huff d block =
     (if block = [] then Some (d, [], 0, None)
      else
        (case decode_round huff d block of
           None \<Rightarrow> None
         | Some (Inl e) \<Rightarrow> Some (d, [], 0, Some e)
         | Some (Inr (d', rest, fs, u)) \<Rightarrow>
             (case decode huff d' rest of
                None \<Rightarrow> None
              | Some (d2, fs2, u2, err) \<Rightarrow> Some (d2, fs @ fs2, u + u2, err))))"
  by pat_completeness auto
termination
  by (relation "measure (\<lambda>(huff, d, block). length block)") (auto dest: decode_round_shorter)

declare decode.simps [simp del]

end
