(* ===== verification/Hpack_Table.thy ===== *)
theory Hpack_Table
  imports Hpack
begin

text \<open>
  The ring buffer of \<open>hpackDecoder\<close> implements the dynamic table of RFC 7541: a list, newest entry
  first, that an insertion extends at the front and eviction cuts at the back until it fits. The
  locale \<open>dynamic_table\<close> is the interface of such a table; its lemmas say how indices move. It is
  interpreted on the ring here and on the reference table of \<open>Hpack_Spec\<close>.
\<close>

section \<open>The interface of a dynamic table\<close>

locale dynamic_table =
  fixes contents :: "'s \<Rightarrow> 'e list"
    and insert :: "'e \<Rightarrow> 's \<Rightarrow> 's"
    and resize :: "nat \<Rightarrow> 's \<Rightarrow> 's"
    and inv :: "'s \<Rightarrow> bool"
  assumes contents_insert: "inv s \<Longrightarrow> prefix (contents (insert e s)) (e # contents s)"
    and contents_resize: "inv s \<Longrightarrow> prefix (contents (resize m s)) (contents s)"
    and inv_insert: "inv s \<Longrightarrow> inv (insert e s)"
    and inv_resize: "inv s \<Longrightarrow> inv (resize m s)"
begin

text \<open>An entry that survives an insertion has moved up by one index, and a resize moves none.\<close>

lemma nth_insert:
  "inv s \<Longrightarrow> Suc i < length (contents (insert e s)) \<Longrightarrow> contents (insert e s) ! Suc i = contents s ! i"
  using contents_insert [of s e] by (auto simp: prefix_def nth_append dest: arg_cong [where f = "\<lambda>l. l ! Suc i"])

lemma newest_insert:
  "inv s \<Longrightarrow> contents (insert e s) \<noteq> [] \<Longrightarrow> hd (contents (insert e s)) = e"
  using contents_insert [of s e] by (cases "contents (insert e s)") auto

lemma nth_resize:
  "inv s \<Longrightarrow> i < length (contents (resize m s)) \<Longrightarrow> contents (resize m s) ! i = contents s ! i"
  using contents_resize [of s m] by (auto simp: prefix_def nth_append)

end

section \<open>What the ring holds\<close>

definition olds :: "hpackDecoder \<Rightarrow> hpackEntry list" where
  "olds d = map (\<lambda>i. ring d ! entry_ix d i) [0..<nent d]"

text \<open>The table, newest entry first: HPACK index 62 is its head.\<close>

definition table :: "hpackDecoder \<Rightarrow> hpackEntry list" where
  "table d = rev (olds d)"

definition esz :: "hpackEntry \<Rightarrow> nat" where
  "esz f = unat (entry_size f)"

text \<open>The longest run of newest entries whose sizes add up to at most \<open>M\<close>.\<close>

fun fit :: "('e \<Rightarrow> nat) \<Rightarrow> nat \<Rightarrow> 'e list \<Rightarrow> 'e list" where
  "fit sz M [] = []"
| "fit sz M (e # es) = (if sz e \<le> M then e # fit sz (M - sz e) es else [])"

definition ring_wf :: "hpackDecoder \<Rightarrow> bool" where
  "ring_wf d \<longleftrightarrow>
     nent d \<le> length (ring d) \<and>
     (if ring d = [] then head_ix d = 0 else head_ix d < length (ring d)) \<and>
     unat (tsize d) = sum_list (map esz (olds d)) \<and>
     unat (tsize d) \<le> hpackMaxTableSize \<and>
     unat (maxSize d) \<le> hpackMaxTableSize"

definition ring_inv :: "hpackDecoder \<Rightarrow> bool" where
  "ring_inv d \<longleftrightarrow> ring_wf d \<and> tsize d \<le> maxSize d"

lemma length_olds [simp]: "length (olds d) = nent d"
  by (simp add: olds_def)

lemma length_table [simp]: "length (table d) = nent d"
  by (simp add: table_def)

lemma olds_nth: "i < nent d \<Longrightarrow> olds d ! i = ring d ! entry_ix d i"
  by (simp add: olds_def)

lemma table_nth: "i < nent d \<Longrightarrow> table d ! i = ring d ! entry_ix d (nent d - Suc i)"
  by (simp add: table_def rev_nth olds_nth)

section \<open>Fitting a table into a size\<close>

lemma fit_prefix: "prefix (fit sz M es) es"
  by (induction sz M es rule: fit.induct) auto

lemma fit_all: "sum_list (map sz es) \<le> M \<Longrightarrow> fit sz M es = es"
  by (induction sz M es rule: fit.induct) auto

lemma fit_drop_oldest:
  "M < sum_list (map sz (es @ [e])) \<Longrightarrow> fit sz M (es @ [e]) = fit sz M es"
  by (induction es arbitrary: M) auto

lemma fit_sum: "sum_list (map sz (fit sz M es)) \<le> M"
  by (induction sz M es rule: fit.induct) auto

lemma fit_0: "(\<And>e. e \<in> set es \<Longrightarrow> 0 < sz e) \<Longrightarrow> fit sz 0 es = []"
  by (cases es) auto

section \<open>Ring arithmetic\<close>

lemma mod_ring_inj:
  assumes "i < n" "j < n" "(h + i) mod n = (h + j) mod (n::nat)"
  shows "i = j"
proof -
  have "i mod n = j mod n"
    using assms(3) by (simp add: nat_mod_eq_iff)
  with assms(1,2) show ?thesis by simp
qed

section \<open>Eviction\<close>

lemma olds_Cons:
  assumes "0 < nent d"
  shows "olds d = ring d ! entry_ix d 0 # map (\<lambda>i. ring d ! entry_ix d (Suc i)) [0..<nent d - 1]"
proof -
  have "[0..<nent d] = 0 # map Suc [0..<nent d - 1]"
    using assms by (simp add: map_Suc_upt upt_conv_Cons)
  then show ?thesis by (simp add: olds_def comp_def)
qed

lemma evict_one_olds:
  assumes "ring_wf d" "0 < nent d" "evict_one d = Some d'"
  shows "olds d' = tl (olds d)"
proof -
  let ?L = "length (ring d)"
  from assms(1,2) have L: "head_ix d < ?L" "nent d \<le> ?L" "0 < ?L"
    by (auto simp: ring_wf_def split: if_splits)
  from assms(3) have d': "ring d' = (ring d)[entry_ix d 0 := zero_entry]" "nent d' = nent d - 1"
      "head_ix d' = (head_ix d + 1) mod ?L"
    by (auto simp: evict_one_def set_entry_def entry_ix_def split: bind_splits if_splits)
  have "ring d' ! entry_ix d' i = ring d ! entry_ix d (Suc i)" if "i < nent d - 1" for i
  proof -
    have "entry_ix d' i = entry_ix d (Suc i)"
      using d' by (simp add: entry_ix_def mod_add_left_eq)
    moreover have "Suc i < ?L"
      using that L by linarith
    then have "entry_ix d (Suc i) \<noteq> entry_ix d 0"
      using L mod_ring_inj [of "Suc i" ?L 0 "head_ix d"] by (auto simp: entry_ix_def)
    ultimately show ?thesis using d' by simp
  qed
  with olds_Cons [OF assms(2)] d' show ?thesis
    by (simp add: olds_def)
qed

lemma evict_one_wf:
  assumes "ring_wf d" "0 < nent d"
  shows "\<exists>d'. evict_one d = Some d' \<and> ring_wf d' \<and> maxSize d' = maxSize d"
proof -
  from assms have ne: "ring d \<noteq> []" by (auto simp: ring_wf_def)
  then obtain d' where e: "evict_one d = Some d'"
    by (auto simp: evict_one_def entry_def set_entry_def)
  from e have d': "length (ring d') = length (ring d)" "nent d' = nent d - 1"
      "head_ix d' = (head_ix d + 1) mod length (ring d)" "maxSize d' = maxSize d"
      "tsize d' = tsize d - entry_size (ring d ! entry_ix d 0)"
    by (auto simp: evict_one_def set_entry_def entry_def split: bind_splits if_splits)
  from assms(1) have sum: "unat (tsize d) = sum_list (map esz (olds d))"
    by (simp add: ring_wf_def)
  with olds_Cons [OF assms(2)] evict_one_olds [OF assms e]
  have split: "unat (tsize d) = esz (ring d ! entry_ix d 0) + sum_list (map esz (olds d'))"
    by simp
  then have "unat (tsize d') = sum_list (map esz (olds d'))"
    unfolding d' esz_def by (subst unat_sub) (simp_all add: word_le_nat_alt)
  with assms ne d' split have "ring_wf d'"
    by (auto simp: ring_wf_def)
  with e d' show ?thesis by blast
qed

text \<open>
  \<open>evict\<close> keeps the newest entries that fit beside \<open>room\<close> more bytes. Nothing overflows: both
  summands are at most the 64 KiB bound on the table.
\<close>

lemma evict_fit:
  "ring_wf d \<Longrightarrow> unat room \<le> unat (maxSize d) \<Longrightarrow>
     \<exists>d'. evict room d = Some d' \<and> ring_wf d' \<and> maxSize d' = maxSize d \<and>
       table d' = fit esz (unat (maxSize d) - unat room) (table d) \<and>
       unat (tsize d') + unat room \<le> unat (maxSize d)"
proof (induction room d rule: evict.induct)
  case (1 room d)
  from "1.prems" have wf: "unat (tsize d) \<le> 65536" "unat room \<le> 65536" "unat (maxSize d) \<le> 65536"
      "unat (tsize d) = sum_list (map esz (olds d))"
    by (auto simp: ring_wf_def hpackMaxTableSize_def)
  then have add: "unat (tsize d + room) = unat (tsize d) + unat room"
    by (subst unat_plus_simple [symmetric]) (simp add: no_olen_add_nat)
  show ?case
  proof (cases "maxSize d < tsize d + room \<and> 0 < nent d")
    case True
    then obtain d1 where
      d1: "evict_one d = Some d1" "ring_wf d1" "maxSize d1 = maxSize d"
      using evict_one_wf [OF "1.prems"(1)] by auto
    from True d1 "1.IH" [OF True d1(1) d1(2)] "1.prems"(2) obtain d2 where
      d2: "evict room d1 = Some d2" "ring_wf d2" "maxSize d2 = maxSize d"
        "table d2 = fit esz (unat (maxSize d) - unat room) (table d1)"
        "unat (tsize d2) + unat room \<le> unat (maxSize d)" by auto
    from True evict_one_olds [OF "1.prems"(1) _ d1(1)] have tl: "olds d1 = tl (olds d)" by simp
    from True have ne: "olds d \<noteq> []" by (metis length_olds length_greater_0_conv)
    have "table d = table d1 @ [hd (olds d)]"
      using ne tl by (cases "olds d") (simp_all add: table_def)
    moreover have "unat (maxSize d) - unat room < sum_list (map esz (table d))"
      using True wf(4) add "1.prems"(2)
      by (auto simp: table_def rev_map [symmetric] sum_list_rev word_less_nat_alt)
    ultimately have "fit esz (unat (maxSize d) - unat room) (table d1)
                   = fit esz (unat (maxSize d) - unat room) (table d)"
      using fit_drop_oldest [of _ esz "table d1" "hd (olds d)"] by simp
    moreover have "evict room d = Some d2"
      using True d1 d2 by (subst evict.simps) simp
    ultimately show ?thesis using d2 by simp
  next
    case False
    then have e: "evict room d = Some d"
      by (subst evict.simps) auto
    have le: "unat (tsize d) + unat room \<le> unat (maxSize d)"
    proof (cases "nent d = 0")
      case True
      then have "olds d = []" by (metis length_olds length_0_conv)
      with wf(4) "1.prems"(2) show ?thesis by simp
    next
      case nz: False
      with False add show ?thesis by (simp add: word_less_nat_alt)
    qed
    then have "sum_list (map esz (table d)) \<le> unat (maxSize d) - unat room"
      using wf(4) by (simp add: table_def rev_map [symmetric] sum_list_rev)
    with e le "1.prems"(1) show ?thesis by (simp add: fit_all)
  qed
qed

section \<open>Insertion\<close>

lemma grow_olds: "nent d = length (ring d) \<Longrightarrow> olds (grow d) = olds d"
proof -
  assume n: "nent d = length (ring d)"
  have "(map (\<lambda>i. ring d ! entry_ix d i) [0..<nent d] @ zs) ! (i mod (max (2 * nent d) 16))
          = ring d ! entry_ix d i" if "i < nent d" for i zs
    using that by (simp add: nth_append)
  with n show ?thesis
    by (auto simp: olds_def grow_def entry_ix_def)
qed

lemma grow_sel [simp]:
  "nent (grow d) = nent d" "tsize (grow d) = tsize d" "maxSize (grow d) = maxSize d"
  "head_ix (grow d) = 0"
  by (simp_all add: grow_def)

lemma length_grow: "nent d = length (ring d) \<Longrightarrow> length (ring (grow d)) = max (2 * nent d) 16"
  by (simp add: grow_def)

lemma grow_wf: "ring_wf d \<Longrightarrow> nent d = length (ring d) \<Longrightarrow> ring_wf (grow d)"
  using length_grow [of d] by (auto simp: ring_wf_def grow_olds)

lemma make_room:
  assumes "ring_wf d"
  obtains d2 where "d2 = (if nent d = length (ring d) then grow d else d)" "ring_wf d2"
    "nent d2 < length (ring d2)" "olds d2 = olds d" "nent d2 = nent d" "tsize d2 = tsize d"
    "maxSize d2 = maxSize d"
proof
  let ?d = "if nent d = length (ring d) then grow d else d"
  show "ring_wf ?d" "olds ?d = olds d" "nent ?d = nent d" "tsize ?d = tsize d"
    "maxSize ?d = maxSize d"
    using assms by (auto simp: grow_wf grow_olds)
  show "nent ?d < length (ring ?d)"
    using assms length_grow [of d] by (auto simp: ring_wf_def)
qed simp

lemma push_olds:
  assumes "ring_wf d" "nent d < length (ring d)" "set_entry d (nent d) f = Some d'"
  shows "olds (d'\<lparr>nent := nent d' + 1, tsize := t\<rparr>) = olds d @ [f]"
proof -
  let ?L = "length (ring d)"
  from assms have d': "d' = d\<lparr>ring := (ring d)[entry_ix d (nent d) := f]\<rparr>"
    by (auto simp: set_entry_def split: if_splits)
  have "entry_ix d (nent d) \<noteq> entry_ix d i" if "i < nent d" for i
    using that assms(2) mod_ring_inj [of i ?L "nent d" "head_ix d"] by (auto simp: entry_ix_def)
  moreover have "entry_ix d (nent d) < ?L"
    using assms(2) by (auto simp: entry_ix_def intro!: mod_less_divisor)
  ultimately show ?thesis
    using assms(2) by (auto simp: d' olds_def entry_ix_def)
qed

theorem insert_entry_fit:
  assumes "ring_inv d"
  shows "\<exists>d'. insert_entry f d = Some d' \<and> ring_inv d' \<and> maxSize d' = maxSize d \<and>
    table d' = fit esz (unat (maxSize d)) (f # table d)"
proof (cases "maxSize d < entry_size f")
  case True
  then have "insert_entry f d = Some (empty_table d)"
    by (simp add: insert_entry_def)
  moreover have "olds (empty_table d) = []"
    by (simp add: olds_def empty_table_def)
  moreover have "\<not> esz f \<le> unat (maxSize d)"
    using True by (simp add: esz_def word_less_nat_alt)
  ultimately show ?thesis
    using assms by (auto simp: ring_inv_def ring_wf_def empty_table_def table_def)
next
  case False
  then have le: "esz f \<le> unat (maxSize d)"
    by (simp add: esz_def word_less_nat_alt)
  from assms have wf: "ring_wf d" by (simp add: ring_inv_def)
  from evict_fit [OF wf, of "entry_size f"] le obtain d1 where
    d1: "evict (entry_size f) d = Some d1" "ring_wf d1" "maxSize d1 = maxSize d"
      "table d1 = fit esz (unat (maxSize d) - esz f) (table d)"
      "unat (tsize d1) + esz f \<le> unat (maxSize d)"
    by (auto simp: esz_def)
  obtain d2 where d2: "d2 = (if nent d1 = length (ring d1) then grow d1 else d1)" "ring_wf d2"
      "nent d2 < length (ring d2)" "olds d2 = olds d1" "nent d2 = nent d1" "tsize d2 = tsize d1"
      "maxSize d2 = maxSize d1"
    using make_room [OF d1(2)] by metis
  from d2(3) have "ring d2 \<noteq> []" by auto
  then obtain d3 where d3: "set_entry d2 (nent d2) f = Some d3"
    by (auto simp: set_entry_def)
  let ?d = "d3\<lparr>nent := nent d3 + 1, tsize := tsize d3 + entry_size f\<rparr>"
  from d3 have d3': "d3 = d2\<lparr>ring := (ring d2)[entry_ix d2 (nent d2) := f]\<rparr>"
    by (auto simp: set_entry_def split: if_splits)
  have "insert_entry f d = Some ?d"
    using False d1(1) d2(1) d3 by (simp add: insert_entry_def Let_def)
  moreover have o: "olds ?d = olds d1 @ [f]"
    using push_olds [OF d2(2,3) d3] d2(4) by simp
  then have "table ?d = fit esz (unat (maxSize d)) (f # table d)"
    using le d1(4) by (simp add: table_def)
  moreover have "ring_inv ?d"
  proof -
    have bound: "unat (maxSize d) \<le> 65536"
      using wf by (simp add: ring_wf_def hpackMaxTableSize_def)
    have "unat (tsize d1 + entry_size f) = unat (tsize d1) + esz f"
      unfolding esz_def using d1(5) bound
      by (subst unat_plus_simple [symmetric]) (simp add: no_olen_add_nat esz_def)
    with d1 d2 d3' o bound wf show ?thesis
      by (auto simp: ring_inv_def ring_wf_def hpackMaxTableSize_def word_le_nat_alt)
  qed
  moreover have "maxSize ?d = maxSize d"
    using d1(3) d2(7) d3' by simp
  ultimately show ?thesis by blast
qed

lemma reset_inv [keeps_inv]: "ring_wf d \<Longrightarrow> ring_inv (reset d) \<and> table (reset d) = []"
  by (auto simp: reset_def empty_table_def ring_inv_def ring_wf_def table_def olds_def
      hpackDefaultTableSize_def hpackMaxTableSize_def)

lemma new_inv [keeps_inv]: "ring_inv newHpackDecoder \<and> table newHpackDecoder = []"
  by (auto simp: newHpackDecoder_def ring_inv_def ring_wf_def table_def olds_def
      hpackDefaultTableSize_def hpackMaxTableSize_def)

text \<open>A dynamic table size update: \<open>d.maxSize = uint32(min(size, hpackMaxTableSize)); d.evict(0)\<close>.\<close>

lemma size_update_fit:
  assumes "ring_inv d" and "m \<le> hpackMaxTableSize"
  shows "\<exists>d'. evict 0 (d\<lparr>maxSize := of_nat m\<rparr>) = Some d' \<and> ring_inv d' \<and>
    unat (maxSize d') = m \<and> table d' = fit esz m (table d)"
proof -
  let ?d = "d\<lparr>maxSize := of_nat m\<rparr>"
  have m: "unat (of_nat m :: u32) = m"
    using assms(2) by (simp add: unat_of_nat hpackMaxTableSize_def)
  have o: "olds ?d = olds d"
    by (simp add: olds_def entry_ix_def)
  with assms m have "ring_wf ?d"
    by (auto simp: ring_inv_def ring_wf_def)
  from evict_fit [OF this, of 0] m o show ?thesis
    by (auto simp: table_def ring_inv_def word_le_nat_alt)
qed

section \<open>Lookup\<close>

definition lookup_field :: "hpackEntry list \<Rightarrow> nat \<Rightarrow> hpackEntry option" where
  "lookup_field es idx =
     (if idx \<le> 61 then Some (case hpackStaticTable ! (idx - 1) of (n, v) \<Rightarrow> mk_entry n v False)
      else if idx - 61 \<le> length es then Some (es ! (idx - 62)) else None)"

lemma field_lookup:
  assumes "ring_inv d" "idx \<noteq> 0"
  shows "field d idx = Some (lookup_field (table d) (unat idx))"
proof (cases "unat idx \<le> 61")
  case True
  with assms(2) show ?thesis by (simp add: field_def lookup_field_def)
next
  case False
  show ?thesis
  proof (cases "nent d < unat idx - 61")
    case True
    with False show ?thesis by (simp add: field_def lookup_field_def)
  next
    case le: False
    with False have pos: "0 < nent d" by simp
    with assms(1) have "ring d \<noteq> []" by (auto simp: ring_inv_def ring_wf_def)
    moreover have "table d ! (unat idx - 62) = ring d ! entry_ix d (nent d - (unat idx - 61))"
    proof -
      have "Suc (unat idx - 62) = unat idx - 61" using False by simp
      then show ?thesis using table_nth [of "unat idx - 62" d] le False by simp
    qed
    ultimately show ?thesis
      using le False by (auto simp: field_def lookup_field_def entry_def)
  qed
qed

interpretation ring_table: dynamic_table table "\<lambda>f d. the (insert_entry f d)"
  "\<lambda>m d. the (evict 0 (d\<lparr>maxSize := of_nat (min m hpackMaxTableSize)\<rparr>))" ring_inv
proof (unfold_locales, goal_cases)
  case (1 d f)
  with insert_entry_fit [of d f] show ?case using fit_prefix by fastforce
next
  case (2 d m)
  with size_update_fit [of d "min m hpackMaxTableSize"] show ?case using fit_prefix by fastforce
next
  case (3 d f)
  with insert_entry_fit [of d f] show ?case by fastforce
next
  case (4 d m)
  with size_update_fit [of d "min m hpackMaxTableSize"] show ?case by fastforce
qed

end
