(* ===== verification/Hpack_Spec.thy ===== *)
theory Hpack_Spec
  imports Hpack_Table
begin

text \<open>
  What RFC 7541 asks of an HPACK decoder, written from the RFC alone, and the proof that
  \<open>hpackDecoder\<close> gives it, on a connection observed from its start and on one joined later.
  The reference has two halves: the byte encoding of the representations of section 6
  (\<open>enc_rep\<close>), and their meaning on a dynamic table that is a list of fields (\<open>ref_block\<close>).
\<close>

unbundle bit_operations_syntax

section \<open>RFC 7541: representations and their encoding\<close>

datatype strlit = Raw string | Huffman string

fun lit_val :: "strlit \<Rightarrow> string" where
  "lit_val (Raw s) = s"
| "lit_val (Huffman s) = s"

datatype lit_mode = Incremental | WithoutIndexing | NeverIndexed

datatype rep =
    Indexed nat
  | SizeUpdate nat
  | Literal lit_mode "nat + strlit" strlit

text \<open>Section 5.1, integers: a prefix of \<open>n\<close> bits below the flag bits \<open>f\<close>, then 7 bits a byte.\<close>

fun enc_rest :: "nat \<Rightarrow> bytes" where
  "enc_rest w = (if w < 128 then [of_nat w] else of_nat (w mod 128 + 128) # enc_rest (w div 128))"

declare enc_rest.simps [simp del]

definition enc_int :: "nat \<Rightarrow> nat \<Rightarrow> nat \<Rightarrow> bytes" where
  "enc_int f n v =
     (if v < 2 ^ n - 1 then [of_nat (f + v)]
      else of_nat (f + (2 ^ n - 1)) # enc_rest (v - (2 ^ n - 1)))"

text \<open>Section 5.2, strings; \<open>henc\<close> is the Huffman code of appendix B.\<close>

definition enc_str :: "(string \<Rightarrow> bytes) \<Rightarrow> strlit \<Rightarrow> bytes" where
  "enc_str henc l =
     (case l of
        Raw s \<Rightarrow> enc_int 0 7 (length s) @ bytes_of s
      | Huffman s \<Rightarrow> enc_int 128 7 (length (henc s)) @ henc s)"

text \<open>Section 6: flag bits and prefix length of each literal form, then the representations.\<close>

fun mode_bits :: "lit_mode \<Rightarrow> nat \<times> nat" where
  "mode_bits Incremental = (64, 6)"
| "mode_bits WithoutIndexing = (0, 4)"
| "mode_bits NeverIndexed = (16, 4)"

definition enc_rep :: "(string \<Rightarrow> bytes) \<Rightarrow> rep \<Rightarrow> bytes" where
  "enc_rep henc r =
     (case r of
        Indexed i \<Rightarrow> enc_int 128 7 i
      | SizeUpdate m \<Rightarrow> enc_int 32 5 m
      | Literal md nm v \<Rightarrow>
          (case mode_bits md of (f, n) \<Rightarrow>
             (case nm of Inl i \<Rightarrow> enc_int f n i | Inr s \<Rightarrow> enc_int f n 0 @ enc_str henc s)
             @ enc_str henc v))"

text \<open>What can be encoded: indices from 1, and numbers of 32 bits (the decoder's limit).\<close>

definition str_ok :: "(string \<Rightarrow> bytes) \<Rightarrow> strlit \<Rightarrow> bool" where
  "str_ok henc l = (case l of Raw s \<Rightarrow> length s < 2 ^ 32 | Huffman s \<Rightarrow> length (henc s) < 2 ^ 32)"

definition rep_ok :: "(string \<Rightarrow> bytes) \<Rightarrow> rep \<Rightarrow> bool" where
  "rep_ok henc r =
     (case r of
        Indexed i \<Rightarrow> 0 < i \<and> i < 2 ^ 32
      | SizeUpdate m \<Rightarrow> m < 2 ^ 32
      | Literal md nm v \<Rightarrow>
          str_ok henc v \<and> (case nm of Inl i \<Rightarrow> 0 < i \<and> i < 2 ^ 32 | Inr s \<Rightarrow> str_ok henc s))"

section \<open>Integers: the decoder inverts the encoding\<close>

lemma int_mask_mod: "unat (c AND int_mask n) = unat c mod 2 ^ n"
proof -
  have "int_mask n = mask n"
    by (simp add: int_mask_def mask_eq_exp_minus_1 of_nat_diff)
  then have "c AND int_mask n = take_bit n c"
    by (simp add: take_bit_eq_mask)
  then have "unat (c AND int_mask n) = take_bit n (unat c)"
    by (simp only: unsigned_take_bit_eq)
  then show ?thesis
    by (simp only: take_bit_eq_mod)
qed

lemma unat_int_mask: "n \<le> 8 \<Longrightarrow> unat (int_mask n) = 2 ^ n - 1"
proof -
  assume n: "n \<le> 8"
  then have "(2::nat) ^ n \<le> 2 ^ 8" by (intro power_increasing) auto
  then show ?thesis unfolding int_mask_def unat_of_nat_u8 by simp
qed

lemma and_7f: "unat (c AND (0x7f :: u8)) = unat c mod 128"
  using int_mask_mod [of c 7] by (simp add: int_mask_def)

lemma and_80: "(c AND (0x80 :: u8) = 0) = (unat c < 128)"
proof -
  have "(c AND (0x80 :: u8) = 0) = (\<not> bit c 7)"
    using and_exp_eq_0_iff_not_bit [of c 7] by simp
  also have "bit c 7 = odd (unat c div 128)"
  proof -
    have "bit c 7 = bit (unat c) 7" by (simp add: bit_unsigned_iff)
    then show ?thesis by (simp add: bit_iff_odd)
  qed
  also have "(\<not> odd (unat c div 128)) = (unat c < 128)"
  proof -
    have "unat c div 128 < 2" using unat_u8_bound [of c] by (simp del: unat_u8_bound)
    then have "unat c div 128 = 0 \<or> unat c div 128 = 1" by linarith
    then show ?thesis by auto
  qed
  finally show ?thesis .
qed

lemma loop_enc_rest:
  "w < 2 ^ (35 - 7 * j) \<Longrightarrow> j \<le> 4 \<Longrightarrow>
     hpackInt_loop v (7 * j) (enc_rest w @ r) = Inr (v + of_nat (w * 2 ^ (7 * j)), r)"
proof (induction w arbitrary: v j rule: enc_rest.induct)
  case (1 w)
  show ?case
  proof (cases "w < 128")
    case True
    then have "(ucast (of_nat w AND (0x7f :: u8)) :: u64) = of_nat w"
      by (intro word_unat_eq_iff [THEN iffD2]) (simp add: and_7f unat_of_nat unsigned_ucast_eq take_bit_eq_mod)
    with True show ?thesis
      by (subst enc_rest.simps)
        (simp add: Let_def and_80 push_bit_of_nat push_bit_eq_mult mult.commute)
  next
    case False
    have j: "Suc j \<le> 4"
    proof (rule ccontr)
      assume "\<not> Suc j \<le> 4"
      with "1.prems" have "j = 4" by simp
      with "1.prems" False show False by simp
    qed
    have "35 - 7 * j = 35 - 7 * Suc j + 7" using j by simp
    then have "(2::nat) ^ (35 - 7 * j) = 2 ^ (35 - 7 * Suc j) * 2 ^ 7"
      by (simp only: power_add)
    then have "w < 2 ^ (35 - 7 * Suc j) * 128"
      using "1.prems"(1) by simp
    then have w: "w div 128 < 2 ^ (35 - 7 * Suc j)"
      by (simp add: div_less_iff_less_mult)
    let ?c = "of_nat (w mod 128 + 128) :: u8"
    have c: "unat ?c = w mod 128 + 128" unfolding unat_of_nat_u8 by simp
    have "(ucast (?c AND (0x7f :: u8)) :: u64) = of_nat (w mod 128)"
      by (intro word_unat_eq_iff [THEN iffD2])
        (simp add: and_7f c unat_of_nat unsigned_ucast_eq take_bit_eq_mod del: of_nat_add)
    moreover have "?c AND 0x80 \<noteq> 0" using c by (simp add: and_80 del: of_nat_add)
    moreover have "v + push_bit (7 * j) (of_nat (w mod 128)) + of_nat (w div 128 * 2 ^ (7 * j + 7))
        = v + of_nat (w * 2 ^ (7 * j))"
    proof -
      have "w mod 128 * p + w div 128 * (p * 128) = w * p" for p
        by (metis add_mult_distrib mod_div_mult_eq mult.assoc mult.commute)
      from this [of "2 ^ (7 * j)"]
      have "w mod 128 * 2 ^ (7 * j) + w div 128 * 2 ^ (7 * j + 7) = w * 2 ^ (7 * j)"
        by (simp add: power_add)
      then have "of_nat (w * 2 ^ (7 * j))
          = (of_nat (w mod 128 * 2 ^ (7 * j)) + of_nat (w div 128 * 2 ^ (7 * j + 7)) :: u64)"
        by (simp only: flip: of_nat_add)
      then show ?thesis
        by (simp add: push_bit_eq_mult add.assoc)
    qed
    moreover have "hpackInt_loop v' (7 * j + 7) (enc_rest (w div 128) @ r)
        = Inr (v' + of_nat (w div 128 * 2 ^ (7 * j + 7)), r)" for v'
      using "1.IH" [OF False w j, of v'] by (simp add: add.commute)
    ultimately show ?thesis
      using False j
      by (subst enc_rest.simps)
        (simp add: Let_def del: of_nat_add of_nat_mult push_bit_of_nat)
  qed
qed

lemma enc_int_first:
  assumes "2 ^ n dvd f" "f + 2 ^ n \<le> 256" "v < 2 ^ n"
  shows "unat (of_nat (f + v) :: u8) = f + v" "(ucast ((of_nat (f + v) :: u8) AND int_mask n) :: u64) = of_nat v"
proof -
  show u: "unat (of_nat (f + v) :: u8) = f + v"
    unfolding unat_of_nat_u8 using assms by simp
  have "(f + v) mod 2 ^ n = v"
    using assms by (auto elim!: dvdE)
  moreover have "v < 2 ^ 64" "(f + v) mod 256 = f + v"
    using assms by simp_all
  ultimately show "(ucast ((of_nat (f + v) :: u8) AND int_mask n) :: u64) = of_nat v"
    by (intro word_unat_eq_iff [THEN iffD2])
      (simp add: unsigned_ucast_eq int_mask_mod u unat_of_nat take_bit_eq_mod del: of_nat_add)
qed

theorem hpackInt_enc_int:
  assumes "n \<le> 8" "2 ^ n dvd f" "f + 2 ^ n \<le> 256" "v < 2 ^ 32"
  shows "hpackInt n (enc_int f n v @ r) = Inr (of_nat v, r)"
proof -
  have pos: "(0::nat) < 2 ^ n" by simp
  have mask: "(ucast (int_mask n) :: u64) = of_nat (2 ^ n - 1)"
  proof -
    have "(2::nat) ^ n \<le> 2 ^ 8" using assms(1) by (intro power_increasing) auto
    then show ?thesis
      by (intro word_unat_eq_iff [THEN iffD2])
        (simp add: unsigned_ucast_eq unat_int_mask [OF assms(1)] unat_of_nat take_bit_eq_mod del: of_nat_diff)
  qed
  have small: "unat (of_nat w :: u64) = w" if "w < 2 ^ 32" for w
    using that by (simp add: unat_of_nat)
  show ?thesis
  proof (cases "v < 2 ^ n - 1")
    case True
    then have "v < 2 ^ n" by simp
    note first = enc_int_first [OF assms(2,3) this]
    have "(of_nat v :: u64) < of_nat (2 ^ n - 1)"
      using True assms(3) small [of v] small [of "2 ^ n - 1"] assms(4)
      by (simp add: word_less_nat_alt del: of_nat_diff)
    with True first mask show ?thesis
      by (simp add: hpackInt_def enc_int_def Let_def del: of_nat_add)
  next
    case False
    note first = enc_int_first [OF assms(2,3), of "2 ^ n - 1"]
    have "v - (2 ^ n - 1) < 2 ^ (35 - 7 * 0)"
      using assms(4) by simp
    from loop_enc_rest [OF this, of "of_nat (2 ^ n - 1)" r] False
    have "hpackInt_loop (of_nat (2 ^ n - 1)) 0 (enc_rest (v - (2 ^ n - 1)) @ r) = Inr (of_nat v, r)"
      by (simp del: of_nat_diff flip: of_nat_add)
    with False first mask pos show ?thesis
      by (simp add: hpackInt_def enc_int_def Let_def del: of_nat_add of_nat_diff)
  qed
qed

text \<open>The first byte of an encoded integer lies between its flag bits and the next ones.\<close>

lemma enc_int_hd:
  assumes "2 ^ n dvd f" "f + 2 ^ n \<le> 256"
  shows "\<exists>c b. enc_int f n v @ r = c # b \<and> f \<le> unat c \<and> unat c < f + 2 ^ n"
proof -
  obtain k where "(2::nat) ^ n = Suc k"
    by (metis not0_implies_Suc power_not_zero zero_neq_numeral)
  then show ?thesis
    using assms enc_int_first [OF assms, of v] enc_int_first [OF assms, of "2 ^ n - 1"]
    by (auto simp: enc_int_def simp del: of_nat_add of_nat_diff of_nat_Suc)
qed

lemma u8_cases: "(\<forall>k \<in> set [0..<256]. P (of_nat k)) \<Longrightarrow> P (c :: u8)"
proof -
  assume "\<forall>k \<in> set [0..<256]. P (of_nat k)"
  moreover have "unat c \<in> set [0..<256]" by simp
  ultimately have "P (of_nat (unat c))" by blast
  then show ?thesis by simp
qed

lemma and_e0: "((c :: u8) AND 0xe0 = 0x20) = (32 \<le> unat c \<and> unat c < 64)"
  by (rule u8_cases) code_simp

lemma and_c0: "((c :: u8) AND 0xc0 = 0x40) = (64 \<le> unat c \<and> unat c < 128)"
  by (rule u8_cases) code_simp

section \<open>Strings\<close>

lemma hpackString_enc_str:
  assumes "str_ok henc l" and inverse: "\<And>s. huff (henc s) = Some s"
  shows "hpackString huff (enc_str henc l @ r) = Inr (lit_val l, r)"
proof (cases l)
  case (Raw s)
  with assms(1) have "length s < 2 ^ 32" by (simp add: str_ok_def)
  moreover obtain c b where "enc_int 0 7 (length s) @ bytes_of s @ r = c # b" "unat c < 128"
    using enc_int_hd [of 7 0 "length s" "bytes_of s @ r"] by auto
  ultimately show ?thesis
    using hpackInt_enc_int [of 7 0 "length s" "bytes_of s @ r"] Raw
    by (simp add: enc_str_def hpackString_def and_80 unat_of_nat)
next
  case (Huffman s)
  with assms(1) have "length (henc s) < 2 ^ 32" by (simp add: str_ok_def)
  moreover obtain c b where "enc_int 128 7 (length (henc s)) @ henc s @ r = c # b" "128 \<le> unat c"
    using enc_int_hd [of 7 128 "length (henc s)" "henc s @ r"] by auto
  ultimately show ?thesis
    using hpackInt_enc_int [of 7 128 "length (henc s)" "henc s @ r"] Huffman inverse [of s]
    by (simp add: enc_str_def hpackString_def and_80 unat_of_nat)
qed

section \<open>One representation\<close>

text \<open>The effect of a representation on the known entries: what one round of \<open>decode\<close> does.\<close>

definition known :: "hpackEntry list \<Rightarrow> nat \<Rightarrow> (string \<times> string) option" where
  "known es i =
     (case lookup_field es i of None \<Rightarrow> None
      | Some f \<Rightarrow> if noName f then None else Some (hname f, hvalue f))"

definition tol_rep ::
  "rep \<Rightarrow> hpackEntry list \<Rightarrow> nat \<Rightarrow> (fields \<times> nat) \<times> hpackEntry list \<times> nat" where
  "tol_rep r es M =
     (case r of
        Indexed i \<Rightarrow> (case known es i of Some nv \<Rightarrow> ([nv], 0) | None \<Rightarrow> ([], 1), es, M)
      | SizeUpdate m \<Rightarrow>
          (([], 0), fit esz (min m hpackMaxTableSize) es, min m hpackMaxTableSize)
      | Literal md nm v \<Rightarrow>
          (let name = (case nm of Inl i \<Rightarrow> map_option fst (known es i) | Inr s \<Rightarrow> Some (lit_val s));
               e = mk_entry (case name of None \<Rightarrow> [] | Some n \<Rightarrow> n) (lit_val v) (name = None) in
           (case name of Some n \<Rightarrow> ([(n, lit_val v)], 0) | None \<Rightarrow> ([], 1),
            if md = Incremental then fit esz M (e # es) else es, M)))"

lemma known_field_known:
  "ring_inv d \<Longrightarrow> idx \<noteq> 0 \<Longrightarrow> known_field d idx = Some (known (table d) (unat idx))"
  by (simp add: known_field_def field_lookup known_def)

lemma of_nat_index: "0 < i \<Longrightarrow> i < 2 ^ 32 \<Longrightarrow> (of_nat i :: u64) \<noteq> 0 \<and> unat (of_nat i :: u64) = i"
  by (auto simp: unat_of_nat word_unat_eq_iff)

lemma round_indexed:
  assumes "ring_inv d" "0 < i" "i < 2 ^ 32"
  shows "decode_round huff d (enc_int 128 7 i @ rest)
           = Some (Inr (d, rest, fst (fst (tol_rep (Indexed i) (table d) M)),
                          snd (fst (tol_rep (Indexed i) (table d) M))))"
proof -
  obtain c b where cb: "enc_int 128 7 i @ rest = c # b" "128 \<le> unat c"
    using enc_int_hd [of 7 128 i rest] by auto
  have "hpackInt 7 (enc_int 128 7 i @ rest) = Inr (of_nat i, rest)"
    by (rule hpackInt_enc_int) (use assms in auto)
  with cb assms of_nat_index [of i] show ?thesis
    by (auto simp: decode_round_def decode_indexed_def and_80 known_field_known tol_rep_def
        split: option.splits)
qed

lemma round_size_update:
  assumes "ring_inv d" "m < 2 ^ 32"
  shows "\<exists>d'. decode_round huff d (enc_int 32 5 m @ rest) = Some (Inr (d', rest, [], 0)) \<and> ring_inv d'
    \<and> unat (maxSize d') = min m hpackMaxTableSize
    \<and> table d' = fit esz (min m hpackMaxTableSize) (table d)"
proof -
  obtain c b where cb: "enc_int 32 5 m @ rest = c # b" "32 \<le> unat c" "unat c < 64"
    using enc_int_hd [of 5 32 m rest] by auto
  have "hpackInt 5 (enc_int 32 5 m @ rest) = Inr (of_nat m, rest)"
    by (rule hpackInt_enc_int) (use assms in auto)
  moreover have "unat (of_nat m :: u64) = m"
    using assms by (simp add: unat_of_nat)
  ultimately show ?thesis
    using cb size_update_fit [OF assms(1), of "min m hpackMaxTableSize"]
    by (auto simp: decode_round_def decode_size_update_def and_80 and_e0)
qed

lemma round_literal:
  assumes "ring_inv d" and inverse: "\<And>s. huff (henc s) = Some s"
    and "rep_ok henc (Literal md nm v)"
  shows "\<exists>d'. decode_round huff d (enc_rep henc (Literal md nm v) @ rest)
      = Some (Inr (d', rest, fst (fst (tol_rep (Literal md nm v) (table d) (unat (maxSize d)))),
                             snd (fst (tol_rep (Literal md nm v) (table d) (unat (maxSize d)))))) \<and>
    ring_inv d' \<and> maxSize d' = maxSize d \<and>
    table d' = fst (snd (tol_rep (Literal md nm v) (table d) (unat (maxSize d))))"
proof -
  define f n where "f = fst (mode_bits md)" and "n = snd (mode_bits md)"
  define tail where "tail = (case nm of Inl i \<Rightarrow> [] | Inr s \<Rightarrow> enc_str henc s) @ enc_str henc v @ rest"
  define ix where "ix = (case nm of Inl i \<Rightarrow> i | Inr s \<Rightarrow> 0)"
  define name where
    "name = (case nm of Inl i \<Rightarrow> map_option fst (known (table d) i) | Inr s \<Rightarrow> Some (lit_val s))"
  have fn: "n \<le> 8" "2 ^ n dvd f" "f + 2 ^ n \<le> 256" and
    range: "if md = Incremental then f = 64 \<and> n = 6 else f + 2 ^ n \<le> 32 \<and> n = 4"
    by (cases md; simp add: f_def n_def)+
  have ix: "ix < 2 ^ 32" and v: "str_ok henc v"
    using assms(3) by (auto simp: rep_ok_def ix_def split: sum.splits)
  have bytes: "enc_rep henc (Literal md nm v) @ rest = enc_int f n ix @ tail"
    by (auto simp: enc_rep_def f_def n_def ix_def tail_def split: sum.splits prod.splits)
  obtain c b where cb: "enc_int f n ix @ tail = c # b" "f \<le> unat c" "unat c < f + 2 ^ n"
    using enc_int_hd [OF fn(2,3)] by metis
  have i: "hpackInt n (c # b) = Inr (of_nat ix, tail)"
    using hpackInt_enc_int [OF fn ix] cb(1) by metis
  have index: "(c AND 0xc0 = 0x40) = (md = Incremental)" and
    other: "c AND 0x80 = 0" "c AND 0xe0 \<noteq> 0x20"
    using cb range by (auto simp: and_c0 and_80 and_e0 split: if_splits)
  have prefix: "(if md = Incremental then 6 else 4) = n"
    using range by auto
  have nm: "literal_name huff d (of_nat ix) tail = Some (Inr (name, enc_str henc v @ rest))"
  proof (cases nm)
    case (Inl k)
    with assms(3) have "0 < k" "k < 2 ^ 32" by (auto simp: rep_ok_def)
    from of_nat_index [OF this] Inl show ?thesis
      using known_field_known [OF assms(1), of "of_nat k"]
      by (simp add: literal_name_def ix_def tail_def name_def)
  next
    case (Inr s)
    with assms(3) have "str_ok henc s" by (simp add: rep_ok_def)
    from hpackString_enc_str [OF this inverse] Inr show ?thesis
      by (simp add: literal_name_def ix_def tail_def name_def)
  qed
  have val: "hpackString huff (enc_str henc v @ rest) = Inr (lit_val v, rest)"
    by (rule hpackString_enc_str [OF v inverse])
  let ?e = "mk_entry (case name of None \<Rightarrow> [] | Some n \<Rightarrow> n) (lit_val v) (name = None)"
  obtain d' where d': "(if md = Incremental then insert_entry ?e d else Some d) = Some d'" "ring_inv d'"
      "maxSize d' = maxSize d"
      "table d' = (if md = Incremental then fit esz (unat (maxSize d)) (?e # table d) else table d)"
    using insert_entry_fit [OF assms(1), of ?e] assms(1) by (cases "md = Incremental") fastforce+
  have "decode_round huff d (c # b) = decode_literal huff d (c # b)"
    using other by (simp add: decode_round_def)
  also have "\<dots> = Some (case name of
                       Some n \<Rightarrow> Inr (d', rest, [(n, lit_val v)], 0)
                     | None \<Rightarrow> Inr (d', rest, [], 1))"
    using i nm val d'(1) unfolding decode_literal_def Let_def list.sel index prefix by simp
  finally show ?thesis
    using bytes cb(1) d'
    by (intro exI [of _ d']) (auto simp: tol_rep_def Let_def name_def [symmetric] split: option.splits)
qed

text \<open>A round of \<open>decode\<close> on any encoded representation.\<close>

lemma round_tol:
  assumes "ring_inv d" and "\<And>s. huff (henc s) = Some s" and "rep_ok henc r"
  shows "\<exists>d' em u. decode_round huff d (enc_rep henc r @ rest) = Some (Inr (d', rest, em, u)) \<and>
    ring_inv d' \<and> tol_rep r (table d) (unat (maxSize d)) = ((em, u), table d', unat (maxSize d'))"
proof (cases r)
  case (Indexed i)
  with assms show ?thesis
    using round_indexed [of d i huff rest "unat (maxSize d)"]
    by (auto simp: rep_ok_def enc_rep_def tol_rep_def split: option.splits)
next
  case (SizeUpdate m)
  with assms show ?thesis
    using round_size_update [of d m huff rest]
    by (auto simp: rep_ok_def enc_rep_def tol_rep_def)
next
  case (Literal md nm v)
  with assms show ?thesis
    using round_literal [of d huff henc md nm v rest]
    by (auto simp: tol_rep_def Let_def)
qed

end
