(* ===== verification/Hpack_Sim.thy ===== *)
theory Hpack_Sim
  imports Hpack_Spec
begin

text \<open>
  The meaning RFC 7541 gives a header block on a dynamic table, and how the decoder relates to it:
  it never panics, whatever the bytes; on a connection it joined late it never reports a header
  that was not sent; its table catches up with the encoder's; and on a connection it saw from the
  start it decodes exactly what was sent.
\<close>

section \<open>The reference table\<close>

text \<open>Section 4.1: the size of an entry.\<close>

definition rsz :: "string \<times> string \<Rightarrow> nat" where
  "rsz t = length (fst t) + length (snd t) + 32"

text \<open>The state of the encoder: its table, newest entry first, and the size it may take.\<close>

type_synonym ref_state = "(string \<times> string) list \<times> nat"

definition ref_field :: "(string \<times> string) list \<Rightarrow> nat \<Rightarrow> (string \<times> string) option" where
  "ref_field T i =
     (if i = 0 then None
      else if i \<le> 61 then Some (hpackStaticTable ! (i - 1))
      else if i - 61 \<le> length T then Some (T ! (i - 62)) else None)"

definition ref_insert :: "string \<times> string \<Rightarrow> ref_state \<Rightarrow> ref_state" where
  "ref_insert t s = (fit rsz (snd s) (t # fst s), snd s)"

definition ref_resize :: "nat \<Rightarrow> ref_state \<Rightarrow> ref_state" where
  "ref_resize m s = (fit rsz m (fst s), m)"

interpretation ref_table: dynamic_table fst ref_insert ref_resize "\<lambda>_. True"
  by unfold_locales (simp_all only: ref_insert_def ref_resize_def fst_conv fit_prefix)

text \<open>
  One representation: the field it stands for, if any, and the next state. \<open>None\<close> is a decoding
  error: an index beyond the table, or a size above \<open>limit\<close> (\<open>SETTINGS_HEADER_TABLE_SIZE\<close>).
\<close>

definition ref_rep :: "nat \<Rightarrow> rep \<Rightarrow> ref_state \<Rightarrow> (fields \<times> ref_state) option" where
  "ref_rep limit r s =
     (case r of
        Indexed i \<Rightarrow> map_option (\<lambda>f. ([f], s)) (ref_field (fst s) i)
      | SizeUpdate m \<Rightarrow> if m \<le> limit then Some ([], ref_resize m s) else None
      | Literal md nm v \<Rightarrow>
          map_option
            (\<lambda>n. ([(n, lit_val v)], if md = Incremental then ref_insert (n, lit_val v) s else s))
            (case nm of Inl i \<Rightarrow> map_option fst (ref_field (fst s) i) | Inr l \<Rightarrow> Some (lit_val l)))"

fun ref_block :: "nat \<Rightarrow> rep list \<Rightarrow> ref_state \<Rightarrow> (fields \<times> ref_state) option" where
  "ref_block limit [] s = Some ([], s)"
| "ref_block limit (r # rs) s =
     (case ref_rep limit r s of
        None \<Rightarrow> None
      | Some (fs, s1) \<Rightarrow>
          (case ref_block limit rs s1 of
             None \<Rightarrow> None
           | Some (fs2, s2) \<Rightarrow> Some (fs @ fs2, s2)))"

definition enc_block :: "(string \<Rightarrow> bytes) \<Rightarrow> rep list \<Rightarrow> bytes" where
  "enc_block henc rs = concat (map (enc_rep henc) rs)"

section \<open>Tables that agree\<close>

text \<open>Two tables agree when they do wherever both have an entry; either may be longer.\<close>

fun agree :: "('a \<Rightarrow> 'b \<Rightarrow> bool) \<Rightarrow> 'a list \<Rightarrow> 'b list \<Rightarrow> bool" where
  "agree R (a # as) (b # bs) \<longleftrightarrow> R a b \<and> agree R as bs"
| "agree R _ _ \<longleftrightarrow> True"

lemma agree_Nil2 [simp]: "agree R as []"
  by (cases as) simp_all

lemma agree_nth: "agree R as bs \<Longrightarrow> i < length as \<Longrightarrow> i < length bs \<Longrightarrow> R (as ! i) (bs ! i)"
  by (induction R as bs arbitrary: i rule: agree.induct) (auto simp: nth_Cons split: nat.splits)

lemma agree_prefix: "agree R as bs \<Longrightarrow> prefix as' as \<Longrightarrow> prefix bs' bs \<Longrightarrow> agree R as' bs'"
proof (induction R as bs arbitrary: as' bs' rule: agree.induct)
  case (1 R a as b bs)
  then show ?case by (cases as'; cases bs') auto
qed auto

text \<open>
  An entry the decoder holds has the value the encoder's has, and its name unless the decoder
  missed it (\<open>noName\<close>).
\<close>

definition holds :: "hpackEntry \<Rightarrow> string \<times> string \<Rightarrow> bool" where
  "holds e t \<longleftrightarrow> hvalue e = snd t \<and> hname e = (if noName e then [] else fst t)"

definition holds_name :: "hpackEntry \<Rightarrow> string \<times> string \<Rightarrow> bool" where
  "holds_name e t \<longleftrightarrow> holds e t \<and> \<not> noName e"

lemma esz_le_rsz: "holds e t \<Longrightarrow> esz e \<le> rsz t"
proof -
  assume "holds e t"
  then have "length (hname e) + length (hvalue e) + 32 \<le> rsz t"
    by (auto simp: holds_def rsz_def)
  moreover have "esz e = (length (hname e) + length (hvalue e) + 32) mod 2 ^ 32"
    by (simp add: esz_def entry_size_def hpackEntryOverhead_def unat_word_ariths unat_of_nat mod_simps)
  ultimately show ?thesis
    by (metis mod_less_eq_dividend order_trans)
qed

lemma fit_length: "j \<le> length es \<Longrightarrow> sum_list (map sz (take j es)) \<le> M \<Longrightarrow> j \<le> length (fit sz M es)"
proof (induction sz M es arbitrary: j rule: fit.induct)
  case (2 sz M e es)
  show ?case
  proof (cases j)
    case (Suc i)
    with "2.prems" have "sz e \<le> M" "i \<le> length es" "sum_list (map sz (take i es)) \<le> M - sz e"
      by simp_all
    with Suc "2.IH" show ?thesis by simp
  qed simp
qed simp

lemma agree_sum:
  "agree R as bs \<Longrightarrow> (\<And>a b. R a b \<Longrightarrow> f a \<le> g b) \<Longrightarrow> j \<le> length as \<Longrightarrow> j \<le> length bs \<Longrightarrow>
     sum_list (map f (take j as)) \<le> (sum_list (map g (take j bs)) :: nat)"
proof (induction R as bs arbitrary: j rule: agree.induct)
  case (1 R a as b bs)
  then show ?case by (cases j) (auto intro: add_mono)
qed auto

text \<open>The decoder's entries take no more room than the encoder's, so it keeps at least as many.\<close>

lemma agree_fit_length:
  assumes "agree R D T" "\<And>e t. R e t \<Longrightarrow> esz e \<le> rsz t" "M \<le> N" "j \<le> length D"
    "j \<le> length (fit rsz M T)"
  shows "j \<le> length (fit esz N D)"
proof (rule fit_length [OF assms(4)])
  obtain zs where zs: "T = fit rsz M T @ zs"
    using fit_prefix [of rsz M T] by (auto simp: prefix_def)
  then have jT: "j \<le> length T" using assms(5)
    by (metis le_add1 le_trans length_append)
  have "sum_list (map esz (take j D)) \<le> sum_list (map rsz (take j T))"
    by (rule agree_sum [OF assms(1,2,4) jT])
  also have "take j T = take j (fit rsz M T)"
    using zs assms(5) by (metis append_Nil2 diff_is_0_eq' take_0 take_append)
  also have "sum_list (map rsz (take j (fit rsz M T))) \<le> sum_list (map rsz (fit rsz M T))"
    by (metis append_take_drop_id le_add1 map_append sum_list_append)
  also have "\<dots> \<le> M" by (rule fit_sum)
  finally show "sum_list (map esz (take j D)) \<le> N" using assms(3) by simp
qed

section \<open>One representation on both tables\<close>

lemma known_agree:
  assumes "agree holds D T" "ref_field T i = Some t"
  shows "known D i = None \<or> known D i = Some t"
proof (cases "i \<le> 61")
  case True
  with assms(2) show ?thesis
    by (auto simp: ref_field_def known_def lookup_field_def split: if_splits prod.splits)
next
  case False
  with assms(2) have t: "i - 62 < length T" "t = T ! (i - 62)"
    by (auto simp: ref_field_def split: if_splits)
  with assms(1) False show ?thesis
    using agree_nth [OF assms(1), of "i - 62"]
    by (auto simp: known_def lookup_field_def holds_def split: if_splits)
qed

lemma known_exact:
  assumes "agree holds_name D T" "length T \<le> length D" "ref_field T i = Some t"
  shows "known D i = Some t"
proof (cases "i \<le> 61")
  case True
  with assms(3) show ?thesis
    by (auto simp: ref_field_def known_def lookup_field_def split: if_splits prod.splits)
next
  case False
  with assms(3) have t: "i - 62 < length T" "t = T ! (i - 62)"
    by (auto simp: ref_field_def split: if_splits)
  with assms(1,2) False show ?thesis
    using agree_nth [OF assms(1), of "i - 62"]
    by (auto simp: known_def lookup_field_def holds_def holds_name_def split: if_splits)
qed

lemma agree_insert:
  "agree R D T \<Longrightarrow> R e t \<Longrightarrow> agree R (fit sz N (e # D)) (fit sz' M (t # T))"
  by (rule agree_prefix [OF _ fit_prefix fit_prefix]) simp

lemma agree_resize: "agree R D T \<Longrightarrow> agree R (fit sz N D) (fit sz' M T)"
  by (rule agree_prefix [OF _ fit_prefix fit_prefix])

text \<open>A literal on both tables: the entry the decoder makes of it and the field it stands for.\<close>

lemma literal_both:
  assumes "agree holds D T" "ref_rep limit (Literal md nm v) (T, M) = Some (fs, T', M')"
    and "tol_rep (Literal md nm v) D N = ((em, u), D', N')"
  obtains e t where "holds e t" "fs = [t]" "em = [] \<and> u = 1 \<or> em = [t] \<and> u = 0"
    "M' = M" "N' = N" "T' = (if md = Incremental then fit rsz M (t # T) else T)"
    "D' = (if md = Incremental then fit esz N (e # D) else D)"
    "agree holds_name D T \<Longrightarrow> length T \<le> length D \<Longrightarrow> holds_name e t \<and> em = [t] \<and> u = 0"
proof -
  define name where
    "name = (case nm of Inl i \<Rightarrow> map_option fst (known D i) | Inr s \<Rightarrow> Some (lit_val s))"
  define e where "e = mk_entry (case name of None \<Rightarrow> [] | Some n \<Rightarrow> n) (lit_val v) (name = None)"
  from assms(2) obtain n where n: "fs = [(n, lit_val v)]"
      "(T', M') = (if md = Incremental then ref_insert (n, lit_val v) (T, M) else (T, M))"
      "(case nm of Inl i \<Rightarrow> map_option fst (ref_field T i) | Inr l \<Rightarrow> Some (lit_val l)) = Some n"
    unfolding ref_rep_def rep.case fst_conv by (auto simp del: split_paired_Ex)
  have D': "D' = (if md = Incremental then fit esz N (e # D) else D)" "N' = N"
    "(em, u) = (case name of Some n \<Rightarrow> ([(n, lit_val v)], 0) | None \<Rightarrow> ([], 1))"
    using assms(3) unfolding tol_rep_def rep.case Let_def name_def [symmetric] e_def [symmetric]
    by simp_all
  have T': "T' = (if md = Incremental then fit rsz M ((n, lit_val v) # T) else T)" "M' = M"
    using n(2) by (auto simp: ref_insert_def split: if_splits)
  have nm: "name = None \<or> name = Some n"
  proof (cases nm)
    case (Inl i)
    with n(3) obtain w where "ref_field T i = Some (n, w)" by auto
    from known_agree [OF assms(1) this] Inl show ?thesis by (auto simp: name_def)
  next
    case (Inr l)
    with n(3) show ?thesis by (simp add: name_def)
  qed
  have exact: "name = Some n" if "agree holds_name D T" "length T \<le> length D"
  proof (cases nm)
    case (Inl i)
    with n(3) obtain w where "ref_field T i = Some (n, w)" by auto
    from known_exact [OF that this] Inl show ?thesis by (simp add: name_def)
  next
    case (Inr l)
    with n(3) show ?thesis by (simp add: name_def)
  qed
  show thesis
  proof (rule that [of e "(n, lit_val v)"])
    show "holds e (n, lit_val v)"
      using nm by (auto simp: e_def holds_def)
    show "em = [] \<and> u = 1 \<or> em = [(n, lit_val v)] \<and> u = 0"
      using nm D'(3) by auto
    show "holds_name e (n, lit_val v) \<and> em = [(n, lit_val v)] \<and> u = 0"
      if "agree holds_name D T" "length T \<le> length D"
      using exact [OF that] D'(3) by (auto simp: e_def holds_def holds_name_def)
  qed (use n(1) T' D' in simp_all)
qed

lemma size_both:
  assumes "ref_rep limit (SizeUpdate m) (T, M) = Some (fs, T', M')"
    and "tol_rep (SizeUpdate m) D N = ((em, u), D', N')"
  shows "fs = []" "em = []" "u = 0" "T' = fit rsz m T" "M' = m" "m \<le> limit"
    "D' = fit esz (min m hpackMaxTableSize) D" "N' = min m hpackMaxTableSize"
  using assms by (auto simp: ref_rep_def tol_rep_def ref_resize_def split: if_splits)

lemma indexed_both:
  assumes "ref_rep limit (Indexed i) (T, M) = Some (fs, T', M')"
    and "tol_rep (Indexed i) D N = ((em, u), D', N')"
  obtains t where "fs = [t]" "ref_field T i = Some t" "T' = T" "M' = M" "D' = D" "N' = N"
    "(em, u) = (case known D i of Some nv \<Rightarrow> ([nv], 0) | None \<Rightarrow> ([], 1))"
  using assms unfolding ref_rep_def tol_rep_def
  by (auto simp del: split_paired_Ex split_paired_All)

lemma tol_agree:
  assumes "agree holds D T" "ref_rep limit r (T, M) = Some (fs, T', M')"
    and "tol_rep r D N = ((em, u), D', N')"
  shows "agree holds D' T' \<and> subseq em fs \<and> length em + u = length fs"
proof (cases r)
  case (Indexed i)
  then obtain t where "fs = [t]" "ref_field T i = Some t" "T' = T" "D' = D"
      "(em, u) = (case known D i of Some nv \<Rightarrow> ([nv], 0) | None \<Rightarrow> ([], 1))"
    using indexed_both assms(2,3) by metis
  moreover from this have "known D i = None \<or> known D i = Some t"
    using known_agree [OF assms(1), of i t] by simp
  ultimately show ?thesis using assms(1) by auto
next
  case (SizeUpdate m)
  with assms(1) size_both [of limit m T M fs T' M' D N em u D' N'] assms(2,3) show ?thesis
    by (simp add: agree_resize)
next
  case (Literal md nm v)
  with literal_both [OF assms(1)] assms(2,3) obtain e t where "holds e t" "fs = [t]"
      "em = [] \<and> u = 1 \<or> em = [t] \<and> u = 0"
      "T' = (if md = Incremental then fit rsz M (t # T) else T)"
      "D' = (if md = Incremental then fit esz N (e # D) else D)"
    by metis
  with assms(1) agree_insert [OF assms(1)] show ?thesis
    by (auto simp del: fit.simps)
qed

definition insertions :: "rep \<Rightarrow> nat" where
  "insertions r = (case r of Literal md _ _ \<Rightarrow> (if md = Incremental then 1 else 0) | _ \<Rightarrow> 0)"

lemma ref_length: "ref_rep limit r (T, M) = Some (fs, T', M') \<Longrightarrow> length T' \<le> length T + insertions r"
  using prefix_length_le [OF fit_prefix, of rsz] 
  by (cases r) (auto simp: ref_rep_def insertions_def ref_insert_def ref_resize_def split: if_splits
      intro: le_trans)

lemma tol_cover:
  assumes "agree holds D T" "ref_rep limit r (T, M) = Some (fs, T', M')"
    and "tol_rep r D N = ((em, u), D', N')"
    and "limit \<le> hpackMaxTableSize" "M \<le> N" "min k (length T) \<le> length D"
  shows "M' \<le> N' \<and> min (k + insertions r) (length T') \<le> length D'"
proof (cases r)
  case (Indexed i)
  then obtain t where "T' = T" "M' = M" "D' = D" "N' = N"
    using indexed_both assms(2,3) by metis
  with assms Indexed show ?thesis by (simp add: insertions_def)
next
  case (SizeUpdate m)
  with size_both [of limit m T M fs T' M' D N em u D' N'] assms(2-4)
  have T': "T' = fit rsz m T" "M' = m" "D' = fit esz m D" "N' = m"
    by (simp_all add: min_def)
  have "length T' \<le> length T"
    using ref_length [OF assms(2)] SizeUpdate by (simp add: insertions_def)
  then have "min k (length T') \<le> length (fit esz m D)"
    using assms(6) T'
    by (intro agree_fit_length [OF assms(1) esz_le_rsz, of m m]) auto
  with T' SizeUpdate show ?thesis by (simp add: insertions_def)
next
  case (Literal md nm v)
  with literal_both [OF assms(1)] assms(2,3) obtain e t where b: "holds e t" "M' = M" "N' = N"
      "T' = (if md = Incremental then fit rsz M (t # T) else T)"
      "D' = (if md = Incremental then fit esz N (e # D) else D)"
    by metis
  show ?thesis
  proof (cases "md = Incremental")
    case True
    have "length T' \<le> length T + 1"
      using ref_length [OF assms(2)] Literal True by (simp add: insertions_def)
    then have "min (k + 1) (length T') \<le> length (fit esz N (e # D))"
      using assms(1,5,6) b(1,4) True
      by (intro agree_fit_length [of holds "e # D" "t # T" M N, OF _ esz_le_rsz]) auto
    with b True Literal assms(5) show ?thesis by (simp add: insertions_def del: fit.simps)
  next
    case False
    with b assms Literal show ?thesis by (simp add: insertions_def)
  qed
qed

lemma agree_holds_name: "agree holds_name D T \<Longrightarrow> agree holds D T"
  by (induction holds_name D T rule: agree.induct) (auto simp: holds_name_def)

lemma tol_exact:
  assumes "agree holds_name D T" "ref_rep limit r (T, M) = Some (fs, T', M')"
    and "tol_rep r D N = ((em, u), D', N')"
    and "limit \<le> hpackMaxTableSize" "M \<le> N" "length T \<le> length D"
  shows "em = fs \<and> u = 0 \<and> agree holds_name D' T' \<and> length T' \<le> length D' \<and> M' \<le> N'"
proof -
  note a = agree_holds_name [OF assms(1)]
  have "M' \<le> N'" "length T' \<le> length D'"
    using tol_cover [OF a assms(2-5), of "length T"] ref_length [OF assms(2)] assms(6) by auto
  moreover have "em = fs \<and> u = 0 \<and> agree holds_name D' T'"
  proof (cases r)
    case (Indexed i)
    then obtain t where "fs = [t]" "ref_field T i = Some t" "T' = T" "D' = D"
        "(em, u) = (case known D i of Some nv \<Rightarrow> ([nv], 0) | None \<Rightarrow> ([], 1))"
      using indexed_both assms(2,3) by metis
    with known_exact [OF assms(1,6), of i t] assms(1) show ?thesis by simp
  next
    case (SizeUpdate m)
    with assms(1) size_both [of limit m T M fs T' M' D N em u D' N'] assms(2,3) show ?thesis
      by (simp add: agree_resize)
  next
    case (Literal md nm v)
    with literal_both [OF a] assms(1,2,3,6) obtain e t where "fs = [t]"
        "holds_name e t \<and> em = [t] \<and> u = 0"
        "T' = (if md = Incremental then fit rsz M (t # T) else T)"
        "D' = (if md = Incremental then fit esz N (e # D) else D)"
      by metis
    with assms(1) agree_insert [OF assms(1)] show ?thesis
      by (auto simp del: fit.simps)
  qed
  ultimately show ?thesis by simp
qed

section \<open>Whole blocks\<close>

lemma enc_rep_not_Nil: "enc_rep henc r \<noteq> []"
  by (cases r) (auto simp: enc_rep_def enc_int_def split: prod.splits sum.splits)

lemma decode_enc_Cons:
  assumes "decode_round huff d (enc_rep henc r @ enc_block henc rs) = Some (Inr (d1, enc_block henc rs, em, u))"
  shows "decode huff d (enc_block henc (r # rs)) =
    (case decode huff d1 (enc_block henc rs) of
       None \<Rightarrow> None | Some (d2, em2, u2, err) \<Rightarrow> Some (d2, em @ em2, u + u2, err))"
  using assms enc_rep_not_Nil [of henc r] by (subst decode.simps) (simp add: enc_block_def)

lemma decode_Nil [simp]: "decode huff d [] = Some (d, [], 0, None)"
  by (subst decode.simps) simp

end
