(* ===== verification/Hpack_Correct.thy ===== *)
theory Hpack_Correct
  imports Hpack_Sim
begin

text \<open>
  The properties of the HPACK decoder over whole blocks and over the sequence of blocks of one
  direction of a connection: it is total on any bytes, it never invents a header after a late join,
  its table catches up with the encoder's, and with the full history it is exact.
\<close>

unbundle bit_operations_syntax

section \<open>Totality\<close>

lemma known_field_total [panic_free]:
  "ring_inv d \<Longrightarrow> idx \<noteq> 0 \<Longrightarrow> \<exists>r. known_field d idx = Some r"
  unfolding known_field_def by (simp add: field_lookup ring_inv_def)

definition keeps :: "round option \<Rightarrow> bool" where
  "keeps r \<longleftrightarrow> (\<exists>x. r = Some x \<and> (\<forall>d' rest fs u. x = Inr (d', rest, fs, u) \<longrightarrow> ring_inv d'))"

lemma indexed_keeps:
  assumes "ring_inv d"
  shows "keeps (decode_indexed d block)"
proof (cases "hpackInt 7 block")
  case (Inr p)
  obtain idx b where p: "p = (idx, b)" by (cases p)
  show ?thesis
    using known_field_total [OF assms, of idx] assms Inr p
    by (auto simp: keeps_def decode_indexed_def split: option.splits)
qed (simp add: keeps_def decode_indexed_def)

lemma size_update_keeps:
  assumes "ring_inv d"
  shows "keeps (decode_size_update d block)"
proof (cases "hpackInt 5 block")
  case (Inr p)
  obtain sz b where p: "p = (sz, b)" by (cases p)
  from size_update_fit [OF assms, of "min (unat sz) hpackMaxTableSize"] Inr p show ?thesis
    by (fastforce simp: keeps_def decode_size_update_def)
qed (simp add: keeps_def decode_size_update_def)

lemma literal_name_total: "ring_inv d \<Longrightarrow> \<exists>r. literal_name huff d idx b = Some r"
  using known_field_total [of d idx] by (auto simp: literal_name_def)

lemma literal_keeps:
  assumes "ring_inv d"
  shows "keeps (decode_literal huff d block)"
proof (cases "hpackInt (if hd block AND 0xc0 = 0x40 then 6 else 4) block")
  case (Inr p)
  obtain idx b1 where p: "p = (idx, b1)" by (cases p)
  obtain nm where nm: "literal_name huff d idx b1 = Some nm"
    using literal_name_total [OF assms] by blast
  show ?thesis
  proof (cases nm)
    case (Inl e)
    with Inr p nm show ?thesis by (simp add: keeps_def decode_literal_def Let_def)
  next
    case r: (Inr q)
    obtain name b2 where q: "q = (name, b2)" by (cases q)
    show ?thesis
    proof (cases "hpackString huff b2")
      case (Inl e)
      with Inr p nm r q show ?thesis by (simp add: keeps_def decode_literal_def Let_def)
    next
      case v: (Inr w)
      obtain val b3 where w: "w = (val, b3)" by (cases w)
      obtain d' where "ring_inv d'"
          "insert_entry (mk_entry (case name of None \<Rightarrow> [] | Some n \<Rightarrow> n) val (name = None)) d = Some d'"
        using insert_entry_fit [OF assms] by blast
      with assms Inr p nm r q v w show ?thesis
        by (cases name) (simp_all add: keeps_def decode_literal_def Let_def)
    qed
  qed
qed (simp add: keeps_def decode_literal_def Let_def)

lemma round_total [panic_free]: "ring_inv d \<Longrightarrow> keeps (decode_round huff d block)"
  unfolding decode_round_def Let_def
  by (simp add: indexed_keeps size_update_keeps literal_keeps)

lemma decode_safe [panic_free, keeps_inv]:
  "ring_inv d \<Longrightarrow> \<exists>d' fs u err. decode huff d block = Some (d', fs, u, err) \<and> ring_inv d'"
proof (induction huff d block rule: decode.induct)
  case (1 huff d block)
  show ?case
  proof (cases "block = []")
    case False
    from round_total [OF "1.prems", of huff block] obtain r where
      r: "decode_round huff d block = Some r" and
      inv: "\<And>d' rest fs u. r = Inr (d', rest, fs, u) \<Longrightarrow> ring_inv d'" unfolding keeps_def by blast
    show ?thesis
    proof (cases r)
      case (Inl e)
      with False r "1.prems" show ?thesis by (subst decode.simps) simp
    next
      case (Inr p)
      obtain d1 rest fs u where p: "p = (d1, rest, fs, u)" by (cases p)
      with inv Inr have "ring_inv d1" by blast
      with "1.IH" [OF False r Inr p [symmetric] refl refl] obtain d2 fs2 u2 err where
        "decode huff d1 rest = Some (d2, fs2, u2, err)" "ring_inv d2" by blast
      with False r Inr p show ?thesis by (subst decode.simps) simp
    qed
  qed (use "1.prems" in simp)
qed

section \<open>Relations a representation keeps\<close>

text \<open>
  A relation between the known entries and the encoder's table that one representation keeps is
  kept by a block and by a sequence of blocks. The relation may count the insertions seen so far
  (\<open>k\<close>); \<open>Q\<close> relates what is emitted, and the number of unknown fields, to what was sent.
\<close>

definition block_insertions :: "rep list \<Rightarrow> nat" where
  "block_insertions rs = sum_list (map insertions rs)"

fun decode_blocks ::
  "(bytes \<Rightarrow> string option) \<Rightarrow> hpackDecoder \<Rightarrow> bytes list
     \<Rightarrow> (hpackDecoder \<times> (fields \<times> nat \<times> hpackErr option) list) option" where
  "decode_blocks huff d [] = Some (d, [])"
| "decode_blocks huff d (b # bs) =
     (case decode huff d b of
        None \<Rightarrow> None
      | Some (d1, em, u, err) \<Rightarrow>
          (case decode_blocks huff d1 bs of
             None \<Rightarrow> None
           | Some (d2, outs) \<Rightarrow> Some (d2, (em, u, err) # outs)))"

fun ref_blocks :: "nat \<Rightarrow> rep list list \<Rightarrow> ref_state \<Rightarrow> (fields list \<times> ref_state) option" where
  "ref_blocks limit [] s = Some ([], s)"
| "ref_blocks limit (rs # rss) s =
     (case ref_block limit rs s of
        None \<Rightarrow> None
      | Some (fs, s1) \<Rightarrow>
          (case ref_blocks limit rss s1 of
             None \<Rightarrow> None
           | Some (fss, s2) \<Rightarrow> Some (fs # fss, s2)))"

locale table_relation =
  fixes Rel :: "nat \<Rightarrow> hpackEntry list \<Rightarrow> nat \<Rightarrow> ref_state \<Rightarrow> bool"
    and Q :: "fields \<Rightarrow> nat \<Rightarrow> fields \<Rightarrow> bool"
    and limit :: nat
  assumes Rel_step: "Rel k D N s \<Longrightarrow> ref_rep limit r s = Some (fs, s') \<Longrightarrow>
      tol_rep r D N = ((em, u), D', N') \<Longrightarrow> Rel (k + insertions r) D' N' s' \<and> Q em u fs"
    and Q_Nil: "Q [] 0 []"
    and Q_append: "Q em u fs \<Longrightarrow> Q em2 u2 fs2 \<Longrightarrow> Q (em @ em2) (u + u2) (fs @ fs2)"
begin

lemma block:
  assumes inverse: "\<And>s. huff (henc s) = Some s"
  shows "ring_inv d \<Longrightarrow> list_all (rep_ok henc) rs \<Longrightarrow> Rel k (table d) (unat (maxSize d)) s \<Longrightarrow>
    ref_block limit rs s = Some (fs, s') \<Longrightarrow>
    \<exists>d' em u. decode huff d (enc_block henc rs) = Some (d', em, u, None) \<and> ring_inv d' \<and>
      Rel (k + block_insertions rs) (table d') (unat (maxSize d')) s' \<and> Q em u fs"
proof (induction rs arbitrary: d s fs k)
  case Nil
  then show ?case by (simp add: enc_block_def Q_Nil block_insertions_def)
next
  case (Cons r rs)
  from Cons.prems(4) obtain fs1 s1 fs2 where
    r: "ref_rep limit r s = Some (fs1, s1)" and rs: "ref_block limit rs s1 = Some (fs2, s')" and
    fs: "fs = fs1 @ fs2"
    by (auto split: option.splits prod.splits simp del: split_paired_Ex)
  obtain d1 em1 u1 where
    d1: "decode_round huff d (enc_rep henc r @ enc_block henc rs) = Some (Inr (d1, enc_block henc rs, em1, u1))"
      "ring_inv d1"
      "tol_rep r (table d) (unat (maxSize d)) = ((em1, u1), table d1, unat (maxSize d1))"
    using round_tol [OF Cons.prems(1) inverse, of r] Cons.prems(2) by force
  from Rel_step [OF Cons.prems(3) r d1(3)] have
    rel: "Rel (k + insertions r) (table d1) (unat (maxSize d1)) s1" and q1: "Q em1 u1 fs1"
    by simp_all
  from Cons.IH [OF d1(2) _ rel rs] Cons.prems(2) obtain d' em2 u2 where
    "decode huff d1 (enc_block henc rs) = Some (d', em2, u2, None)" "ring_inv d'"
    "Rel (k + insertions r + block_insertions rs) (table d') (unat (maxSize d')) s'" "Q em2 u2 fs2"
    by auto
  with decode_enc_Cons [OF d1(1)] fs Q_append [OF q1] show ?case
    by (auto simp: block_insertions_def add.assoc)
qed

lemma blocks:
  assumes inverse: "\<And>s. huff (henc s) = Some s"
  shows "ring_inv d \<Longrightarrow> list_all (list_all (rep_ok henc)) rss \<Longrightarrow>
    Rel k (table d) (unat (maxSize d)) s \<Longrightarrow> ref_blocks limit rss s = Some (fss, s') \<Longrightarrow>
    \<exists>d' outs. decode_blocks huff d (map (enc_block henc) rss) = Some (d', outs) \<and> ring_inv d' \<and>
      Rel (k + sum_list (map block_insertions rss)) (table d') (unat (maxSize d')) s' \<and>
      list_all2 (\<lambda>(em, u, err) fs. err = None \<and> Q em u fs) outs fss"
proof (induction rss arbitrary: d s fss k)
  case Nil
  then show ?case by simp
next
  case (Cons rs rss)
  from Cons.prems(4) obtain fs s1 fss2 where
    rs: "ref_block limit rs s = Some (fs, s1)" and rss: "ref_blocks limit rss s1 = Some (fss2, s')" and
    fss: "fss = fs # fss2"
    by (auto split: option.splits prod.splits simp del: split_paired_Ex)
  from block [OF inverse Cons.prems(1) _ Cons.prems(3) rs] Cons.prems(2) obtain d1 em u where
    d1: "decode huff d (enc_block henc rs) = Some (d1, em, u, None)" "ring_inv d1"
      "Rel (k + block_insertions rs) (table d1) (unat (maxSize d1)) s1" "Q em u fs"
    by auto
  from Cons.IH [OF d1(2) _ d1(3) rss] Cons.prems(2) obtain d' outs where
    "decode_blocks huff d1 (map (enc_block henc) rss) = Some (d', outs)" "ring_inv d'"
    "Rel (k + block_insertions rs + sum_list (map block_insertions rss)) (table d') (unat (maxSize d')) s'"
    "list_all2 (\<lambda>(em, u, err) fs. err = None \<and> Q em u fs) outs fss2"
    by auto
  with d1 fss show ?case by (simp add: add.assoc)
qed

end

text \<open>The three relations: agreement, agreement on the newest \<open>k\<close> entries, full agreement.\<close>

definition agreed :: "nat \<Rightarrow> hpackEntry list \<Rightarrow> nat \<Rightarrow> ref_state \<Rightarrow> bool" where
  "agreed k D N s \<longleftrightarrow> agree holds D (fst s)"

definition covered :: "nat \<Rightarrow> nat \<Rightarrow> hpackEntry list \<Rightarrow> nat \<Rightarrow> ref_state \<Rightarrow> bool" where
  "covered limit k D N s \<longleftrightarrow> agree holds D (fst s) \<and> limit \<le> hpackMaxTableSize \<and> snd s \<le> N \<and>
     min k (length (fst s)) \<le> length D"

definition mirrored :: "nat \<Rightarrow> nat \<Rightarrow> hpackEntry list \<Rightarrow> nat \<Rightarrow> ref_state \<Rightarrow> bool" where
  "mirrored limit k D N s \<longleftrightarrow> agree holds_name D (fst s) \<and> limit \<le> hpackMaxTableSize \<and> snd s \<le> N \<and>
     length (fst s) \<le> length D"

definition partial_fields :: "fields \<Rightarrow> nat \<Rightarrow> fields \<Rightarrow> bool" where
  "partial_fields em u fs \<longleftrightarrow> subseq em fs \<and> length em + u = length fs"

lemma partial_Nil: "partial_fields [] 0 []"
  by (simp add: partial_fields_def)

lemma partial_append:
  "partial_fields em u fs \<Longrightarrow> partial_fields em2 u2 fs2 \<Longrightarrow>
     partial_fields (em @ em2) (u + u2) (fs @ fs2)"
  by (auto simp: partial_fields_def intro: list_emb_append_mono)

interpretation late_join: table_relation agreed partial_fields limit for limit
proof (unfold_locales, goal_cases)
  case (1 k D N s r fs s' em u D' N')
  then show ?case
    using tol_agree [of D "fst s" limit r "snd s" fs "fst s'" "snd s'" N em u D' N']
    by (simp add: agreed_def partial_fields_def)
qed (simp_all add: partial_append partial_Nil)

interpretation catch_up: table_relation "covered limit" partial_fields limit for limit
proof (unfold_locales, goal_cases)
  case (1 k D N s r fs s' em u D' N')
  then show ?case
    using tol_agree [of D "fst s" limit r "snd s" fs "fst s'" "snd s'" N em u D' N']
      tol_cover [of D "fst s" limit r "snd s" fs "fst s'" "snd s'" N em u D' N' k]
    by (simp add: covered_def partial_fields_def)
qed (simp_all add: partial_append partial_Nil)

interpretation full_history: table_relation "mirrored limit" "\<lambda>em u fs. em = fs \<and> u = 0" limit for limit
proof (unfold_locales, goal_cases)
  case (1 k D N s r fs s' em u D' N')
  then show ?case
    using tol_exact [of D "fst s" limit r "snd s" fs "fst s'" "snd s'" N em u D' N']
    by (simp add: mirrored_def)
qed simp_all

section \<open>A decoder in use\<close>

text \<open>What the parser does with a decoder: decode a block, or forget the table.\<close>

datatype hpack_op = Block bytes | Reset

fun hpack_step :: "(bytes \<Rightarrow> string option) \<Rightarrow> hpack_op \<Rightarrow> hpackDecoder \<Rightarrow> hpackDecoder option" where
  "hpack_step huff (Block b) d = map_option fst (decode huff d b)"
| "hpack_step huff Reset d = Some (reset d)"

interpretation decoder_in_use: safe_component "hpack_step huff" ring_inv for huff
proof
  fix d and e :: hpack_op
  assume d: "ring_inv d"
  show "\<exists>d'. hpack_step huff e d = Some d' \<and> ring_inv d'"
  proof (cases e)
    case (Block b)
    with decode_safe [OF d, of huff b] show ?thesis by auto
  next
    case Reset
    with d reset_inv show ?thesis by (simp add: ring_inv_def [of d])
  qed
qed

lemma reset_sel: "unat (maxSize (reset d)) = 4096"
  by (simp add: reset_def empty_table_def hpackDefaultTableSize_def)

lemma reset_agrees: "ring_inv d \<Longrightarrow> ring_inv (reset d) \<and> table (reset d) = []"
  using reset_inv [of d] by (simp add: ring_inv_def [of d])

lemma new_is_reset: "newHpackDecoder = reset newHpackDecoder"
  by (simp add: newHpackDecoder_def reset_def empty_table_def)

lemmas ref_eval = ref_rep_def ref_insert_def ref_resize_def ref_field_def rsz_def hpackStaticTable_def

section \<open>Properties\<close>

text \<open>
  C4. A decoder that forgets its table, or starts with an empty one, in the middle of a
  connection, when the encoder's table is any \<open>T\<close>, and from then on sees every block, decodes every
  valid block without an error and reports no header that was not sent: what it emits for a block
  is a subsequence of the block's fields, and \<open>unknown\<close> counts exactly those missing. \<open>huff\<close> is the
  Huffman decoder of \<open>golang.org/x/net\<close>, assumed to invert the code \<open>henc\<close>.
\<close>

theorem hpack_late_join_sound:
  assumes "\<And>s. huff (henc s) = Some s" and "ring_inv d"
    and "list_all (list_all (rep_ok henc)) rss"
    and "ref_blocks limit rss (T, M) = Some (fss, s')"
  shows "\<exists>d' outs. decode_blocks huff (reset d) (map (enc_block henc) rss) = Some (d', outs) \<and>
    list_all2 (\<lambda>(em, u, err) fs. err = None \<and> subseq em fs \<and> length em + u = length fs) outs fss"
  using late_join.blocks [OF assms(1) _ assms(3) _ assms(4), of "reset d" 0] reset_agrees [OF assms(2)]
  by (auto simp: agreed_def partial_fields_def)

theorem hpack_late_join_sound_witness:
  "\<exists>d' outs. decode_blocks (\<lambda>b. Some (gostr b)) (reset newHpackDecoder)
      (map (enc_block bytes_of)
        [[Indexed 62, Literal Incremental (Inl 62) (Raw ''v'')], [Indexed 62, Indexed 2]]) = Some (d', outs) \<and>
    list_all2 (\<lambda>(em, u, err) fs. err = None \<and> subseq em fs \<and> length em + u = length fs) outs
      [[(''x'', ''y''), (''x'', ''v'')], [(''x'', ''v''), ('':method'', ''GET'')]]"
proof (rule hpack_late_join_sound [where limit = 4096 and T = "[(''x'', ''y'')]" and M = 4096])
  show "ref_blocks 4096 [[Indexed 62, Literal Incremental (Inl 62) (Raw ''v'')], [Indexed 62, Indexed 2]]
      ([(''x'', ''y'')], 4096)
    = Some ([[(''x'', ''y''), (''x'', ''v'')], [(''x'', ''v''), ('':method'', ''GET'')]],
        [(''x'', ''v''), (''x'', ''y'')], 4096)"
    by (simp add: ref_eval)
qed (simp_all add: rep_ok_def str_ok_def new_inv)

text \<open>
  C7. Catching up: when the encoder's table is limited to 4096 at the join and to at most 64 KiB
  later, then after \<open>k\<close> insertions the decoder holds the \<open>k\<close> newest entries of the encoder's table
  (all of them, once the older ones are evicted), each at the encoder's index, with its value, and
  with its name unless it is marked \<open>noName\<close>.
\<close>

theorem hpack_catches_up:
  assumes "\<And>s. huff (henc s) = Some s" and "ring_inv d"
    and "list_all (list_all (rep_ok henc)) rss"
    and "ref_blocks limit rss (T, M) = Some (fss, T', M')"
    and "M \<le> 4096" and "limit \<le> 65536"
    and "k = sum_list (map block_insertions rss)"
    and "i < k" and "i < length T'"
  shows "\<exists>d' outs. decode_blocks huff (reset d) (map (enc_block henc) rss) = Some (d', outs) \<and>
    i < nent d' \<and> holds (table d' ! i) (T' ! i)"
proof -
  have "covered limit 0 (table (reset d)) (unat (maxSize (reset d))) (T, M)"
    using assms(5,6) reset_agrees [OF assms(2)]
    by (simp add: covered_def reset_sel hpackMaxTableSize_def)
  from catch_up.blocks [OF assms(1) _ assms(3) this assms(4)] reset_agrees [OF assms(2)]
  obtain d' outs where d': "decode_blocks huff (reset d) (map (enc_block henc) rss) = Some (d', outs)"
    and c: "covered limit k (table d') (unat (maxSize d')) (T', M')"
    using assms(7) by auto
  from c assms(8,9) have "i < length (table d')" "agree holds (table d') T'"
    by (auto simp: covered_def)
  with d' agree_nth [of holds "table d'" T' i] assms(9) show ?thesis by auto
qed

theorem hpack_catches_up_witness:
  "\<exists>d' outs. decode_blocks (\<lambda>b. Some (gostr b)) (reset newHpackDecoder)
      (map (enc_block bytes_of) [[Literal Incremental (Inl 62) (Raw ''v'')], [Indexed 62]]) = Some (d', outs) \<and>
    0 < nent d' \<and> holds (table d' ! 0) ([(''x'', ''v''), (''x'', ''y'')] ! 0)"
proof (rule hpack_catches_up [where limit = 4096 and T = "[(''x'', ''y'')]" and M = 4096 and k = 1])
  show "ref_blocks 4096 [[Literal Incremental (Inl 62) (Raw ''v'')], [Indexed 62]] ([(''x'', ''y'')], 4096)
    = Some ([[(''x'', ''v'')], [(''x'', ''v'')]], [(''x'', ''v''), (''x'', ''y'')], 4096)"
    by (simp add: ref_eval)
qed (simp_all add: rep_ok_def str_ok_def new_inv block_insertions_def insertions_def)

text \<open>
  C6. On a connection seen from its start, with table sizes up to 64 KiB, every block decodes to
  exactly the fields that were sent, in order, none unknown: the decoder is equivalent to the
  reference semantics of RFC 7541.
\<close>

theorem hpack_full_history_exact:
  assumes "\<And>s. huff (henc s) = Some s"
    and "list_all (list_all (rep_ok henc)) rss"
    and "ref_blocks limit rss ([], 4096) = Some (fss, s')"
    and "limit \<le> 65536"
  shows "\<exists>d'. decode_blocks huff newHpackDecoder (map (enc_block henc) rss)
    = Some (d', map (\<lambda>fs. (fs, 0, None)) fss)"
proof -
  have "mirrored limit 0 (table newHpackDecoder) (unat (maxSize newHpackDecoder)) ([], 4096)"
    using assms(4) by (simp add: mirrored_def hpackMaxTableSize_def newHpackDecoder_def hpackDefaultTableSize_def)
  from full_history.blocks [OF assms(1) _ assms(2) this assms(3)] new_inv
  obtain d' outs where d': "decode_blocks huff newHpackDecoder (map (enc_block henc) rss) = Some (d', outs)"
    and o: "list_all2 (\<lambda>(em, u, err) fs. err = None \<and> em = fs \<and> u = 0) outs fss"
    by auto
  from o have "outs = map (\<lambda>fs. (fs, 0, None)) fss"
    by (induction outs fss rule: list_all2_induct) auto
  with d' show ?thesis by simp
qed

theorem hpack_full_history_exact_witness:
  "\<exists>d'. decode_blocks (\<lambda>b. Some (gostr b)) newHpackDecoder
      (map (enc_block bytes_of)
        [[SizeUpdate 8192, Literal Incremental (Inr (Huffman ''x'')) (Raw ''v'')], [Indexed 62]])
    = Some (d', map (\<lambda>fs. (fs, 0, None)) [[(''x'', ''v'')], [(''x'', ''v'')]])"
proof (rule hpack_full_history_exact [where limit = 65536])
  show "ref_blocks 65536 [[SizeUpdate 8192, Literal Incremental (Inr (Huffman ''x'')) (Raw ''v'')], [Indexed 62]]
      ([], 4096) = Some ([[(''x'', ''v'')], [(''x'', ''v'')]], [(''x'', ''v'')], 8192)"
    by (simp add: ref_eval)
qed (simp_all add: rep_ok_def str_ok_def)

text \<open>
  C8. Whatever bytes the blocks hold, and wherever the parser resets the decoder in between, no
  call panics (no index of the ring or of the static table out of range, no division by an empty
  ring), and the table keeps its invariant: the size counter is the sum of the sizes of the entries
  and stays within \<open>maxSize\<close>, itself at most 64 KiB.
\<close>

theorem hpack_never_panics:
  "\<exists>d. run (hpack_step huff) ops newHpackDecoder = Some d \<and> ring_inv d \<and>
     sum_list (map esz (table d)) = unat (tsize d) \<and> tsize d \<le> maxSize d \<and> maxSize d \<le> 65536"
proof -
  obtain d where d: "run (hpack_step huff) ops newHpackDecoder = Some d" "ring_inv d"
    using decoder_in_use.run_safe [of newHpackDecoder huff ops] new_inv by blast
  then show ?thesis
    by (simp add: ring_inv_def ring_wf_def hpackMaxTableSize_def table_def rev_map [symmetric]
      sum_list_rev word_le_nat_alt)
qed

text \<open>
  C12. An integer of up to 32 bits, encoded as in RFC 7541 5.1 with any prefix of up to 8 bits below
  any flag bits, is read back by \<open>hpackInt\<close>, which leaves the bytes after it.
\<close>

theorem hpackInt_round_trip:
  assumes "n \<le> 8" "2 ^ n dvd f" "f + 2 ^ n \<le> 256" "v < 2 ^ 32"
  shows "hpackInt n (enc_int f n v @ rest) = Inr (of_nat v, rest)"
  by (rule hpackInt_enc_int [OF assms])

theorem hpackInt_round_trip_witness:
  "hpackInt 5 (enc_int 32 5 1337 @ [7]) = Inr (1337, [7])"
  using hpackInt_round_trip [of 5 32 1337 "[7]"] by simp

text \<open>
  C9. Inserting into the ring is inserting into the list of entries, newest first, and dropping the
  oldest until the rest fits \<open>maxSize\<close>; an entry larger than the table empties it (RFC 7541 4.4).
\<close>

theorem insert_refines:
  assumes "ring_inv d"
  shows "\<exists>d'. insert_entry f d = Some d' \<and> ring_inv d' \<and> maxSize d' = maxSize d \<and>
    table d' = fit esz (unat (maxSize d)) (f # table d)"
  by (rule insert_entry_fit [OF assms])

theorem insert_refines_witness:
  "\<exists>d'. insert_entry (mk_entry ''a'' ''b'' False) newHpackDecoder = Some d' \<and> ring_inv d' \<and>
    maxSize d' = maxSize newHpackDecoder \<and>
    table d' = fit esz (unat (maxSize newHpackDecoder)) (mk_entry ''a'' ''b'' False # table newHpackDecoder)"
  using insert_refines [of newHpackDecoder "mk_entry ''a'' ''b'' False"] new_inv by simp

end
