(* ===== verification/Http2.thy ===== *)
theory Http2
  imports L7 Hpack_Correct
begin

text \<open>
  The HTTP/2 parser of \<open>src/ebpftracer/l7/http2.go\<close>: it reassembles frames from the reads and
  writes of one connection, decodes the header blocks of both directions, pairs requests with
  responses and returns the completed ones.

  The fields \<open>clientX\<close> and \<open>serverX\<close> of \<open>Http2Parser\<close>, between which \<open>Parse\<close> chooses by the method
  of the event, are one record \<open>direction\<close> each. The Go maps are association lists; Go leaves the
  order in which a map is ranged over open, and the order of the list is one such order. The
  position \<open>offset\<close> in the payload is represented by the bytes from it on. The callbacks
  \<open>OnHttp2Stage\<close>, \<open>OnHttp2Frame\<close> and \<open>OnHPACKDecodeError\<close> are set; what they are called with is the
  \<open>trace\<close> of the parser.
\<close>

unbundle bit_operations_syntax

section \<open>Constants, frames, requests\<close>

definition FrameData :: u8 where "FrameData = 0"
definition FrameHeaders :: u8 where "FrameHeaders = 1"
definition FrameContinuation :: u8 where "FrameContinuation = 9"

lemmas frame_types = FrameData_def FrameHeaders_def FrameContinuation_def

definition http2FrameTypeName :: "u8 \<Rightarrow> string" where
  "http2FrameTypeName t =
     (if t = FrameData then ''DATA''
      else if t = FrameHeaders then ''HEADERS''
      else if t = 2 then ''PRIORITY''
      else if t = 3 then ''RST_STREAM''
      else if t = 4 then ''SETTINGS''
      else if t = 5 then ''PUSH_PROMISE''
      else if t = 6 then ''PING''
      else if t = 7 then ''GOAWAY''
      else if t = 8 then ''WINDOW_UPDATE''
      else if t = FrameContinuation then ''CONTINUATION''
      else ''invalid'')"

definition hour :: u64 where "hour = 3600 * 1000000000"

definition safeKernelDuration :: "u64 \<Rightarrow> u64 \<Rightarrow> u64" where
  "safeKernelDuration stop start =
     (if stop \<le> start then 0
      else let d = stop - start in if d \<ge> hour then 0 else d)"

definition http2FrameHeaderLength :: nat where "http2FrameHeaderLength = 9"
definition http2DecoderGcInterval :: u64 where "http2DecoderGcInterval = 2 * 60 * 1000000000"
definition http2FlagEndStream :: u8 where "http2FlagEndStream = 1"
definition http2FlagEndHeaders :: u8 where "http2FlagEndHeaders = 4"
definition http2FlagPadded :: u8 where "http2FlagPadded = 8"
definition http2FlagPriority :: u8 where "http2FlagPriority = 32"
definition maxPendingHeaderBlockSize :: nat where "maxPendingHeaderBlockSize = 64 * 1024"
definition maxActiveRequests :: nat where "maxActiveRequests = 1000"

text \<open>The connection preface of RFC 9113 3.4, \<open>PRI * HTTP/2.0\<close> and so on.\<close>

definition ClientPreface :: bytes where
  "ClientPreface = bytes_of (''PRI * HTTP/2.0'' @ [CHR 13, CHR 10, CHR 13, CHR 10] @ ''SM''
     @ [CHR 13, CHR 10, CHR 13, CHR 10])"

record Http2FrameHeader =
  fType :: u8
  fFlags :: u8
  fLength :: nat
  fStreamId :: nat

record Http2Request =
  rqMethod :: string
  rqPath :: string
  rqScheme :: string
  rqAuthority :: string
  rqContentType :: string
  rqStatus :: Status
  rqGrpcStatus :: Status
  rqDuration :: u64
  rqKernelTime :: u64
  hasResponseStatus :: bool
  responseEndStream :: bool
  PartialHeaders :: bool

definition new_request :: "u64 \<Rightarrow> Http2Request" where
  "new_request kernelTime =
     \<lparr>rqMethod = [], rqPath = [], rqScheme = [], rqAuthority = [], rqContentType = [], rqStatus = 0,
      rqGrpcStatus = 0, rqDuration = 0, rqKernelTime = kernelTime, hasResponseStatus = False,
      responseEndStream = False, PartialHeaders = False\<rparr>"

record pendingHeaderBlock =
  pStreamId :: nat
  fragments :: bytes
  pEndStream :: bool

datatype http2_event = Stage string string | Frame string string | HPACKDecodeError

section \<open>The parser\<close>

record direction =
  decoder :: hpackDecoder
  partialFrame :: bytes
  skip :: u64
  pendingHeaders :: "pendingHeaderBlock option"
  decoderDegraded :: bool

record Http2Parser =
  ConnTimestamp :: u64
  DestClass :: string
  sawValidFrame :: bool
  client :: direction
  server :: direction
  activeRequests :: "(nat \<times> Http2Request) list"
  lastGcTime :: u64
  statuses :: "(nat \<times> Status) list"
  grpcStatuses :: "(nat \<times> Status) list"
  trace :: "http2_event list"

definition new_direction :: direction where
  "new_direction =
     \<lparr>decoder = newHpackDecoder, partialFrame = [], skip = 0, pendingHeaders = None,
      decoderDegraded = False\<rparr>"

definition NewHttp2Parser :: Http2Parser where
  "NewHttp2Parser =
     \<lparr>ConnTimestamp = 0, DestClass = [], sawValidFrame = False, client = new_direction,
      server = new_direction, activeRequests = [], lastGcTime = 0, statuses = [],
      grpcStatuses = [], trace = []\<rparr>"

text \<open>The choice of the direction by the method, for reading and for updating.\<close>

definition dir_of :: "Method \<Rightarrow> Http2Parser \<Rightarrow> direction" where
  "dir_of m p = (if m = MethodHttp2ClientFrames then client p else server p)"

definition upd_dir :: "Method \<Rightarrow> (direction \<Rightarrow> direction) \<Rightarrow> Http2Parser \<Rightarrow> Http2Parser" where
  "upd_dir m f p =
     (if m = MethodHttp2ClientFrames then p\<lparr>client := f (client p)\<rparr>
      else if m = MethodHttp2ServerFrames then p\<lparr>server := f (server p)\<rparr>
      else p)"

definition frame_event :: "string \<Rightarrow> Http2Parser \<Rightarrow> Http2Parser" where
  "frame_event name p = p\<lparr>trace := trace p @ [Frame name (DestClass p)]\<rparr>"

definition stage :: "string \<Rightarrow> Http2Parser \<Rightarrow> Http2Parser" where
  "stage name p = p\<lparr>trace := trace p @ [Stage name (DestClass p)]\<rparr>"

definition resetDecoder :: "Method \<Rightarrow> Http2Parser \<Rightarrow> Http2Parser" where
  "resetDecoder m p = upd_dir m (\<lambda>d. d\<lparr>decoder := reset (decoder d), decoderDegraded := True\<rparr>) p"

definition lost_direction :: "Method \<Rightarrow> Http2Parser \<Rightarrow> Http2Parser" where
  "lost_direction m p =
     stage ''events_lost''
       (resetDecoder m (upd_dir m (\<lambda>d. d\<lparr>partialFrame := [], skip := 0, pendingHeaders := None\<rparr>) p))"

definition Lost :: "u8 \<Rightarrow> Http2Parser \<Rightarrow> Http2Parser" where
  "Lost lost p =
     (let p1 = (if lost AND LostWrites \<noteq> 0 then lost_direction MethodHttp2ClientFrames p else p) in
      if lost AND LostReads \<noteq> 0 then lost_direction MethodHttp2ServerFrames p1 else p1)"

definition evictsBefore :: "Http2Request \<Rightarrow> Http2Request \<Rightarrow> bool" where
  "evictsBefore a b =
     (if hasResponseStatus a \<noteq> hasResponseStatus b then \<not> hasResponseStatus a
      else rqKernelTime a < rqKernelTime b)"

fun find_victim ::
  "(nat \<times> Http2Request) option \<Rightarrow> (nat \<times> Http2Request) list \<Rightarrow> (nat \<times> Http2Request) option" where
  "find_victim v [] = v"
| "find_victim v ((i, r) # rs) =
     find_victim
       (case v of
          None \<Rightarrow> Some (i, r)
        | Some (vi, vr) \<Rightarrow> if evictsBefore r vr then Some (i, r) else v) rs"

definition evictOldestRequest :: "Http2Parser \<Rightarrow> Http2Parser" where
  "evictOldestRequest p =
     (case find_victim None (activeRequests p) of
        None \<Rightarrow> p
      | Some (victimId, _) \<Rightarrow>
          stage ''stream_evicted'' (p\<lparr>activeRequests := AList.delete victimId (activeRequests p)\<rparr>))"

definition dropPendingHeaders :: "Method \<Rightarrow> Http2Parser \<Rightarrow> Http2Parser" where
  "dropPendingHeaders m p =
     (if pendingHeaders (dir_of m p) = None then p
      else resetDecoder m (upd_dir m (\<lambda>d. d\<lparr>pendingHeaders := None\<rparr>) p))"

definition ActiveRequestCount :: "Http2Parser \<Rightarrow> nat" where
  "ActiveRequestCount p = length (activeRequests p)"

definition HasPartialData :: "Http2Parser \<Rightarrow> bool" where
  "HasPartialData p \<longleftrightarrow>
     partialFrame (client p) \<noteq> [] \<or> partialFrame (server p) \<noteq> [] \<or>
     pendingHeaders (client p) \<noteq> None \<or> pendingHeaders (server p) \<noteq> None"

text \<open>
  \<open>extractHeaderBlockFragment\<close>: \<^term>\<open>None\<close> is a panic, \<^term>\<open>Some None\<close> is \<open>nil\<close>. The
  check \<open>end < offset\<close> is on Go's signed \<open>int\<close>, as \<open>end = len(framePayload) - padLength\<close> may be negative.
\<close>

definition extractHeaderBlockFragment :: "u8 \<Rightarrow> bytes \<Rightarrow> bytes option option" where
  "extractHeaderBlockFragment flags framePayload =
     (let padded = (flags AND http2FlagPadded \<noteq> 0) in
      if padded \<and> length framePayload < 1 then Some None
      else do {
        padLength \<leftarrow> (if padded then map_option unat (at framePayload 0) else Some 0);
        let offset = (if padded then 1 else 0) + (if flags AND http2FlagPriority \<noteq> 0 then 5 else 0);
        (if offset > length framePayload then Some None
         else if length framePayload < offset + padLength then Some None
         else do {
           s \<leftarrow> slice framePayload offset (length framePayload - padLength);
           Some (Some s)
         })
      })"

section \<open>Header blocks\<close>

text \<open>
  The closure \<open>emit\<close> of the client direction, on the request, \<open>implausible\<close> and \<open>sawPseudo\<close>. The
  request is never \<open>nil\<close> there.
\<close>

fun emit_client ::
  "string \<times> string \<Rightarrow> Http2Request \<times> bool \<times> bool \<Rightarrow> Http2Request \<times> bool \<times> bool" where
  "emit_client (name, val) (req, implausible, sawPseudo) =
     (let pseudo = sawPseudo \<or> prefix '':'' name in
      if name = '':method'' then
        (if \<not> isHttpMethod val then (req, True, pseudo)
         else if rqMethod req = [] then (req\<lparr>rqMethod := val\<rparr>, implausible, pseudo)
         else (req, implausible, pseudo))
      else if name = '':path'' then
        (if \<not> isHttpPath val then (req, True, pseudo)
         else if rqPath req = [] then (req\<lparr>rqPath := val\<rparr>, implausible, pseudo)
         else (req, implausible, pseudo))
      else if name = '':scheme'' then
        (if rqScheme req = [] \<and> isHttpScheme val then (req\<lparr>rqScheme := val\<rparr>, implausible, pseudo)
         else (req, implausible, pseudo))
      else if name = '':authority'' then
        (if rqAuthority req = [] \<and> val \<noteq> [] then (req\<lparr>rqAuthority := val\<rparr>, implausible, pseudo)
         else (req, implausible, pseudo))
      else if name = ''content-type'' then
        (if rqContentType req = [] \<and> val \<noteq> [] then (req\<lparr>rqContentType := val\<rparr>, implausible, pseudo)
         else (req, implausible, pseudo))
      else if name = '':status'' then (req, True, pseudo)
      else (req, implausible, pseudo))"

definition modify_request :: "nat \<Rightarrow> (Http2Request \<Rightarrow> Http2Request) \<Rightarrow> Http2Parser \<Rightarrow> Http2Parser" where
  "modify_request sid f p = p\<lparr>activeRequests := AList.map_entry sid f (activeRequests p)\<rparr>"

text \<open>The closure \<open>emit\<close> of the server direction, on the parser and \<open>implausible\<close>.\<close>

fun emit_server ::
  "nat \<Rightarrow> string \<times> string \<Rightarrow> Http2Parser \<times> bool \<Rightarrow> Http2Parser \<times> bool" where
  "emit_server sid (name, val) (p, implausible) =
     (if name = '':status'' then
        (let (s, err) = atoi val in
         if err \<noteq> None \<or> s < 100 \<or> s > 999 then (p, True)
         else
           (let p1 = (case map_of (activeRequests p) sid of
                        None \<Rightarrow> p
                      | Some req \<Rightarrow>
                          modify_request sid (\<lambda>r. r\<lparr>rqStatus := s, hasResponseStatus := True\<rparr>)
                            (if hasResponseStatus req then p else stage ''response_status'' p)) in
            (p1\<lparr>statuses := AList.update sid s (statuses p1)\<rparr>, implausible)))
      else if name = ''grpc-status'' then
        (let s = fst (atoi val);
             p1 = modify_request sid (\<lambda>r. r\<lparr>rqGrpcStatus := s\<rparr>) p in
         (p1\<lparr>grpcStatuses := AList.update sid s (grpcStatuses p1)\<rparr>, implausible))
      else if name \<in> {'':method'', '':path'', '':scheme'', '':authority''} then (p, True)
      else (p, implausible))"

definition mark_end_stream :: "nat \<Rightarrow> Http2Parser \<Rightarrow> Http2Parser" where
  "mark_end_stream sid p =
     (case map_of (activeRequests p) sid of
        None \<Rightarrow> p
      | Some req \<Rightarrow>
          modify_request sid (\<lambda>r. r\<lparr>responseEndStream := True\<rparr>)
            (if responseEndStream req then p else stage ''end_stream'' p))"

definition set_decoder :: "Method \<Rightarrow> hpackDecoder \<Rightarrow> Http2Parser \<Rightarrow> Http2Parser" where
  "set_decoder m h p = upd_dir m (\<lambda>d. d\<lparr>decoder := h\<rparr>) p"

text \<open>The end of \<open>decodeHeaderBlock\<close>: what is done about unknown fields, errors and implausible ones.\<close>

definition finish_block ::
  "Method \<Rightarrow> nat \<Rightarrow> nat \<Rightarrow> hpackErr option \<Rightarrow> bool \<Rightarrow> Http2Parser \<Rightarrow> Http2Parser" where
  "finish_block m sid unknown err implausible p =
     (let p1 = (if err \<noteq> None \<or> unknown > 0 \<or> implausible
                then modify_request sid (\<lambda>r. r\<lparr>PartialHeaders := True\<rparr>) p else p) in
      if err \<noteq> None \<or> implausible then
        resetDecoder m (stage ''hpack_error'' (p1\<lparr>trace := trace p1 @ [HPACKDecodeError]\<rparr>))
      else if unknown > 0 then stage ''hpack_partial'' p1
      else p1)"

definition track_request :: "nat \<Rightarrow> Http2Request \<Rightarrow> Http2Parser \<Rightarrow> Http2Parser" where
  "track_request sid req p =
     (let p1 = (if length (activeRequests p) \<ge> maxActiveRequests then evictOldestRequest p else p) in
      stage ''stream_created'' (p1\<lparr>activeRequests := AList.update sid req (activeRequests p1)\<rparr>))"

definition client_block ::
  "(bytes \<Rightarrow> string option) \<Rightarrow> nat \<Rightarrow> bytes \<Rightarrow> u64 \<Rightarrow> Http2Parser \<Rightarrow> Http2Parser option" where
  "client_block huff sid hpackData kernelTime p =
     (let found = map_of (activeRequests p) sid;
          req0 = (case found of Some r \<Rightarrow> r | None \<Rightarrow> new_request kernelTime) in
      do {
        (h, fs, unknown, err) \<leftarrow> decode huff (decoder (client p)) hpackData;
        let (req, implausible, sawPseudo) = fold emit_client fs (req0, False, False);
        let p1 = set_decoder MethodHttp2ClientFrames h p;
        let p2 =
          (if found \<noteq> None then modify_request sid (\<lambda>_. req) p1
           else if sawPseudo \<or> unknown > 0 \<or> err \<noteq> None then track_request sid req p1
           else p1);
        Some (finish_block MethodHttp2ClientFrames sid unknown err implausible p2)
      })"

definition server_block ::
  "(bytes \<Rightarrow> string option) \<Rightarrow> nat \<Rightarrow> bool \<Rightarrow> bytes \<Rightarrow> Http2Parser \<Rightarrow> Http2Parser option" where
  "server_block huff sid endStream hpackData p =
     (let p1 = (if map_of (activeRequests p) sid = None \<and> map_of (statuses p) sid = None
                then p\<lparr>statuses := AList.update sid 0 (statuses p)\<rparr> else p);
          p2 = (if endStream then mark_end_stream sid p1 else p1) in
      do {
        (h, fs, unknown, err) \<leftarrow> decode huff (decoder (server p)) hpackData;
        let (p3, implausible) = fold (emit_server sid) fs (p2, False);
        Some (finish_block MethodHttp2ServerFrames sid unknown err implausible
               (set_decoder MethodHttp2ServerFrames h p3))
      })"

definition decodeHeaderBlock ::
  "(bytes \<Rightarrow> string option) \<Rightarrow> Method \<Rightarrow> nat \<Rightarrow> bool \<Rightarrow> bytes \<Rightarrow> u64 \<Rightarrow> Http2Parser
     \<Rightarrow> Http2Parser option" where
  "decodeHeaderBlock huff m sid endStream hpackData kernelTime p =
     (if m = MethodHttp2ClientFrames then client_block huff sid hpackData kernelTime p
      else if m = MethodHttp2ServerFrames then server_block huff sid endStream hpackData p
      else Some p)"

end
