(* ===== verification/Http2_Parse.thy ===== *)
theory Http2_Parse
  imports Http2
begin

text \<open>
  The method \<open>Parse\<close> of the HTTP/2 parser, in the phases of its body: the preface, the rest of a
  frame the kernel cut short, the partial frame of the previous call, the loop over the frames, what
  is kept for the next call, the completed requests, and the collection of stale ones.
\<close>

unbundle bit_operations_syntax

section \<open>Frames\<close>

text \<open>The frame header at the front of the bytes; a shorter slice would panic.\<close>

definition frame_header :: "bytes \<Rightarrow> Http2FrameHeader option" where
  "frame_header b =
     do {
       l \<leftarrow> be32 b;
       t \<leftarrow> at b 3;
       f \<leftarrow> at b 4;
       b5 \<leftarrow> slice b 5 (length b);
       s \<leftarrow> be32 b5;
       Some \<lparr>fType = t, fFlags = f, fLength = l div 2 ^ 8, fStreamId = s mod 2 ^ 31\<rparr>
     }"

definition data_frame :: "Method \<Rightarrow> Http2FrameHeader \<Rightarrow> Http2Parser \<Rightarrow> Http2Parser" where
  "data_frame m h p =
     (if m = MethodHttp2ServerFrames \<and> fFlags h AND http2FlagEndStream \<noteq> 0
      then mark_end_stream (fStreamId h) p else p)"

definition headers_frame ::
  "(bytes \<Rightarrow> string option) \<Rightarrow> Method \<Rightarrow> u64 \<Rightarrow> Http2FrameHeader \<Rightarrow> bytes \<Rightarrow> Http2Parser
     \<Rightarrow> Http2Parser option" where
  "headers_frame huff m kernelTime h framePayload p =
     (let p1 = dropPendingHeaders m p in
      do {
        fragment \<leftarrow> extractHeaderBlockFragment (fFlags h) framePayload;
        (case fragment of
           None \<Rightarrow> Some (resetDecoder m p1)
         | Some hpackFragment \<Rightarrow>
             (let endStream = (fFlags h AND http2FlagEndStream \<noteq> 0) in
              if fFlags h AND http2FlagEndHeaders \<noteq> 0
              then decodeHeaderBlock huff m (fStreamId h) endStream hpackFragment kernelTime p1
              else Some (upd_dir m (\<lambda>d. d\<lparr>pendingHeaders :=
                     Some \<lparr>pStreamId = fStreamId h, fragments = hpackFragment, pEndStream = endStream\<rparr>\<rparr>)
                     p1)))
      })"

definition continuation_frame ::
  "(bytes \<Rightarrow> string option) \<Rightarrow> Method \<Rightarrow> u64 \<Rightarrow> Http2FrameHeader \<Rightarrow> bytes \<Rightarrow> Http2Parser
     \<Rightarrow> Http2Parser option" where
  "continuation_frame huff m kernelTime h payload p =
     (case pendingHeaders (dir_of m p) of
        None \<Rightarrow> Some (resetDecoder m (dropPendingHeaders m p))
      | Some pending \<Rightarrow>
          if pStreamId pending \<noteq> fStreamId h then Some (resetDecoder m (dropPendingHeaders m p))
          else if length (fragments pending) + length payload > maxPendingHeaderBlockSize
          then Some (dropPendingHeaders m p)
          else
            (let pending' = pending\<lparr>fragments := fragments pending @ payload\<rparr> in
             if fFlags h AND http2FlagEndHeaders \<noteq> 0
             then decodeHeaderBlock huff m (pStreamId pending') (pEndStream pending')
                    (fragments pending') kernelTime (upd_dir m (\<lambda>d. d\<lparr>pendingHeaders := None\<rparr>) p)
             else Some (upd_dir m (\<lambda>d. d\<lparr>pendingHeaders := Some pending'\<rparr>) p)))"

text \<open>The \<open>switch\<close> on the type, for a frame whose \<open>h.Length\<close> bytes are there.\<close>

definition handle_frame ::
  "(bytes \<Rightarrow> string option) \<Rightarrow> Method \<Rightarrow> u64 \<Rightarrow> Http2FrameHeader \<Rightarrow> bytes \<Rightarrow> Http2Parser
     \<Rightarrow> Http2Parser option" where
  "handle_frame huff m kernelTime h framePayload p =
     (if fType h = FrameData then Some (data_frame m h p)
      else if fType h = FrameHeaders then headers_frame huff m kernelTime h framePayload p
      else if fType h = FrameContinuation then continuation_frame huff m kernelTime h framePayload p
      else Some p)"

text \<open>
  One round of \<open>frameLoop\<close>: it leaves the loop with the bytes from \<open>offset\<close> on, or goes on with
  them. In every case of the \<open>switch\<close> a frame that is not there in full ends the loop at its start.
\<close>

datatype frame_result = Stop Http2Parser bytes | Next Http2Parser bytes

definition frame_round ::
  "(bytes \<Rightarrow> string option) \<Rightarrow> Method \<Rightarrow> u64 \<Rightarrow> Http2Parser \<Rightarrow> bytes \<Rightarrow> frame_result option" where
  "frame_round huff m kernelTime p payload =
     (if length payload < http2FrameHeaderLength then Some (Stop p payload)
      else do {
        h \<leftarrow> frame_header payload;
        (if fLength h > 16 * 1024 * 1024 then Some (Stop (frame_event ''invalid'' p) [])
         else if fType h > 9 \<and> fType h \<le> 0x10 then
           (let p1 = (frame_event ''extension'' p)\<lparr>sawValidFrame := True\<rparr> in
            if length payload < http2FrameHeaderLength + fLength h then Some (Stop p1 payload)
            else Some (Next p1 (drop (http2FrameHeaderLength + fLength h) payload)))
         else if fType h > 0x10 then Some (Stop (frame_event ''invalid'' p) [])
         else
           (let p1 = (frame_event (http2FrameTypeName (fType h)) p)\<lparr>sawValidFrame := True\<rparr>;
                rest = drop http2FrameHeaderLength payload in
            if length rest < fLength h then Some (Stop p1 payload)
            else do {
              framePayload \<leftarrow> slice rest 0 (fLength h);
              p2 \<leftarrow> handle_frame huff m kernelTime h framePayload p1;
              Some (Next p2 (drop (fLength h) rest))
            }))
      })"

lemma frame_round_shorter:
  "frame_round huff m kt p payload = Some (Next p' rest) \<Longrightarrow> length rest < length payload"
  by (auto simp: frame_round_def Let_def http2FrameHeaderLength_def split: if_splits bind_splits)

function frameLoop ::
  "(bytes \<Rightarrow> string option) \<Rightarrow> Method \<Rightarrow> u64 \<Rightarrow> Http2Parser \<Rightarrow> bytes
     \<Rightarrow> (Http2Parser \<times> bytes) option" where
  "frameLoop huff m kernelTime p payload =
     (case frame_round huff m kernelTime p payload of
        None \<Rightarrow> None
      | Some (Stop p' rest) \<Rightarrow> Some (p', rest)
      | Some (Next p' rest) \<Rightarrow> frameLoop huff m kernelTime p' rest)"
  by pat_completeness auto
termination
  by (relation "measure (\<lambda>(huff, m, kt, p, payload). length payload)") (auto dest: frame_round_shorter)

declare frameLoop.simps [simp del]

lemma frameLoop_None: "frame_round huff m kt p b = None \<Longrightarrow> frameLoop huff m kt p b = None"
  by (simp add: frameLoop.simps)

lemma frameLoop_Stop:
  "frame_round huff m kt p b = Some (Stop p' rest) \<Longrightarrow> frameLoop huff m kt p b = Some (p', rest)"
  by (simp add: frameLoop.simps)

lemma frameLoop_Next:
  "frame_round huff m kt p b = Some (Next p' rest) \<Longrightarrow>
     frameLoop huff m kt p b = frameLoop huff m kt p' rest"
  by (simp add: frameLoop.simps [of huff m kt p b])

section \<open>Before and after the loop\<close>

definition strip_preface :: "Method \<Rightarrow> bytes \<Rightarrow> bytes" where
  "strip_preface m payload =
     (if m = MethodHttp2ClientFrames \<and> length ClientPreface \<le> length payload \<and>
         take (length ClientPreface) payload = ClientPreface
      then drop (length ClientPreface) payload else payload)"

text \<open>
  The skip at the front of a read: \<^term>\<open>Inl\<close> ends the call, \<^term>\<open>Inr\<close> goes on with the rest of
  the payload. \<open>readLen\<close> is computed in 64 bits, as in the code.
\<close>

definition skip_rest ::
  "Method \<Rightarrow> bytes \<Rightarrow> u64 \<Rightarrow> Http2Parser \<Rightarrow> Http2Parser + Http2Parser \<times> bytes" where
  "skip_rest m payload missing p =
     (let sk = skip (dir_of m p); readLen = of_nat (length payload) + missing in
      if sk > 0 then
        (if sk \<ge> readLen then
           Inl ((upd_dir m (\<lambda>d. d\<lparr>skip := sk - readLen\<rparr>) p)\<lparr>sawValidFrame := True\<rparr>)
         else if sk \<le> of_nat (length payload) then
           Inr (upd_dir m (\<lambda>d. d\<lparr>skip := 0\<rparr>) p, drop (unat sk) payload)
         else Inl (resetDecoder m (upd_dir m (\<lambda>d. d\<lparr>skip := 0\<rparr>) p)))
      else Inr (p, payload))"

definition prepend_partial :: "Method \<Rightarrow> bytes \<Rightarrow> Http2Parser \<Rightarrow> Http2Parser \<times> bytes" where
  "prepend_partial m payload p =
     (let part = partialFrame (dir_of m p) in
      if part = [] then (p, payload)
      else if length part > 64 * 1024
      then (resetDecoder m (upd_dir m (\<lambda>d. d\<lparr>partialFrame := []\<rparr>) p), payload)
      else (upd_dir m (\<lambda>d. d\<lparr>partialFrame := []\<rparr>) p, part @ payload))"

text \<open>What a truncated payload leaves behind; \<open>rest\<close> are the bytes from \<open>offset\<close> on.\<close>

definition cut_frame :: "Method \<Rightarrow> u64 \<Rightarrow> bytes \<Rightarrow> Http2Parser \<Rightarrow> (Http2Parser \<times> bool) option" where
  "cut_frame m missing rest p =
     (if length rest \<ge> http2FrameHeaderLength then
        do {
          l \<leftarrow> be32 rest;
          let frameLen = (of_nat (l div 2 ^ 8) :: u64);
          let captured = of_nat (length rest - http2FrameHeaderLength);
          (if frameLen \<ge> captured + missing then
             do {
               t \<leftarrow> at rest 3;
               Some (upd_dir m (\<lambda>d. d\<lparr>skip := frameLen - captured - missing\<rparr>) p,
                     t = FrameHeaders \<or> t = FrameContinuation)
             }
           else Some (p, True))
        }
      else Some (p, True))"

definition after_truncation ::
  "Method \<Rightarrow> u64 \<Rightarrow> bytes \<Rightarrow> Http2Parser \<Rightarrow> Http2Parser option" where
  "after_truncation m missing rest p =
     do {
       (p1, lostHeaders) \<leftarrow> cut_frame m missing rest p;
       let p2 = (if lostHeaders then resetDecoder m p1 else p1);
       Some (dropPendingHeaders m (upd_dir m (\<lambda>d. d\<lparr>partialFrame := []\<rparr>) p2))
     }"

definition save_partial :: "Method \<Rightarrow> bytes \<Rightarrow> Http2Parser \<Rightarrow> Http2Parser" where
  "save_partial m rest p =
     (if rest \<noteq> [] \<and> length rest < 16 * 1024 * 1024
      then upd_dir m (\<lambda>d. d\<lparr>partialFrame := rest\<rparr>) p else p)"

section \<open>Completed requests\<close>

definition complete_request :: "Http2Request \<Rightarrow> bool" where
  "complete_request r \<longleftrightarrow> hasResponseStatus r \<and> responseEndStream r"

definition grpc_of :: "(nat \<times> Status) list \<Rightarrow> nat \<Rightarrow> Status" where
  "grpc_of gs sid = (case map_of gs sid of Some s \<Rightarrow> s | None \<Rightarrow> -1)"

definition finish_request :: "u64 \<Rightarrow> (nat \<times> Status) list \<Rightarrow> nat \<Rightarrow> Http2Request \<Rightarrow> Http2Request" where
  "finish_request kernelTime gs sid r =
     r\<lparr>rqGrpcStatus := (if rqGrpcStatus r = 0 then grpc_of gs sid else rqGrpcStatus r),
       rqDuration := safeKernelDuration kernelTime (rqKernelTime r)\<rparr>"

fun collect_loop ::
  "u64 \<Rightarrow> (nat \<times> Http2Request) list \<Rightarrow> Http2Parser \<times> Http2Request list
     \<Rightarrow> Http2Parser \<times> Http2Request list" where
  "collect_loop kernelTime [] (p, res) = (p, res)"
| "collect_loop kernelTime ((sid, r) # rs) (p, res) =
     collect_loop kernelTime rs
       (if complete_request r
        then ((stage ''completed'' p)\<lparr>activeRequests := AList.delete sid (activeRequests p)\<rparr>,
              res @ [finish_request kernelTime (grpcStatuses p) sid r])
        else (p, res))"

definition collect :: "u64 \<Rightarrow> Http2Parser \<Rightarrow> Http2Parser \<times> Http2Request list" where
  "collect kernelTime p = collect_loop kernelTime (activeRequests p) (p, [])"

definition fallback ::
  "u64 \<Rightarrow> nat \<times> Status \<Rightarrow> Http2Parser \<times> Http2Request list \<Rightarrow> Http2Parser \<times> Http2Request list" where
  "fallback kernelTime ss pr =
     (let (sid, status) = ss; (p, res) = pr in
      case map_of (activeRequests p) sid of
        None \<Rightarrow> (p, res)
      | Some r \<Rightarrow>
          if hasResponseStatus r \<and> responseEndStream r then (p, res)
          else if hasResponseStatus r \<and> \<not> responseEndStream r then (p, res)
          else if \<not> hasResponseStatus r \<and> status > 0 then
            (p\<lparr>activeRequests := AList.delete sid (activeRequests p)\<rparr>,
             res @ [r\<lparr>rqStatus := status, rqGrpcStatus := grpc_of (grpcStatuses p) sid,
                      rqDuration := safeKernelDuration kernelTime (rqKernelTime r)\<rparr>])
          else (p, res))"

definition gc :: "u64 \<Rightarrow> Http2Parser \<Rightarrow> Http2Parser" where
  "gc kernelTime p =
     (if kernelTime - lastGcTime p > http2DecoderGcInterval then
        (let p1 =
           (if lastGcTime p > 0 then
              dropPendingHeaders MethodHttp2ServerFrames
                (dropPendingHeaders MethodHttp2ClientFrames
                  (p\<lparr>activeRequests :=
                      filter (\<lambda>(_, r). \<not> kernelTime - rqKernelTime r > http2DecoderGcInterval)
                        (activeRequests p)\<rparr>))
            else p) in
         p1\<lparr>lastGcTime := kernelTime\<rparr>)
      else p)"

section \<open>Parse\<close>

definition Parse_frames ::
  "(bytes \<Rightarrow> string option) \<Rightarrow> Method \<Rightarrow> bytes \<Rightarrow> u64 \<Rightarrow> u64 \<Rightarrow> Http2Parser
     \<Rightarrow> (Http2Parser \<times> Http2Request list) option" where
  "Parse_frames huff m payload kernelTime missing p =
     do {
       (p1, rest) \<leftarrow> frameLoop huff m kernelTime p payload;
       p2 \<leftarrow> (if missing > 0 then after_truncation m missing rest p1 else Some (save_partial m rest p1));
       let (p3, res) = fold (fallback kernelTime) (statuses p2) (collect kernelTime p2);
       Some (gc kernelTime p3, res)
     }"

definition Parse ::
  "(bytes \<Rightarrow> string option) \<Rightarrow> Method \<Rightarrow> bytes \<Rightarrow> u64 \<Rightarrow> u64 \<Rightarrow> Http2Parser
     \<Rightarrow> (Http2Parser \<times> Http2Request list) option" where
  "Parse huff m payload0 kernelTime missing p0 =
     (let payload = strip_preface m payload0; p = p0\<lparr>sawValidFrame := False\<rparr> in
      if payload = [] then Some (p, [])
      else
        (let p1 = p\<lparr>statuses := [], grpcStatuses := []\<rparr> in
         if m \<noteq> MethodHttp2ClientFrames \<and> m \<noteq> MethodHttp2ServerFrames then Some (p1, [])
         else
           (case skip_rest m payload missing p1 of
              Inl p2 \<Rightarrow> Some (p2, [])
            | Inr (p2, payload2) \<Rightarrow>
                (case prepend_partial m payload2 p2 of
                   (p3, payload3) \<Rightarrow> Parse_frames huff m payload3 kernelTime missing p3))))"

end
