(* ===== verification/Http2_Inv.thy ===== *)
theory Http2_Inv
  imports Http2_Parse
begin

text \<open>
  The invariant of the HTTP/2 parser, that every operation keeps it, and that under it no
  operation panics, whatever the bytes, timestamps and losses.
\<close>

unbundle bit_operations_syntax

section \<open>What the small operations leave alone\<close>

lemma upd_dir_sel [simp]:
  "activeRequests (upd_dir m f p) = activeRequests p"
  "statuses (upd_dir m f p) = statuses p"
  "grpcStatuses (upd_dir m f p) = grpcStatuses p"
  "trace (upd_dir m f p) = trace p"
  "DestClass (upd_dir m f p) = DestClass p"
  "lastGcTime (upd_dir m f p) = lastGcTime p"
  "sawValidFrame (upd_dir m f p) = sawValidFrame p"
  by (simp_all add: upd_dir_def)

lemma event_sel [simp]:
  "client (stage n p) = client p" "client (frame_event n p) = client p"
  "server (stage n p) = server p" "server (frame_event n p) = server p"
  "activeRequests (stage n p) = activeRequests p" "activeRequests (frame_event n p) = activeRequests p"
  "statuses (stage n p) = statuses p" "statuses (frame_event n p) = statuses p"
  "grpcStatuses (stage n p) = grpcStatuses p" "grpcStatuses (frame_event n p) = grpcStatuses p"
  "lastGcTime (stage n p) = lastGcTime p" "lastGcTime (frame_event n p) = lastGcTime p"
  by (simp_all add: stage_def frame_event_def)

lemma resetDecoder_sel [simp]:
  "activeRequests (resetDecoder m p) = activeRequests p"
  "statuses (resetDecoder m p) = statuses p"
  "grpcStatuses (resetDecoder m p) = grpcStatuses p"
  "lastGcTime (resetDecoder m p) = lastGcTime p"
  "trace (resetDecoder m p) = trace p"
  by (simp_all add: resetDecoder_def)

lemma dropPendingHeaders_sel [simp]:
  "activeRequests (dropPendingHeaders m p) = activeRequests p"
  "statuses (dropPendingHeaders m p) = statuses p"
  "grpcStatuses (dropPendingHeaders m p) = grpcStatuses p"
  "lastGcTime (dropPendingHeaders m p) = lastGcTime p"
  "trace (dropPendingHeaders m p) = trace p"
  by (simp_all add: dropPendingHeaders_def)

lemma modify_request_sel [simp]:
  "client (modify_request sid f p) = client p" "server (modify_request sid f p) = server p"
  "statuses (modify_request sid f p) = statuses p"
  "grpcStatuses (modify_request sid f p) = grpcStatuses p"
  "activeRequests (modify_request sid f p) = AList.map_entry sid f (activeRequests p)"
  by (simp_all add: modify_request_def)

lemma mark_end_stream_sel [simp]:
  "client (mark_end_stream sid p) = client p" "server (mark_end_stream sid p) = server p"
  "statuses (mark_end_stream sid p) = statuses p"
  "grpcStatuses (mark_end_stream sid p) = grpcStatuses p"
  by (simp_all add: mark_end_stream_def split: option.splits)

section \<open>The invariant\<close>

definition decoders_ok :: "Http2Parser \<Rightarrow> bool" where
  "decoders_ok p \<longleftrightarrow> ring_inv (decoder (client p)) \<and> ring_inv (decoder (server p))"

definition requests_ok :: "Http2Parser \<Rightarrow> bool" where
  "requests_ok p \<longleftrightarrow> distinct (map fst (activeRequests p)) \<and> length (activeRequests p) \<le> maxActiveRequests"

definition parser_inv :: "Http2Parser \<Rightarrow> bool" where
  "parser_inv p \<longleftrightarrow> decoders_ok p \<and> requests_ok p"

lemma new_parser_inv: "parser_inv NewHttp2Parser"
  by (simp add: parser_inv_def decoders_ok_def requests_ok_def NewHttp2Parser_def new_direction_def new_inv)

lemma decoders_ok_cong:
  "client p' = client p \<Longrightarrow> server p' = server p \<Longrightarrow> decoders_ok p' = decoders_ok p"
  by (simp add: decoders_ok_def)

lemma requests_ok_cong:
  "activeRequests p' = activeRequests p \<Longrightarrow> requests_ok p' = requests_ok p"
  by (simp add: requests_ok_def)

lemma dir_of_ok: "decoders_ok p \<Longrightarrow> ring_inv (decoder (dir_of m p))"
  by (simp add: decoders_ok_def dir_of_def)

lemma upd_dir_inv:
  "parser_inv p \<Longrightarrow> (\<And>d. ring_inv (decoder d) \<Longrightarrow> ring_inv (decoder (f d))) \<Longrightarrow> parser_inv (upd_dir m f p)"
  by (simp add: parser_inv_def decoders_ok_def requests_ok_def upd_dir_def)

lemma upd_dir_field_inv [simp]:
  "parser_inv p \<Longrightarrow> parser_inv (upd_dir m (\<lambda>d. d\<lparr>pendingHeaders := x\<rparr>) p)"
  "parser_inv p \<Longrightarrow> parser_inv (upd_dir m (\<lambda>d. d\<lparr>partialFrame := y\<rparr>) p)"
  "parser_inv p \<Longrightarrow> parser_inv (upd_dir m (\<lambda>d. d\<lparr>skip := z\<rparr>) p)"
  "parser_inv p \<Longrightarrow>
     parser_inv (upd_dir m (\<lambda>d. d\<lparr>partialFrame := y, skip := z, pendingHeaders := x\<rparr>) p)"
  by (simp_all add: upd_dir_inv)

lemma event_inv [simp]:
  "parser_inv (stage n p) = parser_inv p" "parser_inv (frame_event n p) = parser_inv p"
  "parser_inv (p\<lparr>sawValidFrame := b\<rparr>) = parser_inv p"
  "parser_inv (p\<lparr>statuses := ss\<rparr>) = parser_inv p"
  "parser_inv (p\<lparr>grpcStatuses := gs\<rparr>) = parser_inv p"
  "parser_inv (p\<lparr>statuses := ss, grpcStatuses := gs\<rparr>) = parser_inv p"
  "parser_inv (p\<lparr>trace := ts\<rparr>) = parser_inv p"
  "parser_inv (p\<lparr>lastGcTime := t\<rparr>) = parser_inv p"
  by (simp_all add: parser_inv_def decoders_ok_def requests_ok_def)

lemma resetDecoder_inv [simp, keeps_inv]: "parser_inv p \<Longrightarrow> parser_inv (resetDecoder m p)"
  by (simp add: resetDecoder_def upd_dir_inv reset_agrees)

lemma dropPendingHeaders_inv [simp, keeps_inv]: "parser_inv p \<Longrightarrow> parser_inv (dropPendingHeaders m p)"
  by (simp add: dropPendingHeaders_def)

lemma Lost_inv [simp, keeps_inv]: "parser_inv p \<Longrightarrow> parser_inv (Lost lost p)"
  by (simp add: Lost_def lost_direction_def Let_def)

lemma modify_request_inv [simp, keeps_inv]: "parser_inv (modify_request sid f p) = parser_inv p"
  by (simp add: parser_inv_def decoders_ok_def requests_ok_def)

lemma mark_end_stream_inv [simp, keeps_inv]: "parser_inv (mark_end_stream sid p) = parser_inv p"
  by (simp add: mark_end_stream_def split: option.splits)

lemma set_decoder_inv: "parser_inv p \<Longrightarrow> ring_inv h \<Longrightarrow> parser_inv (set_decoder m h p)"
  by (simp add: set_decoder_def upd_dir_inv)

lemma finish_block_inv [simp, keeps_inv]:
  "parser_inv p \<Longrightarrow> parser_inv (finish_block m sid u err imp p)"
  by (simp add: finish_block_def Let_def)

section \<open>Eviction\<close>

text \<open>The order in which requests are evicted, as a key: those without a response first, then by age.\<close>

definition evict_key :: "Http2Request \<Rightarrow> nat" where
  "evict_key r = (if hasResponseStatus r then 2 ^ 64 else 0) + unat (rqKernelTime r)"

lemma evictsBefore_key: "evictsBefore a b \<longleftrightarrow> evict_key a < evict_key b"
  using unsigned_less [of "rqKernelTime a", where ?'a = nat] unsigned_less [of "rqKernelTime b", where ?'a = nat]
  by (auto simp: evictsBefore_def evict_key_def word_less_nat_alt)

lemma find_victim_min:
  assumes "find_victim v rs = Some (i, r)"
  shows "(v = Some (i, r) \<or> (i, r) \<in> set rs) \<and>
    (\<forall>(j, s) \<in> set rs. evict_key r \<le> evict_key s) \<and>
    (\<forall>j s. v = Some (j, s) \<longrightarrow> evict_key r \<le> evict_key s)"
  using assms
proof (induction v rs rule: find_victim.induct)
  case (2 v j s rs)
  define v' where "v' = (case v of None \<Rightarrow> Some (j, s)
      | Some (vi, vr) \<Rightarrow> if evictsBefore s vr then Some (j, s) else v)"
  from 2 have "(v' = Some (i, r) \<or> (i, r) \<in> set rs) \<and> (\<forall>(j, s) \<in> set rs. evict_key r \<le> evict_key s) \<and>
      (\<forall>j s. v' = Some (j, s) \<longrightarrow> evict_key r \<le> evict_key s)"
    by (simp add: v'_def)
  then show ?case
    by (auto simp: v'_def evictsBefore_key split: option.splits if_splits prod.splits)
qed simp

lemma find_victim_None: "find_victim v rs = None \<longleftrightarrow> v = None \<and> rs = []"
  by (induction v rs rule: find_victim.induct) (auto split: option.splits if_splits)

lemma evictOldestRequest_sel [simp]:
  "client (evictOldestRequest p) = client p" "server (evictOldestRequest p) = server p"
  "statuses (evictOldestRequest p) = statuses p" "grpcStatuses (evictOldestRequest p) = grpcStatuses p"
  by (simp_all add: evictOldestRequest_def split: option.splits)

lemma evictOldestRequest_requests:
  assumes "activeRequests p \<noteq> []"
  obtains i r where "(i, r) \<in> set (activeRequests p)"
    "\<forall>(j, s) \<in> set (activeRequests p). evict_key r \<le> evict_key s"
    "activeRequests (evictOldestRequest p) = AList.delete i (activeRequests p)"
proof -
  from assms find_victim_None [of None "activeRequests p"] obtain i r where
    v: "find_victim None (activeRequests p) = Some (i, r)" by fastforce
  with find_victim_min [OF v] show thesis
    by (intro that) (auto simp: evictOldestRequest_def)
qed

lemma evictOldestRequest_shorter:
  "activeRequests p \<noteq> [] \<Longrightarrow> length (activeRequests (evictOldestRequest p)) < length (activeRequests p)"
  by (erule evictOldestRequest_requests) (auto intro!: length_delete_less simp: image_iff Bex_def)

lemma evictOldestRequest_distinct:
  "distinct (map fst (activeRequests p)) \<Longrightarrow> distinct (map fst (activeRequests (evictOldestRequest p)))"
  by (simp add: evictOldestRequest_def distinct_delete split: option.splits)

lemma track_request_inv [keeps_inv]:
  assumes "parser_inv p"
  shows "parser_inv (track_request sid req p)"
proof -
  define p1 where "p1 = (if length (activeRequests p) \<ge> maxActiveRequests then evictOldestRequest p else p)"
  have "length (activeRequests p1) < maxActiveRequests"
  proof (cases "length (activeRequests p) \<ge> maxActiveRequests")
    case True
    moreover from this have "activeRequests p \<noteq> []" by (auto simp: maxActiveRequests_def)
    ultimately show ?thesis
      using evictOldestRequest_shorter [of p] assms by (simp add: p1_def parser_inv_def requests_ok_def)
  qed (simp add: p1_def)
  then have "length (AList.update sid req (activeRequests p1)) \<le> maxActiveRequests"
    using length_update_le [of sid req "activeRequests p1"] by simp
  moreover have "distinct (map fst (activeRequests p1))" "client p1 = client p" "server p1 = server p"
    using assms by (simp_all add: p1_def parser_inv_def requests_ok_def evictOldestRequest_distinct)
  ultimately show ?thesis
    using assms unfolding track_request_def p1_def [symmetric] Let_def
    by (simp add: parser_inv_def decoders_ok_def requests_ok_def distinct_update)
qed

section \<open>Header blocks\<close>

lemma client_block_inv [panic_free, keeps_inv]:
  assumes "parser_inv p"
  shows "\<exists>p'. client_block huff sid b kt p = Some p' \<and> parser_inv p'"
proof -
  from decode_safe [of "decoder (client p)" huff b] assms obtain h fs u err where
    d: "decode huff (decoder (client p)) b = Some (h, fs, u, err)" "ring_inv h"
    by (auto simp: parser_inv_def decoders_ok_def)
  with assms show ?thesis
    by (auto simp: client_block_def Let_def set_decoder_inv track_request_inv split: prod.splits)
qed

lemma emit_server_inv: "parser_inv (fst (emit_server sid f s)) = parser_inv (fst s)"
  by (cases f; cases s) (auto simp: Let_def split: prod.splits option.splits)

lemma fold_emit_server_inv: "parser_inv (fst (fold (emit_server sid) fs s)) = parser_inv (fst s)"
  by (induction fs arbitrary: s) (simp_all add: emit_server_inv del: emit_server.simps)

lemma server_block_inv [panic_free, keeps_inv]:
  assumes "parser_inv p"
  shows "\<exists>p'. server_block huff sid es b p = Some p' \<and> parser_inv p'"
proof -
  define p2 where "p2 = (let p1 = (if map_of (activeRequests p) sid = None \<and> map_of (statuses p) sid = None
      then p\<lparr>statuses := AList.update sid 0 (statuses p)\<rparr> else p) in if es then mark_end_stream sid p1 else p1)"
  from decode_safe [of "decoder (server p)" huff b] assms obtain h fs u err where
    d: "decode huff (decoder (server p)) b = Some (h, fs, u, err)" "ring_inv h"
    by (auto simp: parser_inv_def decoders_ok_def)
  obtain p3 imp where f: "fold (emit_server sid) fs (p2, False) = (p3, imp)"
    by (cases "fold (emit_server sid) fs (p2, False)")
  have "parser_inv p2" using assms by (simp add: p2_def Let_def)
  with fold_emit_server_inv [of sid fs "(p2, False)"] f have "parser_inv p3" by simp
  with d f show ?thesis
    unfolding server_block_def Let_def p2_def by (auto simp: set_decoder_inv)
qed

lemma decodeHeaderBlock_inv [panic_free, keeps_inv]:
  "parser_inv p \<Longrightarrow> \<exists>p'. decodeHeaderBlock huff m sid es b kt p = Some p' \<and> parser_inv p'"
  by (simp add: decodeHeaderBlock_def client_block_inv server_block_inv)

section \<open>Frames\<close>

lemma extract_total [panic_free]: "\<exists>r. extractHeaderBlockFragment flags b = Some r"
  by (auto simp: extractHeaderBlockFragment_def Let_def slice_def at_def)

lemma headers_frame_inv [panic_free, keeps_inv]:
  assumes "parser_inv p"
  shows "\<exists>p'. headers_frame huff m kt h b p = Some p' \<and> parser_inv p'"
proof -
  obtain r where r: "extractHeaderBlockFragment (fFlags h) b = Some r" using extract_total by blast
  with assms show ?thesis
    by (cases r) (auto simp: headers_frame_def Let_def decodeHeaderBlock_inv)
qed

lemma continuation_frame_inv [panic_free, keeps_inv]:
  "parser_inv p \<Longrightarrow> \<exists>p'. continuation_frame huff m kt h b p = Some p' \<and> parser_inv p'"
  by (auto simp: continuation_frame_def Let_def decodeHeaderBlock_inv split: option.splits)

lemma handle_frame_inv [panic_free, keeps_inv]:
  "parser_inv p \<Longrightarrow> \<exists>p'. handle_frame huff m kt h b p = Some p' \<and> parser_inv p'"
  by (simp add: handle_frame_def data_frame_def headers_frame_inv continuation_frame_inv)

lemma frame_header_total [panic_free]: "9 \<le> length b \<Longrightarrow> \<exists>h. frame_header b = Some h"
  using be32_Some [of b] be32_Some [of "drop 5 b"] by (fastforce simp: frame_header_def)

lemma frame_round_inv [panic_free, keeps_inv]:
  assumes "parser_inv p"
  shows "\<exists>r. frame_round huff m kt p b = Some r \<and> (case r of Stop p' _ \<Rightarrow> parser_inv p' | Next p' _ \<Rightarrow> parser_inv p')"
proof (cases "length b < http2FrameHeaderLength")
  case False
  then obtain h where h: "frame_header b = Some h"
    using frame_header_total [of b] by (auto simp: http2FrameHeaderLength_def)
  have "\<exists>p'. handle_frame huff m kt h c q = Some p' \<and> parser_inv p'" if "parser_inv q" for c q
    using handle_frame_inv [OF that] by blast
  from this [of "(frame_event (http2FrameTypeName (fType h)) p)\<lparr>sawValidFrame := True\<rparr>"
      "take (fLength h) (drop 9 b)"] assms False h show ?thesis
    by (auto simp: frame_round_def Let_def http2FrameHeaderLength_def not_less)
qed (use assms in \<open>simp add: frame_round_def\<close>)

lemma frameLoop_inv [panic_free, keeps_inv]:
  "parser_inv p \<Longrightarrow> \<exists>p' rest. frameLoop huff m kt p b = Some (p', rest) \<and> parser_inv p'"
proof (induction huff m kt p b rule: frameLoop.induct)
  case (1 huff m kt p b)
  from frame_round_inv [OF "1.prems", of huff m kt b] obtain r where
    r: "frame_round huff m kt p b = Some r" "case r of Stop p' _ \<Rightarrow> parser_inv p' | Next p' _ \<Rightarrow> parser_inv p'"
    by blast
  show ?case
  proof (cases r)
    case (Stop p' rest)
    with r show ?thesis by (subst frameLoop.simps) simp
  next
    case (Next p' rest)
    with r "1.IH" [of r p' rest] show ?thesis by (subst frameLoop.simps) simp
  qed
qed

section \<open>Parse\<close>

lemma cut_frame_inv: "parser_inv p \<Longrightarrow> \<exists>r. cut_frame m missing rest p = Some r \<and> parser_inv (fst r)"
  using be32_Some [of rest]
  by (auto simp: cut_frame_def Let_def http2FrameHeaderLength_def simp del: split_paired_Ex)

lemma after_truncation_inv [panic_free, keeps_inv]:
  "parser_inv p \<Longrightarrow> \<exists>p'. after_truncation m missing rest p = Some p' \<and> parser_inv p'"
  using cut_frame_inv [of p m missing rest] by (auto simp: after_truncation_def Let_def)

lemma delete_request_inv:
  "parser_inv p \<Longrightarrow> parser_inv (p\<lparr>activeRequests := AList.delete sid (activeRequests p)\<rparr>)"
  using length_delete_le [of sid "activeRequests p"]
  by (auto simp: parser_inv_def decoders_ok_def requests_ok_def distinct_delete)

lemma filter_requests_inv:
  "parser_inv p \<Longrightarrow> parser_inv (p\<lparr>activeRequests := filter P (activeRequests p)\<rparr>)"
  by (auto simp: parser_inv_def decoders_ok_def requests_ok_def distinct_map_filter
      intro: le_trans [OF length_filter_le])

lemma collect_loop_inv:
  "parser_inv p \<Longrightarrow> parser_inv (fst (collect_loop kt rs (p, res)))"
proof (induction rs arbitrary: p res)
  case (Cons x rs)
  obtain sid r where x: "x = (sid, r)" by (cases x)
  have "parser_inv ((stage ''completed'' p)\<lparr>activeRequests := AList.delete sid (activeRequests p)\<rparr>)"
    using delete_request_inv [of "stage ''completed'' p" sid] Cons.prems by simp
  with Cons x show ?case by simp
qed simp

lemma fallback_inv: "parser_inv (fst pr) \<Longrightarrow> parser_inv (fst (fallback kt ss pr))"
  by (cases ss; cases pr) (auto simp: fallback_def delete_request_inv split: option.splits)

lemma fold_fallback_inv: "parser_inv (fst pr) \<Longrightarrow> parser_inv (fst (fold (fallback kt) ss pr))"
  by (induction ss arbitrary: pr) (simp_all add: fallback_inv)

lemma gc_inv [keeps_inv]: "parser_inv p \<Longrightarrow> parser_inv (gc kt p)"
  by (simp add: gc_def Let_def filter_requests_inv)

lemma Parse_frames_inv:
  assumes "parser_inv p"
  shows "\<exists>p' res. Parse_frames huff m b kt missing p = Some (p', res) \<and> parser_inv p'"
proof -
  from frameLoop_inv [OF assms] obtain p1 rest where
    p1: "frameLoop huff m kt p b = Some (p1, rest)" "parser_inv p1" by blast
  from after_truncation_inv [OF p1(2), of m missing rest] p1(2) obtain p2 where
    p2: "(if missing > 0 then after_truncation m missing rest p1 else Some (save_partial m rest p1)) = Some p2"
      "parser_inv p2"
    by (cases "missing > 0") (auto simp: save_partial_def)
  obtain p3 res where p3: "fold (fallback kt) (statuses p2) (collect kt p2) = (p3, res)"
    by (cases "fold (fallback kt) (statuses p2) (collect kt p2)")
  have "parser_inv (fst (collect kt p2))"
    using collect_loop_inv [OF p2(2)] by (simp add: collect_def)
  from fold_fallback_inv [OF this, of kt "statuses p2"] p3 have "parser_inv p3" by simp
  with p1 p2 p3 show ?thesis by (simp add: Parse_frames_def gc_inv)
qed

lemma skip_rest_inv:
  "parser_inv p \<Longrightarrow> (case skip_rest m b missing p of Inl p' \<Rightarrow> parser_inv p' | Inr (p', _) \<Rightarrow> parser_inv p')"
  by (simp add: skip_rest_def Let_def)

lemma prepend_partial_inv: "parser_inv p \<Longrightarrow> parser_inv (fst (prepend_partial m b p))"
  by (simp add: prepend_partial_def Let_def)

lemma Parse_inv [panic_free, keeps_inv]:
  assumes "parser_inv p"
  shows "\<exists>p' res. Parse huff m b kt missing p = Some (p', res) \<and> parser_inv p'"
proof -
  let ?p = "p\<lparr>sawValidFrame := False, statuses := [], grpcStatuses := []\<rparr>"
  have inv: "parser_inv ?p" using assms by simp
  have "\<exists>p' res. (case skip_rest m c missing ?p of
              Inl p2 \<Rightarrow> Some (p2, [])
            | Inr (p2, payload2) \<Rightarrow>
                (case prepend_partial m payload2 p2 of
                   (p3, payload3) \<Rightarrow> Parse_frames huff m payload3 kt missing p3)) = Some (p', res) \<and> parser_inv p'" for c
  proof (cases "skip_rest m c missing ?p")
    case (Inl q)
    with skip_rest_inv [OF inv, of m c missing] show ?thesis by simp
  next
    case (Inr q)
    obtain p2 c2 where q: "q = (p2, c2)" by (cases q)
    obtain p3 c3 where p3: "prepend_partial m c2 p2 = (p3, c3)" by (cases "prepend_partial m c2 p2")
    from skip_rest_inv [OF inv, of m c missing] Inr q have "parser_inv p2" by simp
    with prepend_partial_inv [of p2 m c2] p3 have "parser_inv p3" by simp
    with Parse_frames_inv Inr q p3 show ?thesis by simp
  qed
  with assms inv show ?thesis by (simp add: Parse_def Let_def)
qed

end
