(* ===== verification/Http2_Run.thy ===== *)
theory Http2_Run
  imports Http2_Inv
begin

text \<open>
  The life of an HTTP/2 parser: any sequence of events and losses. Only completed requests are
  returned, none of them stays behind, and the fallback over orphan statuses never fires.
\<close>

unbundle bit_operations_syntax

section \<open>Statuses belong to requests that have a response\<close>

text \<open>
  A status read in this call for a request the parser tracks is recorded in the request as well.
\<close>

definition statuses_ok :: "Http2Parser \<Rightarrow> bool" where
  "statuses_ok p \<longleftrightarrow>
     (\<forall>sid s r. (sid, s) \<in> set (statuses p) \<and> s > 0 \<and> map_of (activeRequests p) sid = Some r \<longrightarrow>
        hasResponseStatus r)"

lemma statuses_ok_stage [simp]: "statuses_ok (stage n p) = statuses_ok p"
  by (simp add: statuses_ok_def)

lemma statuses_ok_Nil: "statuses p = [] \<Longrightarrow> statuses_ok p"
  by (simp add: statuses_ok_def)

lemma modify_request_statuses_ok:
  "statuses_ok p \<Longrightarrow> (\<And>r. hasResponseStatus r \<Longrightarrow> hasResponseStatus (f r)) \<Longrightarrow>
     statuses_ok (modify_request sid f p)"
  by (fastforce simp: statuses_ok_def map_of_map_entry_eq split: if_splits)

lemma mark_end_stream_statuses_ok:
  "statuses_ok p \<Longrightarrow> statuses_ok (mark_end_stream sid p)"
  by (auto simp: mark_end_stream_def modify_request_statuses_ok split: option.splits)

lemma emit_server_statuses_ok:
  assumes "statuses_ok p" "emit_server sid f (p, imp) = (p', imp')"
  shows "statuses_ok p'"
proof -
  obtain name val where f: "f = (name, val)" by (cases f)
  consider "p' = p"
    | s where "p' = (let p1 = (case map_of (activeRequests p) sid of
                        None \<Rightarrow> p
                      | Some req \<Rightarrow>
                          modify_request sid (\<lambda>r. r\<lparr>rqStatus := s, hasResponseStatus := True\<rparr>)
                            (if hasResponseStatus req then p else stage ''response_status'' p)) in
              p1\<lparr>statuses := AList.update sid s (statuses p1)\<rparr>)"
    | s where "p' = (let p1 = modify_request sid (\<lambda>r. r\<lparr>rqGrpcStatus := s\<rparr>) p in
              p1\<lparr>grpcStatuses := AList.update sid s (grpcStatuses p1)\<rparr>)"
    using assms(2) unfolding f by (auto simp: Let_def split: if_splits prod.splits)
  then show ?thesis
  proof cases
    case 1
    with assms(1) show ?thesis by simp
  next
    case (2 s)
    define g where "g = (\<lambda>r :: Http2Request. r\<lparr>rqStatus := s, hasResponseStatus := True\<rparr>)"
    have st: "set (statuses p') \<subseteq> insert (sid, s) (set (statuses p))"
      using set_update_subset [of sid s "statuses p"] 2 by (auto simp: Let_def split: option.splits)
    have ar: "map_of (activeRequests p') j = (if j = sid then map_option g (map_of (activeRequests p) j)
        else map_of (activeRequests p) j)" for j
      using 2 by (auto simp: Let_def g_def map_of_map_entry_eq split: option.splits)
    show ?thesis
      unfolding statuses_ok_def
    proof (intro allI impI, elim conjE)
      fix j t r
      assume "(j, t) \<in> set (statuses p')" "0 < t" "map_of (activeRequests p') j = Some r"
      with st ar [of j] assms(1) show "hasResponseStatus r"
        unfolding statuses_ok_def g_def by (cases "j = sid") auto
    qed
  next
    case (3 s)
    with modify_request_statuses_ok [OF assms(1), of "\<lambda>r. r\<lparr>rqGrpcStatus := s\<rparr>" sid] show ?thesis
      by (simp add: statuses_ok_def Let_def)
  qed
qed

lemma fold_emit_server_statuses_ok:
  "statuses_ok p \<Longrightarrow> fold (emit_server sid) fs (p, imp) = (p', imp') \<Longrightarrow> statuses_ok p'"
proof (induction fs arbitrary: p imp)
  case (Cons f fs)
  obtain p1 imp1 where e: "emit_server sid f (p, imp) = (p1, imp1)" by (cases "emit_server sid f (p, imp)")
  from emit_server_statuses_ok [OF Cons.prems(1) e] Cons.IH Cons.prems(2) e show ?case by simp
qed simp

lemma finish_block_statuses_ok:
  "statuses_ok p \<Longrightarrow> statuses_ok (finish_block m sid u err imp p)"
  using modify_request_statuses_ok [of p "\<lambda>r. r\<lparr>PartialHeaders := True\<rparr>" sid]
  by (simp add: finish_block_def Let_def statuses_ok_def)

lemma set_decoder_statuses_ok: "statuses_ok (set_decoder m h p) = statuses_ok p"
  by (simp add: set_decoder_def statuses_ok_def)

lemma server_block_statuses_ok:
  assumes "statuses_ok p" "server_block huff sid es b p = Some p'"
  shows "statuses_ok p'"
proof -
  define p1 where "p1 = (if map_of (activeRequests p) sid = None \<and> map_of (statuses p) sid = None
      then p\<lparr>statuses := AList.update sid 0 (statuses p)\<rparr> else p)"
  define p2 where "p2 = (if es then mark_end_stream sid p1 else p1)"
  have "statuses_ok p1"
    using assms(1) set_update_subset [of sid 0 "statuses p"] by (fastforce simp: statuses_ok_def p1_def)
  then have p2: "statuses_ok p2" by (simp add: p2_def mark_end_stream_statuses_ok)
  obtain h fs u err p3 imp where
    "fold (emit_server sid) fs (p2, False) = (p3, imp)"
    "p' = finish_block MethodHttp2ServerFrames sid u err imp (set_decoder MethodHttp2ServerFrames h p3)"
    using assms(2) unfolding server_block_def p1_def [symmetric] p2_def [symmetric] Let_def
    by (auto split: bind_splits prod.splits)
  with fold_emit_server_statuses_ok [OF p2] show ?thesis
    by (auto intro!: finish_block_statuses_ok simp: set_decoder_statuses_ok)
qed

section \<open>Client events record no status\<close>

lemma track_request_statuses [simp]: "statuses (track_request sid req p) = statuses p"
  by (simp add: track_request_def Let_def)

lemma finish_block_statuses [simp]: "statuses (finish_block m sid u err imp p) = statuses p"
  by (simp add: finish_block_def Let_def)

lemma client_block_statuses: "client_block huff sid b kt p = Some p' \<Longrightarrow> statuses p' = statuses p"
  by (auto simp: client_block_def Let_def set_decoder_def split: bind_splits prod.splits if_splits)

text \<open>
  The property that a frame keeps in either direction, and the loop over the frames with it: no
  statuses in the client direction, statuses of requests with a response in the server direction.
\<close>

definition loop_ok :: "Method \<Rightarrow> Http2Parser \<Rightarrow> bool" where
  "loop_ok m p \<longleftrightarrow> (if m = MethodHttp2ServerFrames then statuses_ok p else statuses p = [])"

lemma loop_ok_sel [simp]:
  "loop_ok m (upd_dir k f p) = loop_ok m p" "loop_ok m (resetDecoder k p) = loop_ok m p"
  "loop_ok m (dropPendingHeaders k p) = loop_ok m p" "loop_ok m (frame_event n p) = loop_ok m p"
  "loop_ok m (p\<lparr>sawValidFrame := b\<rparr>) = loop_ok m p"
  by (simp_all add: loop_ok_def statuses_ok_def)

lemma loop_ok_statuses: "loop_ok m p \<Longrightarrow> statuses_ok p"
  by (simp add: loop_ok_def statuses_ok_Nil split: if_splits)

lemma decodeHeaderBlock_loop_ok:
  assumes "loop_ok m p" "decodeHeaderBlock huff m sid es b kt p = Some p'"
  shows "loop_ok m p'"
proof (cases "m = MethodHttp2ServerFrames")
  case True
  with assms server_block_statuses_ok [of p huff sid es b p'] show ?thesis
    by (simp add: decodeHeaderBlock_def loop_ok_def)
next
  case False
  with assms client_block_statuses [of huff sid b kt p p'] show ?thesis
    by (auto simp: decodeHeaderBlock_def loop_ok_def split: if_splits)
qed

lemma headers_frame_loop_ok:
  "loop_ok m p \<Longrightarrow> headers_frame huff m kt h b p = Some p' \<Longrightarrow> loop_ok m p'"
  by (auto simp: headers_frame_def Let_def split: bind_splits option.splits if_splits
      elim: decodeHeaderBlock_loop_ok [rotated])

lemma continuation_frame_loop_ok:
  "loop_ok m p \<Longrightarrow> continuation_frame huff m kt h b p = Some p' \<Longrightarrow> loop_ok m p'"
  by (auto simp: continuation_frame_def Let_def split: option.splits if_splits
      elim: decodeHeaderBlock_loop_ok [rotated])

lemma handle_frame_loop_ok:
  "loop_ok m p \<Longrightarrow> handle_frame huff m kt h b p = Some p' \<Longrightarrow> loop_ok m p'"
  by (auto simp: handle_frame_def data_frame_def loop_ok_def mark_end_stream_statuses_ok
      split: if_splits dest: headers_frame_loop_ok [rotated] continuation_frame_loop_ok [rotated])

lemma frame_round_loop_ok:
  assumes "loop_ok m p" "frame_round huff m kt p b = Some r"
  shows "case r of Stop p' _ \<Rightarrow> loop_ok m p' | Next p' _ \<Rightarrow> loop_ok m p'"
proof -
  have "loop_ok m ((frame_event n p)\<lparr>sawValidFrame := True\<rparr>)" for n
    using assms(1) by simp
  from assms handle_frame_loop_ok [OF this] show ?thesis
    by (auto simp: frame_round_def Let_def split: if_splits bind_splits)
qed

lemma frameLoop_loop_ok:
  "loop_ok m p \<Longrightarrow> frameLoop huff m kt p b = Some (p', rest) \<Longrightarrow> loop_ok m p'"
proof (induction huff m kt p b rule: frameLoop.induct)
  case (1 huff m kt p b)
  show ?case
  proof (cases "frame_round huff m kt p b")
    case None
    with "1.prems"(2) show ?thesis by (simp add: frameLoop_None)
  next
    case (Some r)
    note ok = frame_round_loop_ok [OF "1.prems"(1) Some]
    show ?thesis
    proof (cases r)
      case (Stop p1 rest1)
      with Some ok "1.prems"(2) show ?thesis by (simp add: frameLoop_Stop)
    next
      case (Next p1 rest1)
      with Some ok "1.prems"(2) have "frameLoop huff m kt p1 rest1 = Some (p', rest)" "loop_ok m p1"
        by (simp_all add: frameLoop_Next)
      with "1.IH" [OF Some Next] show ?thesis by simp
    qed
  qed
qed

section \<open>Collecting\<close>

definition none_complete :: "Http2Parser \<Rightarrow> bool" where
  "none_complete p \<longleftrightarrow> (\<forall>i r. (i, r) \<in> set (activeRequests p) \<longrightarrow> \<not> complete_request r)"

definition result_ok :: "Http2Request \<Rightarrow> bool" where
  "result_ok r \<longleftrightarrow> complete_request r \<and> rqDuration r < hour"

lemma safeKernelDuration_hour: "safeKernelDuration a b < hour"
  by (auto simp: safeKernelDuration_def Let_def hour_def not_le)

lemma finish_request_ok: "complete_request r \<Longrightarrow> result_ok (finish_request kt gs sid r)"
  by (simp add: result_ok_def finish_request_def complete_request_def safeKernelDuration_hour)

lemma collect_loop_sel [simp]:
  "statuses (fst (collect_loop kt rs (p, res))) = statuses p"
  "client (fst (collect_loop kt rs (p, res))) = client p"
  "server (fst (collect_loop kt rs (p, res))) = server p"
  "grpcStatuses (fst (collect_loop kt rs (p, res))) = grpcStatuses p"
  "lastGcTime (fst (collect_loop kt rs (p, res))) = lastGcTime p"
  by (induction rs arbitrary: p res) auto

lemma collect_loop_requests:
  "activeRequests (fst (collect_loop kt rs (p, res))) =
     filter (\<lambda>a. fst a \<notin> fst ` {x \<in> set rs. complete_request (snd x)}) (activeRequests p)"
proof (induction rs arbitrary: p res)
  case (Cons x rs)
  obtain sid r where x: "x = (sid, r)" by (cases x)
  have "filter (\<lambda>a. fst a \<notin> A) (AList.delete sid xs) = filter (\<lambda>a. fst a \<noteq> sid \<and> fst a \<notin> A) xs"
    for A and xs :: "(nat \<times> Http2Request) list"
    by (induction xs) auto
  moreover have "fst ` {y \<in> set (x # rs). complete_request (snd y)} =
      (if complete_request r then insert sid else id) (fst ` {y \<in> set rs. complete_request (snd y)})"
    using x by force
  ultimately show ?case using Cons.IH x by simp
qed simp

lemma collect_loop_results:
  "snd (collect_loop kt rs (p, res)) =
     res @ map (\<lambda>(sid, r). finish_request kt (grpcStatuses p) sid r) (filter (complete_request \<circ> snd) rs)"
  by (induction rs arbitrary: p res) auto

lemma collect_requests:
  assumes "distinct (map fst (activeRequests p))"
  shows "activeRequests (fst (collect kt p)) = filter (Not \<circ> complete_request \<circ> snd) (activeRequests p)"
proof -
  have "(fst x \<notin> fst ` {y \<in> set (activeRequests p). complete_request (snd y)})
      = (Not \<circ> complete_request \<circ> snd) x" if x: "x \<in> set (activeRequests p)" for x
  proof -
    have same: "y = x" if "y \<in> set (activeRequests p)" "fst y = fst x" for y
      using that x assms by (auto simp: distinct_map inj_on_def)
    show ?thesis
    proof (cases "complete_request (snd x)")
      case True
      with x show ?thesis by auto
    next
      case False
      with same show ?thesis by fastforce
    qed
  qed
  then show ?thesis
    unfolding collect_def collect_loop_requests by (intro filter_cong) auto
qed

lemma collect_results:
  "snd (collect kt p) =
     map (\<lambda>(sid, r). finish_request kt (grpcStatuses p) sid r)
       (filter (complete_request \<circ> snd) (activeRequests p))"
  by (simp add: collect_def collect_loop_results)

lemma map_of_filter_snd:
  "distinct (map fst xs) \<Longrightarrow> map_of (filter (P \<circ> snd) xs) k = Some r \<Longrightarrow> map_of xs k = Some r"
  by (induction xs) (auto split: if_splits simp: map_of_eq_None_iff rev_image_eqI dest: map_of_SomeD)

text \<open>The fallback: with \<open>statuses_ok\<close> none of its branches changes anything.\<close>

lemma fallback_dead:
  assumes "s > 0 \<longrightarrow> (\<forall>r. map_of (activeRequests p) sid = Some r \<longrightarrow> hasResponseStatus r)"
  shows "fallback kt (sid, s) (p, res) = (p, res)"
  using assms by (auto simp: fallback_def split: option.splits)

lemma fold_fallback_dead:
  "(\<forall>sid s r. (sid, s) \<in> set ss \<and> s > 0 \<and> map_of (activeRequests p) sid = Some r \<longrightarrow> hasResponseStatus r) \<Longrightarrow>
     fold (fallback kt) ss (p, res) = (p, res)"
proof (induction ss)
  case (Cons x ss)
  obtain sid s where "x = (sid, s)" by (cases x)
  moreover from this Cons.prems have "fallback kt (sid, s) (p, res) = (p, res)"
    by (intro fallback_dead) auto
  ultimately show ?case using Cons by auto
qed simp

lemma fallback_never_fires:
  assumes "distinct (map fst (activeRequests p))" "statuses_ok p"
  shows "fold (fallback kt) (statuses p) (collect kt p) = collect kt p"
proof -
  have a: "activeRequests (fst (collect kt p)) = filter ((Not \<circ> complete_request) \<circ> snd) (activeRequests p)"
    using collect_requests [OF assms(1)] by (simp add: comp_assoc)
  have "\<forall>sid s r. (sid, s) \<in> set (statuses p) \<and> s > 0 \<and>
      map_of (activeRequests (fst (collect kt p))) sid = Some r \<longrightarrow> hasResponseStatus r"
    unfolding a using assms(2) map_of_filter_snd [OF assms(1)] unfolding statuses_ok_def by blast
  from fold_fallback_dead [OF this, of kt "snd (collect kt p)"] show ?thesis by simp
qed

section \<open>Runs\<close>

lemma gc_requests: "set (activeRequests (gc kt p)) \<subseteq> set (activeRequests p)"
  by (auto simp: gc_def Let_def)

lemma after_truncation_sel:
  "after_truncation m missing rest p = Some p' \<Longrightarrow> activeRequests p' = activeRequests p \<and> statuses p' = statuses p"
  by (auto simp: after_truncation_def cut_frame_def Let_def split: bind_splits if_splits prod.splits)

lemma save_partial_sel [simp]:
  "activeRequests (save_partial m rest p) = activeRequests p" "statuses (save_partial m rest p) = statuses p"
  "grpcStatuses (save_partial m rest p) = grpcStatuses p"
  by (simp_all add: save_partial_def)

lemma Parse_frames_results:
  assumes "parser_inv p" "loop_ok m p" "Parse_frames huff m b kt missing p = Some (p', res)"
  shows "none_complete p' \<and> (\<forall>r \<in> set res. result_ok r)"
proof -
  from frameLoop_inv [OF assms(1), of huff m kt b] obtain p1 rest where
    p1: "frameLoop huff m kt p b = Some (p1, rest)" "parser_inv p1" by blast
  note ok1 = frameLoop_loop_ok [OF assms(2) p1(1)]
  from assms(3) p1 obtain p2 where
    p2: "(if missing > 0 then after_truncation m missing rest p1 else Some (save_partial m rest p1)) = Some p2"
    and res: "(p', res) = (case fold (fallback kt) (statuses p2) (collect kt p2) of (p3, res) \<Rightarrow> (gc kt p3, res))"
    by (auto simp: Parse_frames_def split: bind_splits prod.splits)
  have sel: "activeRequests p2 = activeRequests p1" "statuses p2 = statuses p1"
    using p2 after_truncation_sel by (auto split: if_splits)
  have d: "distinct (map fst (activeRequests p2))"
    using p1(2) sel by (simp add: parser_inv_def requests_ok_def)
  have "statuses_ok p2" using loop_ok_statuses [OF ok1] sel by (simp add: statuses_ok_def)
  from fallback_never_fires [OF d this, of kt] res
  have p': "p' = gc kt (fst (collect kt p2))" "res = snd (collect kt p2)"
    by (auto split: prod.splits)
  have "none_complete p'"
    using gc_requests [of kt "fst (collect kt p2)"] collect_requests [OF d, of kt] p'
    by (auto simp: none_complete_def)
  moreover have "\<forall>r \<in> set res. result_ok r"
    unfolding p' collect_results by (auto simp: finish_request_ok)
  ultimately show ?thesis by blast
qed

lemma skip_rest_requests:
  "case skip_rest m b missing p of
     Inl p' \<Rightarrow> activeRequests p' = activeRequests p
   | Inr (p', _) \<Rightarrow> activeRequests p' = activeRequests p \<and> statuses p' = statuses p"
  by (simp add: skip_rest_def Let_def)

lemma prepend_partial_requests:
  "activeRequests (fst (prepend_partial m b p)) = activeRequests p \<and>
   statuses (fst (prepend_partial m b p)) = statuses p"
  by (simp add: prepend_partial_def Let_def)

lemma Parse_results:
  assumes "parser_inv p" "none_complete p" "Parse huff m b kt missing p = Some (p', res)"
  shows "none_complete p' \<and> (\<forall>r \<in> set res. result_ok r)"
proof -
  define c where "c = strip_preface m b"
  define q where "q = p\<lparr>sawValidFrame := False, statuses := [], grpcStatuses := []\<rparr>"
  have q: "parser_inv q" "none_complete q" "activeRequests q = activeRequests p" "statuses q = []"
    using assms by (simp_all add: q_def none_complete_def)
  show ?thesis
  proof (cases "c = [] \<or> m \<noteq> MethodHttp2ClientFrames \<and> m \<noteq> MethodHttp2ServerFrames")
    case True
    with assms(3) have "activeRequests p' = activeRequests p" "res = []"
      by (auto simp: Parse_def Let_def c_def split: if_splits)
    with assms(2) show ?thesis by (simp add: none_complete_def)
  next
    case False
    then have P: "(case skip_rest m c missing q of
              Inl p2 \<Rightarrow> Some (p2, [])
            | Inr (p2, payload2) \<Rightarrow>
                (case prepend_partial m payload2 p2 of
                   (p3, payload3) \<Rightarrow> Parse_frames huff m payload3 kt missing p3)) = Some (p', res)"
      using assms(3) by (auto simp: Parse_def Let_def c_def q_def)
    show ?thesis
    proof (cases "skip_rest m c missing q")
      case (Inl p2)
      with P skip_rest_requests [of q m c missing] q show ?thesis by (simp add: none_complete_def)
    next
      case (Inr x)
      obtain p2 c2 where x: "x = (p2, c2)" by (cases x)
      obtain p3 c3 where p3: "prepend_partial m c2 p2 = (p3, c3)" by (cases "prepend_partial m c2 p2")
      have "parser_inv p3"
        using skip_rest_inv [OF q(1), of m c missing] prepend_partial_inv [of p2 m c2] Inr x p3 by simp
      moreover have "loop_ok m p3"
        using skip_rest_requests [of q m c missing] prepend_partial_requests [of m c2 p2] Inr x p3 q
        by (simp add: loop_ok_def statuses_ok_Nil)
      moreover have "Parse_frames huff m c3 kt missing p3 = Some (p', res)"
        using P Inr x p3 by simp
      ultimately show ?thesis by (rule Parse_frames_results)
    qed
  qed
qed

datatype http2_op = ParseOp Method bytes u64 u64 | LostOp u8

text \<open>One event of the connection; the results are appended to those returned so far.\<close>

fun http2_step ::
  "(bytes \<Rightarrow> string option) \<Rightarrow> http2_op \<Rightarrow> Http2Parser \<times> Http2Request list
     \<Rightarrow> (Http2Parser \<times> Http2Request list) option" where
  "http2_step huff (ParseOp m b kt missing) (p, acc) =
     map_option (\<lambda>(p', res). (p', acc @ res)) (Parse huff m b kt missing p)"
| "http2_step huff (LostOp lost) (p, acc) = Some (Lost lost p, acc)"

definition connection_inv :: "Http2Parser \<times> Http2Request list \<Rightarrow> bool" where
  "connection_inv s \<longleftrightarrow>
     parser_inv (fst s) \<and> none_complete (fst s) \<and> (\<forall>r \<in> set (snd s). result_ok r)"

lemma Lost_requests [simp]: "activeRequests (Lost lost p) = activeRequests p"
  by (simp add: Lost_def lost_direction_def Let_def)

interpretation connection: safe_component "http2_step huff" connection_inv for huff
proof
  fix s and e :: http2_op
  assume inv: "connection_inv s"
  obtain p acc where s: "s = (p, acc)" by (cases s)
  show "\<exists>s'. http2_step huff e s = Some s' \<and> connection_inv s'"
  proof (cases e)
    case (ParseOp m b kt missing)
    from inv s have p: "parser_inv p" "none_complete p" by (simp_all add: connection_inv_def)
    from Parse_inv [OF p(1), of huff m b kt missing] obtain p' res where
      r: "Parse huff m b kt missing p = Some (p', res)" "parser_inv p'" by blast
    from inv s have "\<forall>r \<in> set acc. result_ok r" by (simp add: connection_inv_def)
    with Parse_results [OF p r(1)] r(2) have "connection_inv (p', acc @ res)"
      by (simp add: connection_inv_def ball_Un)
    with r(1) s ParseOp show ?thesis by simp
  next
    case (LostOp lost)
    with inv s show ?thesis by (simp add: connection_inv_def none_complete_def)
  qed
qed

end
