(* ===== verification/Http2_Split.thy ===== *)
theory Http2_Split
  imports Http2_Run
begin

text \<open>
  Where a byte stream is cut into reads does not matter to the frame loop: running it on the first
  part, keeping the incomplete frame at its end, and running it on that followed by the second part
  gives the parser that one run over the whole gives, up to the callbacks made (a frame that is cut
  is counted when its header is seen and again when it is complete).
\<close>

unbundle bit_operations_syntax

section \<open>Parsers that differ in their trace only\<close>

definition same :: "Http2Parser \<Rightarrow> Http2Parser \<Rightarrow> bool" where
  "same p q \<longleftrightarrow> p\<lparr>trace := []\<rparr> = q\<lparr>trace := []\<rparr>"

lemma same_refl [simp]: "same p p"
  by (simp add: same_def)

lemma same_sym: "same p q \<Longrightarrow> same q p"
  by (simp add: same_def)

lemma same_trans [trans]: "same p q \<Longrightarrow> same q r \<Longrightarrow> same p r"
  by (simp add: same_def)

lemma same_trace: "same p q \<longleftrightarrow> q = p\<lparr>trace := trace q\<rparr>"
  by (cases p; cases q) (auto simp: same_def)

lemma sameE:
  assumes "same p q"
  obtains t where "q = p\<lparr>trace := t\<rparr>"
  using assms same_trace that by blast

lemma same_trace_upd [simp]: "same p (p\<lparr>trace := t\<rparr>)" "same (p\<lparr>trace := t\<rparr>) p"
  by (simp_all add: same_def)

lemma same_stage: "same p q \<Longrightarrow> same (stage n p) (stage k q)"
  by (erule sameE) (simp add: same_def stage_def)

lemma same_frame_event: "same p q \<Longrightarrow> same (frame_event n p) (frame_event k q)"
  by (erule sameE) (simp add: same_def frame_event_def)

lemma same_upd_dir: "same p q \<Longrightarrow> same (upd_dir m f p) (upd_dir m f q)"
  by (erule sameE) (simp add: same_def upd_dir_def)

lemma same_resetDecoder: "same p q \<Longrightarrow> same (resetDecoder m p) (resetDecoder m q)"
  by (simp add: resetDecoder_def same_upd_dir)

lemma same_dropPendingHeaders: "same p q \<Longrightarrow> same (dropPendingHeaders m p) (dropPendingHeaders m q)"
proof -
  assume s: "same p q"
  then have "pendingHeaders (dir_of m p) = pendingHeaders (dir_of m q)"
    by (auto elim!: sameE simp: dir_of_def)
  with s show ?thesis
    by (simp add: dropPendingHeaders_def same_resetDecoder same_upd_dir)
qed

lemma same_modify: "same p q \<Longrightarrow> same (modify_request sid f p) (modify_request sid f q)"
  by (erule sameE) (simp add: same_def modify_request_def)

lemma same_active: "same p q \<Longrightarrow> activeRequests q = activeRequests p"
  by (erule sameE) simp

lemma same_dir_of: "same p q \<Longrightarrow> dir_of m q = dir_of m p"
  by (erule sameE) (simp add: dir_of_def)

lemmas same_sel = same_active same_dir_of

lemma same_statuses_upd: "same p q \<Longrightarrow> same (p\<lparr>statuses := x\<rparr>) (q\<lparr>statuses := x\<rparr>)"
  by (erule sameE) (simp add: same_def)

lemma same_grpc_upd: "same p q \<Longrightarrow> same (p\<lparr>grpcStatuses := x\<rparr>) (q\<lparr>grpcStatuses := x\<rparr>)"
  by (erule sameE) (simp add: same_def)

lemma same_active_upd: "same p q \<Longrightarrow> same (p\<lparr>activeRequests := x\<rparr>) (q\<lparr>activeRequests := x\<rparr>)"
  by (erule sameE) (simp add: same_def)

lemma same_statuses: "same p q \<Longrightarrow> statuses q = statuses p \<and> grpcStatuses q = grpcStatuses p"
  by (erule sameE) simp

lemma same_mark: "same p q \<Longrightarrow> same (mark_end_stream sid p) (mark_end_stream sid q)"
  by (auto simp: mark_end_stream_def same_active same_modify same_stage split: option.splits)

lemma same_evict: "same p q \<Longrightarrow> same (evictOldestRequest p) (evictOldestRequest q)"
  by (auto simp: evictOldestRequest_def same_active same_stage same_active_upd split: option.splits)

lemma same_track:
  assumes "same p q"
  shows "same (track_request sid r p) (track_request sid r q)"
proof -
  define f where "f x = (if length (activeRequests x) \<ge> maxActiveRequests then evictOldestRequest x else x)" for x
  have "same (f p) (f q)" using assms by (simp add: f_def same_active same_evict)
  then show ?thesis
    unfolding track_request_def Let_def f_def [symmetric]
    by (simp add: same_active same_stage same_active_upd)
qed

lemma same_finish: "same p q \<Longrightarrow> same (finish_block m sid u e i p) (finish_block m sid u e i q)"
proof -
  assume "same p q"
  moreover define f where "f x = (if e \<noteq> None \<or> u > 0 \<or> i
      then modify_request sid (\<lambda>r. r\<lparr>PartialHeaders := True\<rparr>) x else x)" for x
  ultimately have s: "same (f p) (f q)" by (simp add: same_modify)
  then have "same ((f p)\<lparr>trace := trace (f p) @ [HPACKDecodeError]\<rparr>) ((f q)\<lparr>trace := trace (f q) @ [HPACKDecodeError]\<rparr>)"
    by (simp add: same_def)
  with s show ?thesis
    unfolding finish_block_def Let_def f_def [symmetric]
    by (simp add: same_resetDecoder same_stage)
qed

lemma same_set_decoder: "same p q \<Longrightarrow> same (set_decoder m h p) (set_decoder m h q)"
  by (simp add: set_decoder_def same_upd_dir)

lemma same_decoder: "same p q \<Longrightarrow> client q = client p \<and> server q = server p"
  by (erule sameE) simp

lemma same_client_block:
  assumes "same p q" "client_block huff sid b kt p = Some p'"
  shows "\<exists>q'. client_block huff sid b kt q = Some q' \<and> same p' q'"
  using assms same_decoder [OF assms(1)] same_active [OF assms(1)]
  by (fastforce simp: client_block_def Let_def same_finish same_modify same_set_decoder same_track
      split: bind_splits prod.splits)

lemma same_emit_server:
  assumes "same p q"
  shows "same (fst (emit_server sid f (p, i))) (fst (emit_server sid f (q, i))) \<and>
    snd (emit_server sid f (p, i)) = snd (emit_server sid f (q, i))"
proof -
  obtain n v where f: "f = (n, v)" by (cases f)
  define g where "g x s = (case map_of (activeRequests x) sid of
                        None \<Rightarrow> x
                      | Some req \<Rightarrow>
                          modify_request sid (\<lambda>r. r\<lparr>rqStatus := s, hasResponseStatus := True\<rparr>)
                            (if hasResponseStatus req then x else stage ''response_status'' x))" for x s
  have g: "same (g p s) (g q s)" for s
    using assms by (auto simp: g_def same_active same_modify same_stage split: option.splits)
  have h: "same (modify_request sid F p) (modify_request sid F q)" for F
    using assms by (rule same_modify)
  have "same ((g p s)\<lparr>statuses := AList.update sid s (statuses (g p s))\<rparr>)
      ((g q s)\<lparr>statuses := AList.update sid s (statuses (g q s))\<rparr>)" for s
    using g same_statuses [OF g] by (simp add: same_statuses_upd)
  moreover have "same ((modify_request sid F p)\<lparr>grpcStatuses := AList.update sid s (grpcStatuses p)\<rparr>)
      ((modify_request sid F q)\<lparr>grpcStatuses := AList.update sid s (grpcStatuses q)\<rparr>)" for F s
    using h same_statuses [OF assms] by (simp add: same_grpc_upd)
  ultimately show ?thesis
    using assms unfolding f emit_server.simps g_def [symmetric] Let_def
    by (auto split: prod.splits)
qed

lemma same_fold_emit_server:
  "same p q \<Longrightarrow> same (fst (fold (emit_server sid) fs (p, i))) (fst (fold (emit_server sid) fs (q, i))) \<and>
    snd (fold (emit_server sid) fs (p, i)) = snd (fold (emit_server sid) fs (q, i))"
proof (induction fs arbitrary: p q i)
  case (Cons f fs)
  obtain p1 i1 q1 where e: "emit_server sid f (p, i) = (p1, i1)" "emit_server sid f (q, i) = (q1, i1)" "same p1 q1"
    using same_emit_server [OF Cons.prems, of sid f i]
    by (cases "emit_server sid f (p, i)"; cases "emit_server sid f (q, i)") auto
  with Cons.IH [OF e(3), of i1] show ?case by simp
qed simp

lemma same_server_block:
  assumes "same p q" "server_block huff sid es b p = Some p'"
  shows "\<exists>q'. server_block huff sid es b q = Some q' \<and> same p' q'"
proof -
  define f where "f x = (if map_of (activeRequests x) sid = None \<and> map_of (statuses x) sid = None
                then x\<lparr>statuses := AList.update sid 0 (statuses x)\<rparr> else x)" for x :: Http2Parser
  define g where "g x = (if es then mark_end_stream sid (f x) else f x)" for x
  have "same (f p) (f q)"
    using assms(1) same_statuses [OF assms(1)] by (simp add: f_def same_active same_statuses_upd)
  then have "same (g p) (g q)" by (simp add: g_def same_mark)
  note fold = same_fold_emit_server [OF this]
  obtain h fs u err p3 i where p: "decode huff (decoder (server p)) b = Some (h, fs, u, err)"
      "fold (emit_server sid) fs (g p, False) = (p3, i)"
      "p' = finish_block MethodHttp2ServerFrames sid u err i (set_decoder MethodHttp2ServerFrames h p3)"
    using assms(2) unfolding server_block_def Let_def f_def [symmetric] g_def [symmetric]
    by (auto split: bind_splits prod.splits)
  obtain q3 where q: "fold (emit_server sid) fs (g q, False) = (q3, i)" "same p3 q3"
    using fold [of sid fs False] p(2) by (cases "fold (emit_server sid) fs (g q, False)") auto
  with p same_decoder [OF assms(1)] show ?thesis
    unfolding server_block_def Let_def f_def [symmetric] g_def [symmetric]
    by (simp add: same_finish same_set_decoder)
qed

lemma same_decodeHeaderBlock:
  assumes "same p q" "decodeHeaderBlock huff m sid es b kt p = Some p'"
  shows "\<exists>q'. decodeHeaderBlock huff m sid es b kt q = Some q' \<and> same p' q'"
  using assms same_client_block [OF assms(1)] same_server_block [OF assms(1)]
  by (auto simp: decodeHeaderBlock_def split: if_splits)

lemma same_headers_frame:
  assumes "same p q" "headers_frame huff m kt h b p = Some p'"
  shows "\<exists>q'. headers_frame huff m kt h b q = Some q' \<and> same p' q'"
proof -
  have s: "same (dropPendingHeaders m p) (dropPendingHeaders m q)"
    using assms(1) by (rule same_dropPendingHeaders)
  from assms(2) same_decodeHeaderBlock [OF s] show ?thesis
    by (auto simp: headers_frame_def Let_def same_resetDecoder [OF s] same_upd_dir [OF s]
        split: bind_splits option.splits if_splits)
qed

lemma same_continuation_frame:
  assumes "same p q" "continuation_frame huff m kt h b p = Some p'"
  shows "\<exists>q'. continuation_frame huff m kt h b q = Some q' \<and> same p' q'"
proof -
  have s: "same (upd_dir m f p) (upd_dir m f q)" for f
    using assms(1) by (rule same_upd_dir)
  from assms(2) same_decodeHeaderBlock [OF s] show ?thesis
    by (auto simp: continuation_frame_def Let_def same_dir_of [OF assms(1)] s
        same_resetDecoder same_dropPendingHeaders [OF assms(1)] split: option.splits if_splits)
qed

lemma same_handle_frame:
  assumes "same p q" "handle_frame huff m kt h b p = Some p'"
  shows "\<exists>q'. handle_frame huff m kt h b q = Some q' \<and> same p' q'"
  using assms same_headers_frame [OF assms(1)] same_continuation_frame [OF assms(1)]
  by (auto simp: handle_frame_def data_frame_def same_mark split: if_splits)

section \<open>The split\<close>

text \<open>
  Streams whose frames have registered types (up to \<open>0x10\<close>); a frame of another type makes the
  loop drop the rest of the payload, which depends on where the payload ends.
\<close>

function known_types :: "bytes \<Rightarrow> bool" where
  "known_types b =
     (if length b < 9 then True
      else case frame_header b of
        None \<Rightarrow> True
      | Some h \<Rightarrow> fType h \<le> 0x10 \<and> (length b < 9 + fLength h \<or> known_types (drop (9 + fLength h) b)))"
  by pat_completeness auto
termination
  by (relation "measure length") auto

declare known_types.simps [simp del]

lemma be32_append: "4 \<le> length b \<Longrightarrow> be32 (b @ c) = be32 b"
  by (cases b rule: be32.cases) auto

lemma frame_header_append: "9 \<le> length b \<Longrightarrow> frame_header (b @ c) = frame_header b"
  by (simp add: frame_header_def be32_append nth_append)

lemma frame_header_len: "frame_header b = Some h \<Longrightarrow> fLength h < 2 ^ 24"
  by (auto simp: frame_header_def split: bind_splits dest!: be32_bound)

text \<open>A round on a complete header of a registered type, by whether the frame is complete.\<close>

definition seen :: "Http2FrameHeader \<Rightarrow> Http2Parser \<Rightarrow> Http2Parser" where
  "seen h p =
     (frame_event (if fType h > 9 then ''extension'' else http2FrameTypeName (fType h)) p)
       \<lparr>sawValidFrame := True\<rparr>"

definition handle_any ::
  "(bytes \<Rightarrow> string option) \<Rightarrow> Method \<Rightarrow> u64 \<Rightarrow> Http2FrameHeader \<Rightarrow> bytes \<Rightarrow> Http2Parser
     \<Rightarrow> Http2Parser option" where
  "handle_any huff m kt h b p = (if fType h > 9 then Some p else handle_frame huff m kt h b p)"

lemma frame_round_known:
  assumes "9 \<le> length b" "frame_header b = Some h" "fType h \<le> 0x10"
  shows "frame_round huff m kt p b =
    (if length b < 9 + fLength h then Some (Stop (seen h p) b)
     else map_option (\<lambda>p'. Next p' (drop (9 + fLength h) b))
            (handle_any huff m kt h (take (fLength h) (drop 9 b)) (seen h p)))"
proof -
  have "\<not> fLength h > 16777216" using frame_header_len [OF assms(2)] by simp
  moreover have "\<not> fType h > 0x10" using assms(3) by simp
  moreover have "(length b - 9 < fLength h) = (length b < 9 + fLength h)" using assms(1) by auto
  ultimately show ?thesis
    using assms
    by (auto simp: frame_round_def http2FrameHeaderLength_def Let_def seen_def handle_any_def
        add.commute map_option_case split: option.splits)
qed

lemma same_saw_upd: "same p q \<Longrightarrow> same (p\<lparr>sawValidFrame := x\<rparr>) (q\<lparr>sawValidFrame := x\<rparr>)"
  by (erule sameE) (simp add: same_def)

lemma same_seen: "same p q \<Longrightarrow> same (seen h p) (seen h q)"
  by (simp add: seen_def same_frame_event same_saw_upd)

lemma seen_seen: "same (seen h (seen h p)) (seen h p)"
  by (simp add: seen_def frame_event_def same_def)

lemma same_handle_any:
  assumes "same p q" "handle_any huff m kt h b p = Some p'"
  shows "\<exists>q'. handle_any huff m kt h b q = Some q' \<and> same p' q'"
  using assms same_handle_frame [OF assms(1)] by (auto simp: handle_any_def split: if_splits)

text \<open>The loop does not look at the trace.\<close>

lemma frame_round_short: "length b < 9 \<Longrightarrow> frame_round huff m kt p b = Some (Stop p b)"
  by (simp add: frame_round_def http2FrameHeaderLength_def)

lemma same_frame_round:
  assumes "same p q" "frame_round huff m kt p b = Some r"
  shows "\<exists>r'. frame_round huff m kt q b = Some r' \<and>
    (case (r, r') of
       (Stop p' c, Stop q' c') \<Rightarrow> same p' q' \<and> c' = c
     | (Next p' c, Next q' c') \<Rightarrow> same p' q' \<and> c' = c
     | _ \<Rightarrow> False)"
proof (cases "length b < 9")
  case True
  with assms show ?thesis by (auto simp: frame_round_short)
next
  case False
  then obtain h where h: "frame_header b = Some h" using frame_header_total [of b] by auto
  show ?thesis
  proof (cases "fType h \<le> 0x10")
    case True
    from False have "9 \<le> length b" by simp
    from frame_round_known [OF this h True, of huff m kt] assms same_seen [OF assms(1), of h]
      same_handle_any [OF same_seen [OF assms(1), of h]]
    show ?thesis by (fastforce split: if_splits)
  next
    case type: False
    then have "\<not> (fType h > 9 \<and> fType h \<le> 0x10)" "fType h > 0x10" by auto
    with False h assms same_frame_event [OF assms(1), of "''invalid''" "''invalid''"] show ?thesis
      by (auto simp: frame_round_def http2FrameHeaderLength_def split: if_splits)
  qed
qed

lemma same_frameLoop:
  "same p q \<Longrightarrow> frameLoop huff m kt p b = Some (p', c) \<Longrightarrow>
     \<exists>q'. frameLoop huff m kt q b = Some (q', c) \<and> same p' q'"
proof (induction huff m kt p b arbitrary: q rule: frameLoop.induct)
  case (1 huff m kt p b)
  show ?case
  proof (cases "frame_round huff m kt p b")
    case None
    with "1.prems"(2) show ?thesis by (simp add: frameLoop_None)
  next
    case (Some r)
    from same_frame_round [OF "1.prems"(1) Some] obtain r' where
      r': "frame_round huff m kt q b = Some r'"
        "case (r, r') of (Stop p' c, Stop q' c') \<Rightarrow> same p' q' \<and> c' = c
          | (Next p' c, Next q' c') \<Rightarrow> same p' q' \<and> c' = c | _ \<Rightarrow> False"
      by blast
    show ?thesis
    proof (cases r)
      case (Stop p1 c1)
      with Some r' "1.prems"(2) show ?thesis
        by (auto simp: frameLoop_Stop split: frame_result.splits)
    next
      case (Next p1 c1)
      with r' obtain q1 where q1: "r' = Next q1 c1" "same p1 q1"
        by (auto split: frame_result.splits)
      with Some Next r' "1.prems"(2) "1.IH" [OF Some Next q1(2)] show ?thesis
        by (simp add: frameLoop_Next)
    qed
  qed
qed

text \<open>A frame whose start was seen before is handled as if it had not been.\<close>

lemma frameLoop_seen:
  assumes "9 \<le> length b" "frame_header b = Some h" "fType h \<le> 0x10"
    and "frameLoop huff m kt p b = Some (p', c)"
  shows "\<exists>q'. frameLoop huff m kt (seen h p) b = Some (q', c) \<and> same p' q'"
proof (cases "length b < 9 + fLength h")
  case True
  with frame_round_known [OF assms(1-3)] assms(4) have "p' = seen h p" "c = b"
    "frameLoop huff m kt (seen h p) b = Some (seen h (seen h p), b)"
    by (auto simp: frameLoop_Stop)
  with same_sym [OF seen_seen] show ?thesis by blast
next
  case False
  with frame_round_known [OF assms(1-3), of huff m kt] assms(4) obtain p1 where
    p1: "handle_any huff m kt h (take (fLength h) (drop 9 b)) (seen h p) = Some p1"
    by (cases "handle_any huff m kt h (take (fLength h) (drop 9 b)) (seen h p)") (auto simp: frameLoop_None)
  from same_handle_any [OF same_sym [OF seen_seen] p1] obtain q1 where
    q1: "handle_any huff m kt h (take (fLength h) (drop 9 b)) (seen h (seen h p)) = Some q1" "same p1 q1"
    by blast
  from frame_round_known [OF assms(1-3), of huff m kt] False p1 assms(4)
  have "frameLoop huff m kt p1 (drop (9 + fLength h) b) = Some (p', c)"
    by (simp add: frameLoop_Next)
  from same_frameLoop [OF q1(2) this] frame_round_known [OF assms(1-3), of huff m kt] False q1(1)
  show ?thesis by (simp add: frameLoop_Next)
qed

lemma frameLoop_append:
  "known_types a \<Longrightarrow> frameLoop huff m kt p a = Some (p1, r) \<Longrightarrow>
     frameLoop huff m kt p (a @ b) = Some (p', c) \<Longrightarrow>
     \<exists>q'. frameLoop huff m kt p1 (r @ b) = Some (q', c) \<and> same p' q'"
proof (induction huff m kt p a rule: frameLoop.induct)
  case (1 huff m kt p a)
  show ?case
  proof (cases "length a < 9")
    case True
    with "1.prems"(2) have "p1 = p" "r = a"
      by (simp_all add: frameLoop_Stop [OF frame_round_short])
    with "1.prems"(3) show ?thesis by simp
  next
    case False
    then have len: "9 \<le> length a" "9 \<le> length (a @ b)" by simp_all
    obtain h where h: "frame_header a = Some h" using frame_header_total [OF len(1)] by blast
    have h2: "frame_header (a @ b) = Some h" using frame_header_append [OF len(1)] h by simp
    from "1.prems"(1) False h have t: "fType h \<le> 0x10"
      "length a < 9 + fLength h \<or> known_types (drop (9 + fLength h) a)"
      by (subst (asm) known_types.simps, simp)+
    note round = frame_round_known [OF len(1) h t(1), of huff m kt]
      and round2 = frame_round_known [OF len(2) h2 t(1), of huff m kt]
    show ?thesis
    proof (cases "length a < 9 + fLength h")
      case True
      with round "1.prems"(2) have "p1 = seen h p" "r = a" by (simp_all add: frameLoop_Stop)
      with frameLoop_seen [OF len(2) h2 t(1) "1.prems"(3)] show ?thesis by simp
    next
      case whole: False
      have tk: "take (fLength h) (drop 9 (a @ b)) = take (fLength h) (drop 9 a)"
        "drop (9 + fLength h) (a @ b) = drop (9 + fLength h) a @ b"
        using whole len(1) by simp_all
      obtain p2 where p2: "handle_any huff m kt h (take (fLength h) (drop 9 a)) (seen h p) = Some p2"
        using round "1.prems"(2) whole
        by (cases "handle_any huff m kt h (take (fLength h) (drop 9 a)) (seen h p)") (auto simp: frameLoop_None)
      with round whole have n: "frame_round huff m kt p a = Some (Next p2 (drop (9 + fLength h) a))" by simp
      from round2 p2 whole tk have "frame_round huff m kt p (a @ b) = Some (Next p2 (drop (9 + fLength h) a @ b))"
        by simp
      with "1.IH" [OF n refl] t(2) whole "1.prems"(2,3) n show ?thesis by (simp add: frameLoop_Next)
    qed
  qed
qed

end
