(* ===== verification/Http2_Correct.thy ===== *)
theory Http2_Correct
  imports Http2_Split
begin

text \<open>
  The properties of the HTTP/2 parser: it is safe on any input, framing survives any cut of the
  stream and the truncation of a frame, header blocks are reassembled, and a request and its
  response come out as one completed request with the values that were sent.
\<close>

unbundle bit_operations_syntax

section \<open>Frames as bytes\<close>

definition put24 :: "nat \<Rightarrow> bytes" where
  "put24 n = [of_nat (n div 65536), of_nat (n div 256), of_nat n]"

definition frame_bytes :: "u8 \<Rightarrow> u8 \<Rightarrow> nat \<Rightarrow> bytes \<Rightarrow> bytes" where
  "frame_bytes t f sid body = put24 (length body) @ [t, f] @ put32 sid @ body"

lemma length_frame_bytes [simp]: "length (frame_bytes t f sid body) = 9 + length body"
  by (simp add: frame_bytes_def put24_def)

lemma put24_value:
  assumes "n < 2 ^ 24"
  shows "be32 (put24 n @ t # r) = Some (n * 256 + unat t)"
proof -
  have "n div 65536 < 256" using assms by simp
  moreover have "n div 65536 * 65536 + n div 256 mod 256 * 256 + n mod 256 = n"
    using be32_parts [of n] assms by simp
  ultimately show ?thesis by (simp add: put24_def)
qed

lemma frame_header_bytes:
  assumes "length body < 2 ^ 24" "sid < 2 ^ 31"
  shows "frame_header (frame_bytes t f sid body @ r) =
    Some \<lparr>fType = t, fFlags = f, fLength = length body, fStreamId = sid\<rparr>"
proof -
  let ?b = "frame_bytes t f sid body @ r"
  have "be32 ?b = Some (length body * 256 + unat t)"
    using put24_value [OF assms(1)] by (simp add: frame_bytes_def)
  moreover have "at ?b 3 = Some t" "at ?b 4 = Some f"
    by (simp_all add: at_def frame_bytes_def put24_def)
  moreover have "slice ?b 5 (length ?b) = Some (put32 sid @ body @ r)"
    by (simp add: slice_def) (simp add: frame_bytes_def put24_def)
  moreover have "(length body * 256 + unat t) div 256 = length body"
    using unat_u8_bound [of t] by (simp del: unat_u8_bound)
  ultimately show ?thesis
    using assms(2) by (simp add: frame_header_def)
qed

lemma frameLoop_frame:
  assumes "length body < 2 ^ 24" "sid < 2 ^ 31" "t \<le> 9"
  shows "frameLoop huff m kt p (frame_bytes t f sid body @ r) =
    (case handle_frame huff m kt \<lparr>fType = t, fFlags = f, fLength = length body, fStreamId = sid\<rparr> body
        ((frame_event (http2FrameTypeName t) p)\<lparr>sawValidFrame := True\<rparr>) of
       None \<Rightarrow> None
     | Some p' \<Rightarrow> frameLoop huff m kt p' r)"
proof -
  let ?b = "frame_bytes t f sid body @ r" and ?h = "\<lparr>fType = t, fFlags = f, fLength = length body, fStreamId = sid\<rparr>"
  have t: "t \<le> 0x10" "\<not> t > 9" using assms(3) by (auto intro: order_trans)
  have "frame_round huff m kt p ?b = map_option (\<lambda>p'. Next p' r)
      (handle_frame huff m kt ?h body ((frame_event (http2FrameTypeName t) p)\<lparr>sawValidFrame := True\<rparr>))"
    using frame_round_known [OF _ frame_header_bytes [OF assms(1,2)], of t f r] t
    by (simp add: seen_def handle_any_def) (simp add: frame_bytes_def put24_def)
  then show ?thesis
    by (auto simp: frameLoop_None frameLoop_Next split: option.splits)
qed

lemma frameLoop_Nil [simp]: "frameLoop huff m kt p [] = Some (p, [])"
  by (simp add: frameLoop_Stop frame_round_short)

section \<open>Runs\<close>

text \<open>
  C2. Whatever the events of a connection (any method, bytes, timestamps, truncation and losses, in
  any order), no call panics; at most 1000 requests are tracked; the HPACK tables keep their
  invariant; every request returned has a response status and the end of its stream, and a duration
  below an hour; and no completed request is kept back.
\<close>

theorem http2_safe:
  "\<exists>p res. run (http2_step huff) ops (NewHttp2Parser, []) = Some (p, res) \<and>
     ActiveRequestCount p \<le> 1000 \<and> ring_inv (decoder (client p)) \<and> ring_inv (decoder (server p)) \<and>
     list_all (\<lambda>r. hasResponseStatus r \<and> responseEndStream r \<and> rqDuration r < hour) res \<and>
     list_all (\<lambda>(sid, r). \<not> (hasResponseStatus r \<and> responseEndStream r)) (activeRequests p)"
proof -
  have "connection_inv (NewHttp2Parser, [])"
    using new_parser_inv by (simp add: connection_inv_def none_complete_def NewHttp2Parser_def)
  from connection.run_safe [OF this, of huff ops] obtain p res where
    "run (http2_step huff) ops (NewHttp2Parser, []) = Some (p, res)" "connection_inv (p, res)"
    by auto
  then show ?thesis
    by (auto simp: connection_inv_def parser_inv_def requests_ok_def decoders_ok_def none_complete_def
        result_ok_def complete_request_def ActiveRequestCount_def maxActiveRequests_def list_all_iff)
qed

text \<open>
  C3. Where a stream is cut into reads does not matter: the frame loop on the first part \<open>a\<close>, and
  then on the incomplete frame it left followed by the second part \<open>b\<close>, gives the parser and the
  rest that one run over \<open>a @ b\<close> gives, up to the callbacks made (\<open>trace\<close>). The frames that begin in \<open>a\<close>
  have types up to \<open>0x10\<close>, the registered ones (\<open>known_types\<close>): behind any other type the code drops the rest
  of the read, so that there the cut does matter.
\<close>

theorem http2_split_invariant:
  assumes "parser_inv p" "known_types a"
  shows "\<exists>p1 r p' c q'. frameLoop huff m kt p a = Some (p1, r) \<and>
    frameLoop huff m kt p (a @ b) = Some (p', c) \<and>
    frameLoop huff m kt p1 (r @ b) = Some (q', c) \<and> p'\<lparr>trace := []\<rparr> = q'\<lparr>trace := []\<rparr>"
proof -
  obtain p1 r where a: "frameLoop huff m kt p a = Some (p1, r)"
    using frameLoop_inv [OF assms(1)] by blast
  obtain p' c where ab: "frameLoop huff m kt p (a @ b) = Some (p', c)"
    using frameLoop_inv [OF assms(1)] by blast
  from frameLoop_append [OF assms(2) a ab] a ab show ?thesis by (auto simp: same_def)
qed

theorem http2_split_invariant_witness:
  "\<exists>p1 r p' c q'. frameLoop (\<lambda>b. Some (gostr b)) MethodHttp2ServerFrames 9 NewHttp2Parser [0, 0, 2, 0] = Some (p1, r) \<and>
    frameLoop (\<lambda>b. Some (gostr b)) MethodHttp2ServerFrames 9 NewHttp2Parser
      ([0, 0, 2, 0] @ [1, 0, 0, 0, 1, 7, 8, 9]) = Some (p', c) \<and>
    frameLoop (\<lambda>b. Some (gostr b)) MethodHttp2ServerFrames 9 p1 (r @ [1, 0, 0, 0, 1, 7, 8, 9]) = Some (q', c) \<and>
    p'\<lparr>trace := []\<rparr> = q'\<lparr>trace := []\<rparr>"
  by (rule http2_split_invariant) (simp_all add: new_parser_inv known_types.simps)

section \<open>Truncation\<close>

lemma upd_dir_twice: "upd_dir m f (upd_dir m g p) = upd_dir m (\<lambda>d. f (g d)) p"
  by (simp add: upd_dir_def)

lemma dir_of_upd_dir:
  "m = MethodHttp2ClientFrames \<or> m = MethodHttp2ServerFrames \<Longrightarrow> dir_of m (upd_dir m f p) = f (dir_of m p)"
  by (auto simp: dir_of_def upd_dir_def)

lemma no_preface:
  assumes "9 \<le> length c" "frame_header c = Some h" "fType h \<le> 0x10"
  shows "strip_preface m c = c"
proof -
  from assms(1,2) have t: "fType h = c ! 3"
    by (auto simp: frame_header_def split: bind_splits)
  have "c ! 3 = 32" if "take (length ClientPreface) c = ClientPreface" "length ClientPreface \<le> length c"
  proof -
    have "c ! 3 = take (length ClientPreface) c ! 3" by (simp add: ClientPreface_def)
    also have "\<dots> = 32" unfolding that(1) by (simp add: ClientPreface_def bytes_of_def)
    finally show ?thesis .
  qed
  with t assms(3) show ?thesis by (auto simp: strip_preface_def)
qed

lemma cut_frame_skip:
  assumes "9 \<le> length c" "frame_header c = Some h" "length c - 9 + unat missing \<le> fLength h"
  shows "cut_frame m missing c p =
      Some (upd_dir m (\<lambda>d. d\<lparr>skip := of_nat (fLength h - (length c - 9) - unat missing)\<rparr>) p,
            fType h = FrameHeaders \<or> fType h = FrameContinuation)"
proof -
  let ?k = "length c - 9"
  from assms(1,2) obtain l where l: "be32 c = Some l" "fLength h = l div 256" "fType h = c ! 3"
    by (auto simp: frame_header_def split: bind_splits)
  have L: "fLength h < 2 ^ 24" by (rule frame_header_len [OF assms(2)])
  have miss: "missing = of_nat (unat missing)" by simp
  have sum: "(of_nat ?k + missing :: u64) = of_nat (?k + unat missing)"
    by (subst miss) (simp only: of_nat_add)
  have ge: "of_nat ?k + missing \<le> (of_nat (fLength h) :: u64)"
    unfolding sum word_le_nat_alt unat_of_nat using L assms(3) by (simp del: of_nat_add)
  have "(of_nat (fLength h) :: u64) - of_nat ?k - missing = of_nat (fLength h) - (of_nat ?k + missing)"
    by simp
  also have "\<dots> = of_nat (fLength h - (?k + unat missing))"
    unfolding sum using assms(3) by (simp only: of_nat_diff)
  also have "fLength h - (?k + unat missing) = fLength h - ?k - unat missing" by simp
  finally show ?thesis
    using assms(1) l ge by (simp add: cut_frame_def http2FrameHeaderLength_def Let_def)
qed

lemma dir_of_gc:
  assumes "m = MethodHttp2ClientFrames \<or> m = MethodHttp2ServerFrames" "pendingHeaders (dir_of m p) = None"
  shows "dir_of m (gc kt p) = dir_of m p"
  using assms
  by (auto simp: gc_def Let_def dropPendingHeaders_def resetDecoder_def dir_of_def upd_dir_def)

lemma dir_of_collect [simp]: "dir_of m (fst (collect kt p)) = dir_of m p"
  by (simp add: collect_def dir_of_def)

lemma dir_of_cong: "client p' = client p \<Longrightarrow> server p' = server p \<Longrightarrow> dir_of m p' = dir_of m p"
  by (simp add: dir_of_def)

lemma Parse_cut:
  assumes "m = MethodHttp2ClientFrames \<or> m = MethodHttp2ServerFrames"
    and "skip (dir_of m p) = 0" "partialFrame (dir_of m p) = []" "pendingHeaders (dir_of m p) = None"
    and "9 \<le> length c" "frame_header c = Some h" "fType h \<le> 0x10"
    and "fType h \<noteq> FrameHeaders" "fType h \<noteq> FrameContinuation"
    and "missing > 0" "length c - 9 + unat missing \<le> fLength h"
    and "Parse huff m c kt missing p = Some (p1, res)"
  shows "dir_of m p1 = (dir_of m p)\<lparr>skip := of_nat (fLength h - (length c - 9) - unat missing)\<rparr>"
proof -
  define q where "q = p\<lparr>sawValidFrame := False, statuses := [], grpcStatuses := []\<rparr>"
  define k where "k = (of_nat (fLength h - (length c - 9) - unat missing) :: u64)"
  define s where "s = seen h q"
  have d: "dir_of m q = dir_of m p" "dir_of m s = dir_of m p" "statuses s = []"
    by (simp_all add: q_def s_def seen_def dir_of_def)
  have "0 < unat missing" using assms(10) by (simp add: word_less_nat_alt)
  then have cut: "length c < 9 + fLength h" using assms(5,11) by linarith
  have loop: "frameLoop huff m kt q c = Some (s, c)"
    using frame_round_known [OF assms(5-7), of huff m kt q] cut by (simp add: frameLoop_Stop s_def)
  define p2 where "p2 = upd_dir m (\<lambda>d. d\<lparr>skip := k, partialFrame := []\<rparr>) s"
  have d2: "dir_of m p2 = (dir_of m p)\<lparr>skip := k\<rparr>"
    unfolding p2_def using dir_of_upd_dir [OF assms(1)] d assms(3)
    by (cases "dir_of m p") simp
  have trunc: "after_truncation m missing c s = Some p2"
    using cut_frame_skip [OF assms(5,6,11), of m s] assms(4,8,9) d2
    by (simp add: after_truncation_def upd_dir_twice dropPendingHeaders_def p2_def k_def)
  have "c \<noteq> []" using assms(5) by auto
  then have "Parse huff m c kt missing p = Parse_frames huff m c kt missing q"
    using assms(1-3) no_preface [OF assms(5-7), of m] d
    by (auto simp: Parse_def Let_def q_def [symmetric] skip_rest_def prepend_partial_def)
  also have "\<dots> = Some (gc kt (fst (collect kt p2)), snd (collect kt p2))"
    using loop trunc assms(10) d(3) by (simp add: Parse_frames_def p2_def case_prod_beta)
  finally have "p1 = gc kt (fst (collect kt p2))" using assms(12) by simp
  moreover have "pendingHeaders (dir_of m (fst (collect kt p2))) = None"
    using d2 assms(4) by simp
  ultimately show ?thesis using dir_of_gc [OF assms(1)] d2 by (simp add: k_def)
qed

lemma Parse_skip:
  assumes "m = MethodHttp2ClientFrames \<or> m = MethodHttp2ServerFrames"
    and "unat (skip (dir_of m p)) = length x" "rest \<noteq> []" "length (x @ rest) < 2 ^ 63"
    and "strip_preface m (x @ rest) = x @ rest" "strip_preface m rest = rest"
  shows "Parse huff m (x @ rest) kt 0 p = Parse huff m rest kt 0 (upd_dir m (\<lambda>d. d\<lparr>skip := 0\<rparr>) p)"
proof -
  define q where "q = p\<lparr>sawValidFrame := False, statuses := [], grpcStatuses := []\<rparr>"
  define q0 where "q0 = upd_dir m (\<lambda>d. d\<lparr>skip := 0\<rparr>) q"
  let ?sk = "skip (dir_of m p)"
  have d: "dir_of m q = dir_of m p" by (simp add: q_def dir_of_def)
  have d0: "skip (dir_of m q0) = 0" using dir_of_upd_dir [OF assms(1)] by (simp add: q0_def)
  have len: "unat (of_nat (length (x @ rest)) :: u64) = length (x @ rest)"
    using assms(4) by (simp add: unat_of_nat del: of_nat_add)
  have "\<not> ?sk \<ge> of_nat (length (x @ rest)) + 0" "?sk \<le> of_nat (length (x @ rest))"
    unfolding word_le_nat_alt add_0_right len assms(2) using assms(3) by simp_all
  then have skip: "skip_rest m (x @ rest) 0 q = (if ?sk > 0 then Inr (q0, rest) else Inr (q, x @ rest))"
    using assms(2) d unfolding skip_rest_def Let_def q0_def by simp
  have "skip_rest m (x @ rest) 0 q = Inr (q0, rest)"
  proof (cases "?sk > 0")
    case False
    then have "?sk = 0" by (simp add: word_gt_0)
    moreover from this have "x = []" using assms(2) by simp
    moreover have "q0 = q"
      unfolding q0_def upd_dir_def using d \<open>?sk = 0\<close> by (auto simp: dir_of_def split: if_splits)
    ultimately show ?thesis using skip by simp
  qed (simp add: skip)
  moreover have "skip_rest m rest 0 q0 = Inr (q0, rest)" using d0 by (simp add: skip_rest_def)
  moreover have "(upd_dir m (\<lambda>d. d\<lparr>skip := 0\<rparr>) p)\<lparr>sawValidFrame := False, statuses := [], grpcStatuses := []\<rparr> = q0"
    by (simp add: q0_def q_def upd_dir_def)
  ultimately show ?thesis
    using assms(1,3,5,6) unfolding Parse_def Let_def by (auto simp: q_def [symmetric])
qed

text \<open>
  C5. Framing survives the truncation of a frame. When the kernel captured only the start \<open>c\<close> of a
  frame that is not part of a header block, and the \<open>missing\<close> bytes all belong to it, the HPACK table
  of the direction is left as it was, and the next read is parsed as if it began right after the
  frame: exactly the rest \<open>x\<close> of the frame is skipped.
\<close>

theorem http2_truncated_frame_skipped:
  assumes "m = MethodHttp2ClientFrames \<or> m = MethodHttp2ServerFrames"
    and "skip (dir_of m p) = 0" "partialFrame (dir_of m p) = []" "pendingHeaders (dir_of m p) = None"
    and "9 \<le> length c" "frame_header c = Some h" "fType h \<le> 0x10"
    and "fType h \<noteq> FrameHeaders" "fType h \<noteq> FrameContinuation"
    and "missing > 0" "length c - 9 + unat missing + length x = fLength h"
    and "Parse huff m c kt missing p = Some (p1, res)"
    and "rest \<noteq> []" "length (x @ rest) < 2 ^ 63"
    and "strip_preface m (x @ rest) = x @ rest" "strip_preface m rest = rest"
  shows "decoder (dir_of m p1) = decoder (dir_of m p) \<and>
    Parse huff m (x @ rest) kt2 0 p1 = Parse huff m rest kt2 0 (upd_dir m (\<lambda>d. d\<lparr>skip := 0\<rparr>) p1)"
proof -
  from assms(11) have le: "length c - 9 + unat missing \<le> fLength h" by simp
  have x: "fLength h - (length c - 9) - unat missing = length x" using assms(11) by linarith
  have d: "dir_of m p1 = (dir_of m p)\<lparr>skip := of_nat (length x)\<rparr>"
    using Parse_cut [OF assms(1-10) le assms(12)] unfolding x .
  then have "unat (skip (dir_of m p1)) = length x"
    using assms(14) by (simp add: unat_of_nat)
  from Parse_skip [OF assms(1) this assms(13-16), of huff kt2] show ?thesis by (simp add: d)
qed

theorem http2_truncated_frame_skipped_witness:
  "\<exists>p1 res. Parse (\<lambda>b. Some (gostr b)) MethodHttp2ServerFrames [0, 0, 10, 0, 0, 0, 0, 0, 1, 7, 7, 7] 5 4 NewHttp2Parser
      = Some (p1, res) \<and>
    decoder (dir_of MethodHttp2ServerFrames p1) = decoder (dir_of MethodHttp2ServerFrames NewHttp2Parser) \<and>
    Parse (\<lambda>b. Some (gostr b)) MethodHttp2ServerFrames ([7, 7, 7] @ [0, 0, 0]) 6 0 p1 =
    Parse (\<lambda>b. Some (gostr b)) MethodHttp2ServerFrames [0, 0, 0] 6 0
      (upd_dir MethodHttp2ServerFrames (\<lambda>d. d\<lparr>skip := 0\<rparr>) p1)"
proof -
  let ?c = "[0, 0, 10, 0, 0, 0, 0, 0, 1, 7, 7, 7] :: bytes" and ?m = MethodHttp2ServerFrames
  obtain p1 res where p1: "Parse (\<lambda>b. Some (gostr b)) ?m ?c 5 4 NewHttp2Parser = Some (p1, res)"
    using Parse_inv [OF new_parser_inv] by blast
  have h: "frame_header ?c = Some \<lparr>fType = 0, fFlags = 0, fLength = 10, fStreamId = 1\<rparr>"
    by (simp add: frame_header_def)
  have "skip (dir_of ?m NewHttp2Parser) = 0" "partialFrame (dir_of ?m NewHttp2Parser) = []"
    "pendingHeaders (dir_of ?m NewHttp2Parser) = None"
    by (simp_all add: dir_of_def NewHttp2Parser_def new_direction_def)
  from http2_truncated_frame_skipped [OF _ this _ h _ _ _ _ _ p1, of "[7, 7, 7]" "[0, 0, 0]" 6] p1
  show ?thesis by (simp add: frame_types strip_preface_def)
qed

section \<open>Losses and eviction\<close>

text \<open>
  A loss reported for one direction resets that direction and nothing else: its table becomes
  empty, its partial frame, skip and pending header block are dropped, while the other direction,
  the tracked requests and their count stay as they are.
\<close>

theorem http2_lost_isolated:
  assumes "parser_inv p"
  shows "server (Lost LostWrites p) = server p \<and> client (Lost LostReads p) = client p \<and>
    activeRequests (Lost b p) = activeRequests p \<and>
    list_all (\<lambda>d. table (decoder d) = [] \<and> partialFrame d = [] \<and> skip d = 0 \<and> pendingHeaders d = None)
      [client (Lost LostWrites p), server (Lost LostReads p)]"
  using assms reset_agrees
  by (auto simp: Lost_def lost_direction_def resetDecoder_def upd_dir_def parser_inv_def decoders_ok_def)

theorem http2_lost_isolated_witness:
  "server (Lost LostWrites NewHttp2Parser) = server NewHttp2Parser \<and>
    client (Lost LostReads NewHttp2Parser) = client NewHttp2Parser \<and>
    activeRequests (Lost 3 NewHttp2Parser) = activeRequests NewHttp2Parser \<and>
    list_all (\<lambda>d. table (decoder d) = [] \<and> partialFrame d = [] \<and> skip d = 0 \<and> pendingHeaders d = None)
      [client (Lost LostWrites NewHttp2Parser), server (Lost LostReads NewHttp2Parser)]"
  by (rule http2_lost_isolated [OF new_parser_inv])

text \<open>
  C11. At the limit exactly one request makes way for a new stream: one without response headers if
  there is one, the oldest of those, otherwise the oldest of all; every other request is kept.
\<close>

theorem evictOldestRequest_correct:
  assumes "distinct (map fst (activeRequests p))" "activeRequests p \<noteq> []"
  shows "\<exists>i r. map_of (activeRequests p) i = Some r \<and>
    map_of (activeRequests (evictOldestRequest p)) = (map_of (activeRequests p))(i := None) \<and>
    (\<forall>j s. map_of (activeRequests p) j = Some s \<longrightarrow>
       (hasResponseStatus r \<longrightarrow> hasResponseStatus s) \<and>
       (hasResponseStatus r = hasResponseStatus s \<longrightarrow> rqKernelTime r \<le> rqKernelTime s))"
proof -
  obtain i r where i: "(i, r) \<in> set (activeRequests p)"
    "\<forall>(j, s) \<in> set (activeRequests p). evict_key r \<le> evict_key s"
    "activeRequests (evictOldestRequest p) = AList.delete i (activeRequests p)"
    using evictOldestRequest_requests [OF assms(2)] by blast
  have key: "(hasResponseStatus r \<longrightarrow> hasResponseStatus s) \<and>
      (hasResponseStatus r = hasResponseStatus s \<longrightarrow> rqKernelTime r \<le> rqKernelTime s)"
    if "evict_key r \<le> evict_key s" for s
    using that unsigned_less [of "rqKernelTime s", where ?'a = nat]
    by (auto simp: evict_key_def word_le_nat_alt split: if_splits)
  from i assms(1) have "map_of (activeRequests p) i = Some r" by simp
  moreover have "\<forall>j s. map_of (activeRequests p) j = Some s \<longrightarrow> evict_key r \<le> evict_key s"
    using i(2) by (auto dest!: map_of_SomeD)
  ultimately show ?thesis
    using i(3) key by (intro exI [of _ i] exI [of _ r]) (simp add: delete_conv')
qed

theorem evictOldestRequest_correct_witness:
  "\<exists>i r. map_of [(1, new_request 9)] i = Some r \<and>
    map_of (activeRequests (evictOldestRequest (NewHttp2Parser\<lparr>activeRequests := [(1, new_request 9)]\<rparr>)))
      = (map_of [(1, new_request 9)])(i := None)"
  using evictOldestRequest_correct [of "NewHttp2Parser\<lparr>activeRequests := [(1, new_request 9)]\<rparr>"]
  by (auto split: if_splits)

section \<open>Header blocks in several frames\<close>

definition framed_fragment :: "bytes option \<Rightarrow> bytes option \<Rightarrow> bytes \<Rightarrow> bytes" where
  "framed_fragment prio pad frag =
     (case pad of None \<Rightarrow> [] | Some z \<Rightarrow> [of_nat (length z)]) @
     (case prio of None \<Rightarrow> [] | Some y \<Rightarrow> y) @ frag @ (case pad of None \<Rightarrow> [] | Some z \<Rightarrow> z)"

text \<open>
  The fields around a header block fragment are stripped exactly: whatever the priority field
  and the padding, \<open>extractHeaderBlockFragment\<close> returns the fragment that was framed (RFC 9113 6.2).
\<close>

theorem extract_round_trip:
  assumes "flags AND http2FlagPadded \<noteq> 0 \<longleftrightarrow> pad \<noteq> None" "flags AND http2FlagPriority \<noteq> 0 \<longleftrightarrow> prio \<noteq> None"
    and "\<forall>y. prio = Some y \<longrightarrow> length y = 5" "\<forall>z. pad = Some z \<longrightarrow> length z < 256"
  shows "extractHeaderBlockFragment flags (framed_fragment prio pad frag) = Some (Some frag)"
  using assms
  by (cases pad; cases prio)
    (auto simp: extractHeaderBlockFragment_def framed_fragment_def Let_def at_def slice_def)

theorem extract_round_trip_witness:
  "extractHeaderBlockFragment 0x28 (framed_fragment (Some [0, 0, 0, 3, 16]) (Some [0, 0]) [0x82]) = Some (Some [0x82])"
  by (rule extract_round_trip) (simp_all add: http2FlagPadded_def http2FlagPriority_def)

end
