(* ===== verification/Http2_Exchange.thy ===== *)
theory Http2_Exchange
  imports Http2_Correct
begin

text \<open>
  Functional correctness over the stack of the two components: header blocks spread over several
  frames, and a request with its response, from the bytes on the wire to the reported request.
\<close>

unbundle bit_operations_syntax

section \<open>Continuations\<close>

fun continuations ::
  "(bytes \<Rightarrow> string option) \<Rightarrow> Method \<Rightarrow> u64 \<Rightarrow> nat \<Rightarrow> bytes list \<Rightarrow> Http2Parser \<Rightarrow> Http2Parser option" where
  "continuations huff m kt sid [] p = Some p"
| "continuations huff m kt sid (f # fs) p =
     do {
       p' \<leftarrow> continuation_frame huff m kt
              \<lparr>fType = FrameContinuation, fFlags = (if fs = [] then http2FlagEndHeaders else 0),
               fLength = length f, fStreamId = sid\<rparr> f p;
       continuations huff m kt sid fs p'
     }"

lemma continuations_Nil [simp]: "continuations huff m kt sid [] = Some"
  by (rule ext) simp

lemma bind_Some_right [simp]: "Option.bind x Some = x"
  by (cases x) simp_all

lemma continuations_decode:
  assumes "m = MethodHttp2ClientFrames \<or> m = MethodHttp2ServerFrames"
  shows "pendingHeaders (dir_of m p) = Some \<lparr>pStreamId = sid, fragments = g, pEndStream = es\<rparr> \<Longrightarrow> fs \<noteq> [] \<Longrightarrow>
    length g + length (concat fs) \<le> 65536 \<Longrightarrow>
    continuations huff m kt sid fs p =
      decodeHeaderBlock huff m sid es (g @ concat fs) kt (upd_dir m (\<lambda>d. d\<lparr>pendingHeaders := None\<rparr>) p)"
proof (induction fs arbitrary: g p)
  case (Cons f fs)
  show ?case
  proof (cases "fs = []")
    case True
    with Cons.prems show ?thesis
      by (simp add: continuation_frame_def maxPendingHeaderBlockSize_def http2FlagEndHeaders_def Let_def)
  next
    case False
    define q where "q = upd_dir m (\<lambda>d. d\<lparr>pendingHeaders :=
        Some \<lparr>pStreamId = sid, fragments = g @ f, pEndStream = es\<rparr>\<rparr>) p"
    have "continuation_frame huff m kt \<lparr>fType = FrameContinuation, fFlags = 0, fLength = length f,
        fStreamId = sid\<rparr> f p = Some q"
      using Cons.prems by (simp add: continuation_frame_def maxPendingHeaderBlockSize_def Let_def q_def)
    moreover have "pendingHeaders (dir_of m q) = Some \<lparr>pStreamId = sid, fragments = g @ f, pEndStream = es\<rparr>"
      using dir_of_upd_dir [OF assms] by (simp add: q_def)
    moreover have "upd_dir m (\<lambda>d. d\<lparr>pendingHeaders := None\<rparr>) q = upd_dir m (\<lambda>d. d\<lparr>pendingHeaders := None\<rparr>) p"
      by (simp add: q_def upd_dir_twice)
    ultimately show ?thesis using Cons.IH [of q "g @ f"] Cons.prems(3) False by simp
  qed
qed simp

lemma upd_dir_id: "f (dir_of m p) = dir_of m p \<Longrightarrow> upd_dir m f p = p"
  by (auto simp: upd_dir_def dir_of_def split: if_splits)

text \<open>
  C10. A header block sent as a HEADERS frame and any number of CONTINUATION frames, up to 64 KiB in
  all, is decoded as the one block its fragments make, whatever padding and priority the HEADERS
  frame has.
\<close>

theorem http2_continuations:
  assumes "m = MethodHttp2ClientFrames \<or> m = MethodHttp2ServerFrames"
    and "pendingHeaders (dir_of m p) = None"
    and "extractHeaderBlockFragment flags framePayload = Some (Some g)" "flags AND http2FlagEndHeaders = 0"
    and "fs \<noteq> []" "length g + length (concat fs) \<le> 65536"
  shows "do {
      p1 \<leftarrow> headers_frame huff m kt
             \<lparr>fType = FrameHeaders, fFlags = flags, fLength = length framePayload, fStreamId = sid\<rparr> framePayload p;
      continuations huff m kt sid fs p1
    } = decodeHeaderBlock huff m sid (flags AND http2FlagEndStream \<noteq> 0) (g @ concat fs) kt p"
proof -
  define q where "q = upd_dir m (\<lambda>d. d\<lparr>pendingHeaders := Some \<lparr>pStreamId = sid, fragments = g,
      pEndStream = (flags AND http2FlagEndStream \<noteq> 0)\<rparr>\<rparr>) p"
  have "headers_frame huff m kt \<lparr>fType = FrameHeaders, fFlags = flags, fLength = length framePayload,
      fStreamId = sid\<rparr> framePayload p = Some q"
    using assms(2-4) by (simp add: headers_frame_def dropPendingHeaders_def Let_def q_def)
  moreover have "pendingHeaders (dir_of m q) = Some \<lparr>pStreamId = sid, fragments = g,
      pEndStream = (flags AND http2FlagEndStream \<noteq> 0)\<rparr>"
    using dir_of_upd_dir [OF assms(1)] by (simp add: q_def)
  moreover have "upd_dir m (\<lambda>d. d\<lparr>pendingHeaders := None\<rparr>) q = p"
    unfolding q_def upd_dir_twice using assms(2) by (intro upd_dir_id) (cases "dir_of m p", simp)
  ultimately show ?thesis
    using continuations_decode [OF assms(1) _ assms(5,6), of q sid "flags AND http2FlagEndStream \<noteq> 0" huff kt]
    by simp
qed

theorem http2_continuations_witness:
  "do {
      p1 \<leftarrow> headers_frame (\<lambda>b. Some (gostr b)) MethodHttp2ClientFrames 3
             \<lparr>fType = FrameHeaders, fFlags = 1, fLength = length [0x82 :: u8], fStreamId = 1\<rparr> [0x82] NewHttp2Parser;
      continuations (\<lambda>b. Some (gostr b)) MethodHttp2ClientFrames 3 1 [[0x84], [0x86]] p1
    } = decodeHeaderBlock (\<lambda>b. Some (gostr b)) MethodHttp2ClientFrames 1 (1 AND http2FlagEndStream \<noteq> 0)
          ([0x82] @ concat [[0x84], [0x86]]) 3 NewHttp2Parser"
  by (rule http2_continuations)
    (simp_all add: dir_of_def NewHttp2Parser_def new_direction_def extractHeaderBlockFragment_def
      http2FlagPadded_def http2FlagPriority_def http2FlagEndHeaders_def)

section \<open>What the fields make of a request\<close>

definition client_fields_ok :: "fields \<Rightarrow> bool" where
  "client_fields_ok fs \<longleftrightarrow>
     (\<forall>n v. (n, v) \<in> set fs \<longrightarrow>
        (n = '':method'' \<longrightarrow> isHttpMethod v) \<and> (n = '':path'' \<longrightarrow> isHttpPath v) \<and> n \<noteq> '':status'')"

definition server_fields_ok :: "int \<Rightarrow> fields \<Rightarrow> bool" where
  "server_fields_ok s fs \<longleftrightarrow>
     (\<forall>n v. (n, v) \<in> set fs \<longrightarrow>
        n \<notin> {'':method'', '':path'', '':scheme'', '':authority''} \<and> (n = '':status'' \<longrightarrow> v = itoa s))"

text \<open>The first field of a name wins.\<close>

definition first_field :: "string \<Rightarrow> string \<Rightarrow> fields \<Rightarrow> string" where
  "first_field old n fs = (if old \<noteq> [] then old else case map_of fs n of None \<Rightarrow> [] | Some v \<Rightarrow> v)"

lemma isHttp_not_Nil [simp]: "\<not> isHttpMethod []" "\<not> isHttpPath []"
  by (simp_all add: isHttpMethod_def isHttpPath_def)

lemma emit_client_fold:
  assumes "client_fields_ok fs" "fold emit_client fs (r, i, ps) = (r', i', ps')"
  shows "i' = i \<and> (ps' \<longleftrightarrow> ps \<or> (\<exists>n v. (n, v) \<in> set fs \<and> prefix '':'' n)) \<and>
    rqMethod r' = first_field (rqMethod r) '':method'' fs \<and>
    rqPath r' = first_field (rqPath r) '':path'' fs \<and>
    rqKernelTime r' = rqKernelTime r \<and> hasResponseStatus r' = hasResponseStatus r \<and>
    responseEndStream r' = responseEndStream r \<and> PartialHeaders r' = PartialHeaders r \<and>
    rqGrpcStatus r' = rqGrpcStatus r"
  using assms
proof (induction fs arbitrary: r i ps)
  case Nil
  then show ?case by (simp add: first_field_def)
next
  case (Cons f fs)
  obtain n v where f: "f = (n, v)" by (cases f)
  obtain r1 i1 ps1 where e: "emit_client f (r, i, ps) = (r1, i1, ps1)"
    by (cases "emit_client f (r, i, ps)")
  have ok: "client_fields_ok fs" "n = '':method'' \<longrightarrow> isHttpMethod v" "n = '':path'' \<longrightarrow> isHttpPath v"
    "n \<noteq> '':status''"
    using Cons.prems(1) f by (auto simp: client_fields_ok_def)
  have one: "i1 = i" "ps1 \<longleftrightarrow> ps \<or> prefix '':'' n"
    "rqMethod r1 = (if n = '':method'' \<and> rqMethod r = [] then v else rqMethod r)"
    "rqPath r1 = (if n = '':path'' \<and> rqPath r = [] then v else rqPath r)"
    "rqKernelTime r1 = rqKernelTime r" "hasResponseStatus r1 = hasResponseStatus r"
    "responseEndStream r1 = responseEndStream r" "PartialHeaders r1 = PartialHeaders r"
    "rqGrpcStatus r1 = rqGrpcStatus r"
    using e ok(2-4) unfolding f emit_client.simps Let_def by (auto split: if_splits)
  have "first_field (rqMethod r1) '':method'' fs = first_field (rqMethod r) '':method'' (f # fs)"
    "first_field (rqPath r1) '':path'' fs = first_field (rqPath r) '':path'' (f # fs)"
    using one(3,4) ok(2,3) f by (auto simp: first_field_def split: if_splits)
  with Cons.IH [OF ok(1), of r1 i1 ps1] Cons.prems(2) e one f show ?case
    by (simp del: emit_client.simps) blast
qed

lemma emit_server_fold:
  assumes "server_fields_ok s fs" "100 \<le> s" "s \<le> 999"
    and "activeRequests p = [(sid, r)]" "fold (emit_server sid) fs (p, i) = (p', i')"
  shows "i' = i \<and> client p' = client p \<and> server p' = server p \<and> lastGcTime p' = lastGcTime p \<and>
    (\<exists>r'. activeRequests p' = [(sid, r')] \<and>
      rqStatus r' = (if '':status'' \<in> fst ` set fs then s else rqStatus r) \<and>
      (hasResponseStatus r' \<longleftrightarrow> hasResponseStatus r \<or> '':status'' \<in> fst ` set fs) \<and>
      rqMethod r' = rqMethod r \<and> rqPath r' = rqPath r \<and> rqKernelTime r' = rqKernelTime r \<and>
      responseEndStream r' = responseEndStream r \<and> PartialHeaders r' = PartialHeaders r)"
  using assms(1,4,5)
proof (induction fs arbitrary: r i p)
  case Nil
  then show ?case by simp
next
  case (Cons f fs)
  obtain n v where f: "f = (n, v)" by (cases f)
  obtain p1 i1 where e: "emit_server sid f (p, i) = (p1, i1)"
    by (cases "emit_server sid f (p, i)")
  have ok: "server_fields_ok s fs" "n \<notin> {'':method'', '':path'', '':scheme'', '':authority''}"
    "n = '':status'' \<longrightarrow> v = itoa s"
    using Cons.prems(1) f by (auto simp: server_fields_ok_def)
  have at: "atoi (itoa s) = (s, None)" using assms(2,3) by simp
  have one: "i1 = i \<and> client p1 = client p \<and> server p1 = server p \<and> lastGcTime p1 = lastGcTime p \<and>
    (\<exists>r1. activeRequests p1 = [(sid, r1)] \<and> rqStatus r1 = (if n = '':status'' then s else rqStatus r) \<and>
      (hasResponseStatus r1 \<longleftrightarrow> hasResponseStatus r \<or> n = '':status'') \<and>
      rqMethod r1 = rqMethod r \<and> rqPath r1 = rqPath r \<and> rqKernelTime r1 = rqKernelTime r \<and>
      responseEndStream r1 = responseEndStream r \<and> PartialHeaders r1 = PartialHeaders r)"
  proof (cases "n = '':status''")
    case True
    with ok(3) e at assms(2,3) Cons.prems(2) show ?thesis
      unfolding f by (auto simp: modify_request_def stage_def)
  next
    case False
    with ok(2) e Cons.prems(2) show ?thesis
      unfolding f by (auto simp: modify_request_def Let_def split: if_splits)
  qed
  then obtain r1 where r1: "activeRequests p1 = [(sid, r1)]" "rqStatus r1 = (if n = '':status'' then s else rqStatus r)"
      "hasResponseStatus r1 \<longleftrightarrow> hasResponseStatus r \<or> n = '':status''"
      "rqMethod r1 = rqMethod r" "rqPath r1 = rqPath r" "rqKernelTime r1 = rqKernelTime r"
      "responseEndStream r1 = responseEndStream r" "PartialHeaders r1 = PartialHeaders r"
    by blast
  from Cons.IH [OF ok(1) r1(1), of i1] Cons.prems(3) e one r1 f show ?case
    by (simp del: emit_server.simps) force
qed

section \<open>A request and its response\<close>

lemma decode_fresh:
  assumes "\<And>s. huff (henc s) = Some s" "list_all (rep_ok henc) rs"
    and "ref_block limit rs ([], 4096) = Some (fs, s')" "limit \<le> 65536"
  shows "\<exists>d'. decode huff newHpackDecoder (enc_block henc rs) = Some (d', fs, 0, None)"
proof -
  have "mirrored limit 0 (table newHpackDecoder) (unat (maxSize newHpackDecoder)) ([], 4096)"
    using assms(4) by (simp add: mirrored_def hpackMaxTableSize_def newHpackDecoder_def hpackDefaultTableSize_def)
  from full_history.block [OF assms(1) _ assms(2) this assms(3)] new_inv show ?thesis by auto
qed

lemma Parse_one_frame:
  assumes "m = MethodHttp2ClientFrames \<or> m = MethodHttp2ServerFrames"
    and "skip (dir_of m p) = 0" "partialFrame (dir_of m p) = []"
    and "length body < 2 ^ 24" "sid < 2 ^ 31" "t \<le> 9"
    and "handle_frame huff m kt \<lparr>fType = t, fFlags = f, fLength = length body, fStreamId = sid\<rparr> body
      (p\<lparr>statuses := [], grpcStatuses := [], sawValidFrame := True,
         trace := trace p @ [Frame (http2FrameTypeName t) (DestClass p)]\<rparr>) = Some p2"
  shows "Parse huff m (frame_bytes t f sid body) kt 0 p =
    (case fold (fallback kt) (statuses p2) (collect kt p2) of (p3, res) \<Rightarrow> Some (gc kt p3, res))"
proof -
  define q where "q = p\<lparr>sawValidFrame := False, statuses := [], grpcStatuses := []\<rparr>"
  let ?b = "frame_bytes t f sid body"
  have d: "dir_of m q = dir_of m p" by (simp add: q_def dir_of_def)
  have h: "frame_header ?b = Some \<lparr>fType = t, fFlags = f, fLength = length body, fStreamId = sid\<rparr>"
    using frame_header_bytes [OF assms(4,5), of t f "[]"] by simp
  have "t \<le> 0x10" using assms(6) by (auto intro: order_trans)
  then have pre: "strip_preface m ?b = ?b" using no_preface [OF _ h] by simp
  have ne: "?b \<noteq> []" by (simp add: frame_bytes_def put24_def)
  have q: "(frame_event (http2FrameTypeName t) q)\<lparr>sawValidFrame := True\<rparr> =
      p\<lparr>statuses := [], grpcStatuses := [], sawValidFrame := True,
         trace := trace p @ [Frame (http2FrameTypeName t) (DestClass p)]\<rparr>"
    by (simp add: q_def frame_event_def)
  have "frameLoop huff m kt q ?b = Some (p2, [])"
    using frameLoop_frame [OF assms(4-6), of huff m kt q f "[]"] assms(7) unfolding q by simp
  then have "Parse_frames huff m ?b kt 0 q =
      (case fold (fallback kt) (statuses p2) (collect kt p2) of (p3, res) \<Rightarrow> Some (gc kt p3, res))"
    by (simp add: Parse_frames_def save_partial_def)
  moreover have "Parse huff m ?b kt 0 p = Parse_frames huff m ?b kt 0 q"
    using assms(1-3) pre ne d
    by (auto simp: Parse_def Let_def q_def [symmetric] skip_rest_def prepend_partial_def)
  ultimately show ?thesis by simp
qed

lemma collect_none:
  "list_all (Not \<circ> complete_request \<circ> snd) (activeRequests p) \<Longrightarrow> distinct (map fst (activeRequests p)) \<Longrightarrow>
     activeRequests (fst (collect kt p)) = activeRequests p \<and> snd (collect kt p) = []"
  by (simp add: collect_requests collect_results list_all_iff filter_empty_conv)

lemma extract_plain [simp]: "extractHeaderBlockFragment 4 b = Some (Some b)" "extractHeaderBlockFragment 5 b = Some (Some b)"
  by (simp_all add: extractHeaderBlockFragment_def http2FlagPadded_def http2FlagPriority_def)

text \<open>The request: a fresh parser tracks it with the method and path that were sent.\<close>

lemma request_tracked:
  assumes "decode huff newHpackDecoder block = Some (h, fs, 0, None)" "client_fields_ok fs"
    and "map_of fs '':method'' = Some meth" "map_of fs '':path'' = Some path"
    and "length block < 2 ^ 24" "sid < 2 ^ 31"
  shows "\<exists>p1 r. Parse huff MethodHttp2ClientFrames (frame_bytes FrameHeaders 4 sid block) kt 0 NewHttp2Parser
      = Some (p1, []) \<and> activeRequests p1 = [(sid, r)] \<and> server p1 = new_direction \<and>
    rqMethod r = meth \<and> rqPath r = path \<and> rqKernelTime r = kt \<and> \<not> hasResponseStatus r \<and>
    \<not> responseEndStream r \<and> \<not> PartialHeaders r"
proof -
  let ?m = MethodHttp2ClientFrames
  define q where "q = NewHttp2Parser\<lparr>statuses := [], grpcStatuses := [], sawValidFrame := True,
         trace := trace NewHttp2Parser @ [Frame (http2FrameTypeName FrameHeaders) (DestClass NewHttp2Parser)]\<rparr>"
  have sel: "activeRequests q = []" "client q = new_direction" "server q = new_direction" "statuses q = []"
    "lastGcTime q = 0"
    by (simp_all add: q_def NewHttp2Parser_def)
  obtain r i ps where f: "fold emit_client fs (new_request kt, False, False) = (r, i, ps)"
    by (cases "fold emit_client fs (new_request kt, False, False)")
  from emit_client_fold [OF assms(2) f] assms(3,4)
  have r: "\<not> i" "rqMethod r = meth" "rqPath r = path" "rqKernelTime r = kt"
      "\<not> hasResponseStatus r" "\<not> responseEndStream r" "\<not> PartialHeaders r"
    and ps: "ps \<longleftrightarrow> (\<exists>n v. (n, v) \<in> set fs \<and> prefix '':'' n)"
    by (simp_all add: first_field_def new_request_def)
  have "ps" using ps map_of_SomeD [OF assms(3)] by auto
  define p2 where "p2 = track_request sid r (set_decoder ?m h q)"
  have p2: "activeRequests p2 = [(sid, r)]" "server p2 = new_direction" "statuses p2 = []"
    "pendingHeaders (client p2) = None" "pendingHeaders (server p2) = None" "lastGcTime p2 = 0"
    using sel by (simp_all add: p2_def track_request_def set_decoder_def upd_dir_def maxActiveRequests_def Let_def
        new_direction_def)
  have "handle_frame huff ?m kt \<lparr>fType = FrameHeaders, fFlags = 4, fLength = length block, fStreamId = sid\<rparr> block q
      = Some p2"
    using assms(1) f \<open>ps\<close> r(1) sel
    by (simp add: handle_frame_def frame_types headers_frame_def dropPendingHeaders_def dir_of_def new_direction_def
        http2FlagEndHeaders_def decodeHeaderBlock_def client_block_def finish_block_def p2_def Let_def)
  then have P: "Parse huff ?m (frame_bytes FrameHeaders 4 sid block) kt 0 NewHttp2Parser =
      (case fold (fallback kt) (statuses p2) (collect kt p2) of (p3, res) \<Rightarrow> Some (gc kt p3, res))"
    using assms(5,6) unfolding q_def
    by (intro Parse_one_frame) (simp_all add: dir_of_def NewHttp2Parser_def new_direction_def frame_types)
  from collect_none [of p2 kt] p2(1) r have c: "activeRequests (fst (collect kt p2)) = [(sid, r)]" "snd (collect kt p2) = []"
    by (simp_all add: complete_request_def)
  define p1 where "p1 = gc kt (fst (collect kt p2))"
  have "activeRequests p1 = [(sid, r)]" "server p1 = new_direction"
    unfolding p1_def gc_def using c p2 by (simp_all add: collect_def Let_def)
  moreover have "Parse huff ?m (frame_bytes FrameHeaders 4 sid block) kt 0 NewHttp2Parser = Some (p1, [])"
    using P c p2(3) by (simp add: p1_def case_prod_beta)
  ultimately show ?thesis using r by blast
qed

text \<open>The response: it completes the one request that is tracked.\<close>

lemma response_completes:
  assumes "decode huff newHpackDecoder block = Some (h, fs, 0, None)" "server_fields_ok s fs"
    and "'':status'' \<in> fst ` set fs" "100 \<le> s" "s \<le> 999"
    and "length block < 2 ^ 24" "sid < 2 ^ 31"
    and p: "activeRequests p = [(sid, r)]" "server p = new_direction"
  shows "\<exists>p2 r'. Parse huff MethodHttp2ServerFrames (frame_bytes FrameHeaders 5 sid block) kt 0 p = Some (p2, [r']) \<and>
    activeRequests p2 = [] \<and> rqMethod r' = rqMethod r \<and> rqPath r' = rqPath r \<and> rqStatus r' = s \<and>
    rqDuration r' = safeKernelDuration kt (rqKernelTime r) \<and> PartialHeaders r' = PartialHeaders r"
proof -
  let ?m = MethodHttp2ServerFrames
  define q where "q = p\<lparr>statuses := [], grpcStatuses := [], sawValidFrame := True,
         trace := trace p @ [Frame (http2FrameTypeName FrameHeaders) (DestClass p)]\<rparr>"
  have sel: "activeRequests q = [(sid, r)]" "server q = new_direction" "statuses q = []"
    using p by (simp_all add: q_def)
  define r0 where "r0 = r\<lparr>responseEndStream := True\<rparr>"
  define q1 where "q1 = mark_end_stream sid q"
  have q1: "activeRequests q1 = [(sid, r0)]" "server q1 = new_direction"
    using sel by (simp_all add: q1_def r0_def mark_end_stream_def)
  obtain q2 i where f: "fold (emit_server sid) fs (q1, False) = (q2, i)"
    by (cases "fold (emit_server sid) fs (q1, False)")
  from emit_server_fold [OF assms(2,4,5) q1(1) f] assms(3) q1 obtain r1 where
    i: "\<not> i" and q2: "activeRequests q2 = [(sid, r1)]" "server q2 = new_direction" and
    r1: "rqStatus r1 = s" "hasResponseStatus r1" "rqMethod r1 = rqMethod r" "rqPath r1 = rqPath r"
      "rqKernelTime r1 = rqKernelTime r" "responseEndStream r1" "PartialHeaders r1 = PartialHeaders r"
    by (auto simp: r0_def)
  define p2 where "p2 = set_decoder ?m h q2"
  have p2: "activeRequests p2 = [(sid, r1)]" using q2 by (simp add: p2_def set_decoder_def)
  have "server_block huff sid True block q = Some p2"
    using assms(1) sel f i
    by (simp add: server_block_def Let_def q1_def [symmetric] finish_block_def p2_def new_direction_def)
  then have "handle_frame huff ?m kt \<lparr>fType = FrameHeaders, fFlags = 5, fLength = length block, fStreamId = sid\<rparr> block q
      = Some p2"
    using sel(2)
    by (simp add: handle_frame_def frame_types headers_frame_def dropPendingHeaders_def dir_of_def new_direction_def
        http2FlagEndHeaders_def http2FlagEndStream_def decodeHeaderBlock_def Let_def)
  then have P: "Parse huff ?m (frame_bytes FrameHeaders 5 sid block) kt 0 p =
      (case fold (fallback kt) (statuses p2) (collect kt p2) of (p3, res) \<Rightarrow> Some (gc kt p3, res))"
    using assms(6,7) p unfolding q_def
    by (intro Parse_one_frame) (simp_all add: dir_of_def new_direction_def frame_types)
  have c: "activeRequests (fst (collect kt p2)) = []"
    "snd (collect kt p2) = [finish_request kt (grpcStatuses p2) sid r1]"
    using p2 r1 by (simp_all add: collect_requests collect_results complete_request_def)
  have fb: "fold (fallback kt) (statuses p2) (collect kt p2) = collect kt p2"
    using fold_fallback_dead [of "statuses p2" "fst (collect kt p2)" kt "snd (collect kt p2)"] c(1) by simp
  have "Parse huff ?m (frame_bytes FrameHeaders 5 sid block) kt 0 p =
      Some (gc kt (fst (collect kt p2)), [finish_request kt (grpcStatuses p2) sid r1])"
    using P c(2) unfolding fb by (simp add: case_prod_beta)
  moreover have "activeRequests (gc kt (fst (collect kt p2))) = []"
    using gc_requests [of kt "fst (collect kt p2)"] c(1) by simp
  ultimately show ?thesis using r1 by (simp add: finish_request_def)
qed

text \<open>
  C1. End to end: on a fresh connection the client sends a HEADERS frame whose block encodes the
  fields \<open>fs\<close>, with a method and a path, and the server answers with a HEADERS frame that ends the
  stream and whose block encodes \<open>gs\<close>, with the status \<open>s\<close>. The first call returns nothing; the
  second returns exactly one request, with that method, path and status, complete headers and the
  time between the two events, and the parser tracks no request any more.
\<close>

theorem http2_exchange:
  assumes "\<And>s. huff (henc s) = Some s" "limit \<le> 65536" "sid < 2 ^ 31"
    and "list_all (rep_ok henc) rs" "ref_block limit rs ([], 4096) = Some (fs, t)"
    and "length (enc_block henc rs) < 2 ^ 24" "client_fields_ok fs"
    and "map_of fs '':method'' = Some meth" "map_of fs '':path'' = Some path"
    and "list_all (rep_ok henc) rs'" "ref_block limit rs' ([], 4096) = Some (gs, t')"
    and "length (enc_block henc rs') < 2 ^ 24" "server_fields_ok s gs"
    and "'':status'' \<in> fst ` set gs" "100 \<le> s" "s \<le> 999"
  shows "\<exists>p1 p2 r.
    Parse huff MethodHttp2ClientFrames (frame_bytes FrameHeaders 4 sid (enc_block henc rs)) kt1 0 NewHttp2Parser
      = Some (p1, []) \<and>
    Parse huff MethodHttp2ServerFrames (frame_bytes FrameHeaders 5 sid (enc_block henc rs')) kt2 0 p1
      = Some (p2, [r]) \<and>
    rqMethod r = meth \<and> rqPath r = path \<and> rqStatus r = s \<and> \<not> PartialHeaders r \<and>
    rqDuration r = safeKernelDuration kt2 kt1 \<and> ActiveRequestCount p2 = 0"
proof -
  obtain d where d: "decode huff newHpackDecoder (enc_block henc rs) = Some (d, fs, 0, None)"
    using decode_fresh [OF assms(1,4,5,2)] by blast
  obtain d' where d': "decode huff newHpackDecoder (enc_block henc rs') = Some (d', gs, 0, None)"
    using decode_fresh [OF assms(1,10,11,2)] by blast
  from request_tracked [OF d assms(7-9,6,3), of kt1] obtain p1 r where
    p1: "Parse huff MethodHttp2ClientFrames (frame_bytes FrameHeaders 4 sid (enc_block henc rs)) kt1 0 NewHttp2Parser
      = Some (p1, [])" "activeRequests p1 = [(sid, r)]" "server p1 = new_direction" "rqMethod r = meth" "rqPath r = path"
      "rqKernelTime r = kt1" "\<not> PartialHeaders r"
    by blast
  from response_completes [OF d' assms(13-16,12,3) p1(2,3), of kt2] p1 show ?thesis
    by (auto simp: ActiveRequestCount_def)
qed

theorem http2_exchange_witness:
  "\<exists>p1 p2 r.
    Parse (\<lambda>b. Some (gostr b)) MethodHttp2ClientFrames
      (frame_bytes FrameHeaders 4 1 (enc_block bytes_of [Indexed 2, Literal Incremental (Inl 4) (Huffman ''/a'')]))
      100 0 NewHttp2Parser = Some (p1, []) \<and>
    Parse (\<lambda>b. Some (gostr b)) MethodHttp2ServerFrames
      (frame_bytes FrameHeaders 5 1 (enc_block bytes_of [Literal NeverIndexed (Inl 8) (Raw (itoa 503))])) 170 0 p1
      = Some (p2, [r]) \<and>
    rqMethod r = ''GET'' \<and> rqPath r = ''/a'' \<and> rqStatus r = 503 \<and> \<not> PartialHeaders r \<and>
    rqDuration r = safeKernelDuration 170 100 \<and> ActiveRequestCount p2 = 0"
proof (rule http2_exchange [where limit = 4096 and fs = "[('':method'', ''GET''), ('':path'', ''/a'')]"
      and gs = "[('':status'', itoa 503)]"])
  show "ref_block 4096 [Indexed 2, Literal Incremental (Inl 4) (Huffman ''/a'')] ([], 4096)
      = Some ([('':method'', ''GET''), ('':path'', ''/a'')], [('':path'', ''/a'')], 4096)"
    by (simp add: ref_eval)
  show "ref_block 4096 [Literal NeverIndexed (Inl 8) (Raw (itoa 503))] ([], 4096)
      = Some ([('':status'', itoa 503)], [], 4096)"
    by (simp add: ref_eval)
qed (simp_all add: rep_ok_def str_ok_def client_fields_ok_def server_fields_ok_def isHttpMethod_def isHttpPath_def
    enc_block_def enc_rep_def enc_int_def enc_str_def itoa_def format_nat.simps enc_rest.simps)

end
