(* ===== verification/Sni.thy ===== *)
theory Sni
  imports Prelude
begin

text \<open>
  \<open>ParseSNI\<close> of \<open>src/ebpftracer/l7/sni.go\<close>: the host name of a TLS ClientHello. The result is
  \<^term>\<open>None\<close> for a panic, otherwise the error or the name. Every slice and index expression of the
  source is a partial operation here (\<open>slice\<close>, \<open>at\<close>, \<open>be16\<close>); that none of them is out of range is
  a theorem.
\<close>

type_synonym sni_result = "(string + string) option"

section \<open>The parser\<close>

text \<open>The inner loop, over the entries of the server name list.\<close>

function name_loop :: "bytes \<Rightarrow> sni_result" where
  "name_loop list =
     (if length list < 3 then Some (Inl ''server_name list had no host_name entry'')
      else do {
        nameType \<leftarrow> at list 0;
        l \<leftarrow> slice list 1 3;
        nameLen \<leftarrow> be16 l;
        (if 3 + nameLen > length list then Some (Inl ''server_name entry truncated'')
         else if nameType = 0 then do { n \<leftarrow> slice list 3 (3 + nameLen); Some (Inr (gostr n)) }
         else name_loop (drop (3 + nameLen) list))
      })"
  by pat_completeness auto
termination
  by (relation "measure length") auto

declare name_loop.simps [simp del]

definition server_name :: "bytes \<Rightarrow> sni_result" where
  "server_name extData =
     (if length extData < 2 then Some (Inl ''server_name list length truncated'')
      else do {
        l \<leftarrow> slice extData 0 2;
        listLen \<leftarrow> be16 l;
        list \<leftarrow> slice extData 2 (length extData);
        list' \<leftarrow> slice list 0 (min listLen (length list));
        name_loop list'
      })"

text \<open>The outer loop, over the extensions.\<close>

function ext_loop :: "bytes \<Rightarrow> sni_result" where
  "ext_loop exts =
     (if length exts < 4 then Some (Inl ''server_name extension not found'')
      else do {
        t \<leftarrow> slice exts 0 2;
        extType \<leftarrow> be16 t;
        l \<leftarrow> slice exts 2 4;
        extLen \<leftarrow> be16 l;
        (if 4 + extLen > length exts then Some (Inl ''extension data truncated'')
         else do {
           extData \<leftarrow> slice exts 4 (4 + extLen);
           (if extType \<noteq> 0 then ext_loop (drop (4 + extLen) exts) else server_name extData)
         })
      })"
  by pat_completeness auto
termination
  by (relation "measure length") auto

declare ext_loop.simps [simp del]

text \<open>
  The length-prefixed fields before the extensions: a length of one or two bytes, and the bytes it
  counts. \<open>skip8\<close> and \<open>skip16\<close> return what follows.
\<close>

definition skip8 :: "string \<Rightarrow> string \<Rightarrow> bytes \<Rightarrow> (string + bytes) option" where
  "skip8 noLength truncated body =
     (if length body < 1 then Some (Inl noLength)
      else do {
        n \<leftarrow> at body 0;
        (if 1 + unat n > length body then Some (Inl truncated)
         else do { b \<leftarrow> slice body (1 + unat n) (length body); Some (Inr b) })
      })"

definition skip16 :: "string \<Rightarrow> string \<Rightarrow> bytes \<Rightarrow> (string + bytes) option" where
  "skip16 noLength truncated body =
     (if length body < 2 then Some (Inl noLength)
      else do {
        l \<leftarrow> slice body 0 2;
        n \<leftarrow> be16 l;
        (if 2 + n > length body then Some (Inl truncated)
         else do { b \<leftarrow> slice body (2 + n) (length body); Some (Inr b) })
      })"

definition extensions :: "bytes \<Rightarrow> sni_result" where
  "extensions body =
     (if length body < 2 then Some (Inl ''no extensions'')
      else do {
        l \<leftarrow> slice body 0 2;
        extensionsLen \<leftarrow> be16 l;
        b \<leftarrow> slice body 2 (length body);
        exts \<leftarrow> slice b 0 (min extensionsLen (length b));
        ext_loop exts
      })"

text \<open>Running a step that may panic or fail, then the rest.\<close>

definition andThen :: "(string + 'a) option \<Rightarrow> ('a \<Rightarrow> (string + 'b) option) \<Rightarrow> (string + 'b) option" where
  "andThen r f = (case r of None \<Rightarrow> None | Some (Inl e) \<Rightarrow> Some (Inl e) | Some (Inr x) \<Rightarrow> f x)"

definition handshake_header :: "bytes \<Rightarrow> (string + bytes) option" where
  "handshake_header record =
     (if length record < 5 then Some (Inl ''record too short'')
      else do {
        t \<leftarrow> at record 0;
        (if t \<noteq> 0x16 then Some (Inl ''not a handshake record'')
         else do {
           body \<leftarrow> slice record 5 (length record);
           (if length body < 4 then Some (Inl ''handshake header truncated'')
            else do {
              h \<leftarrow> at body 0;
              (if h \<noteq> 0x01 then Some (Inl ''not a ClientHello'')
               else do { b \<leftarrow> slice body 4 (length body); Some (Inr b) })
            })
         })
      })"

definition client_random :: "bytes \<Rightarrow> (string + bytes) option" where
  "client_random body =
     (if length body < 2 + 32 then Some (Inl ''client random truncated'')
      else do { b \<leftarrow> slice body (2 + 32) (length body); Some (Inr b) })"

definition ParseSNI :: "bytes \<Rightarrow> sni_result" where
  "ParseSNI record =
     andThen (handshake_header record) (\<lambda>b1.
     andThen (client_random b1) (\<lambda>b2.
     andThen (skip8 ''session_id length truncated'' ''session_id truncated'' b2) (\<lambda>b3.
     andThen (skip16 ''cipher_suites length truncated'' ''cipher_suites truncated'' b3) (\<lambda>b4.
     andThen (skip8 ''compression_methods length truncated'' ''compression_methods truncated'' b4)
       extensions))))"

section \<open>No panic\<close>

lemma be16_take [simp]: "2 \<le> length b \<Longrightarrow> be16 (take 2 b) = be16 b"
  by (cases b rule: be16.cases) auto

lemma be16_put16_only [simp]: "n < 65536 \<Longrightarrow> be16 (put16 n) = Some n"
  using be16_put16 [of n "[]"] by simp

lemma name_loop_total [panic_free]: "\<exists>r. name_loop b = Some r"
proof (induction b rule: name_loop.induct)
  case (1 b)
  show ?case
  proof (cases "length b < 3")
    case False
    then obtain n where "be16 (drop 1 b) = Some n" using be16_Some [of "drop 1 b"] by fastforce
    with False "1.IH" show ?thesis by (subst name_loop.simps) (auto simp: at_def slice_def)
  qed (simp add: name_loop.simps)
qed

lemma server_name_total [panic_free]: "\<exists>r. server_name b = Some r"
  using be16_Some [of b] name_loop_total by (auto simp: server_name_def)

lemma ext_loop_total [panic_free]: "\<exists>r. ext_loop b = Some r"
proof (induction b rule: ext_loop.induct)
  case (1 b)
  show ?case
  proof (cases "length b < 4")
    case False
    obtain t where t: "be16 b = Some t" using False be16_Some [of b] by auto
    obtain n where n: "be16 (drop 2 b) = Some n" using False be16_Some [of "drop 2 b"] by fastforce
    show ?thesis
      using False t n "1.IH" server_name_total by (subst ext_loop.simps) auto
  qed (simp add: ext_loop.simps)
qed

lemma skip8_total [panic_free]: "\<exists>r. skip8 e e' b = Some r"
  by (auto simp: skip8_def)

lemma skip16_total [panic_free]: "\<exists>r. skip16 e e' b = Some r"
  using be16_Some [of b] by (auto simp: skip16_def)

lemma extensions_total [panic_free]: "\<exists>r. extensions b = Some r"
  using be16_Some [of b] ext_loop_total by (auto simp: extensions_def)

lemma andThen_total: "\<exists>r. x = Some r \<Longrightarrow> (\<And>y. \<exists>r. f y = Some r) \<Longrightarrow> \<exists>r. andThen x f = Some r"
  by (auto simp: andThen_def split: sum.splits)

lemma handshake_header_total [panic_free]: "\<exists>r. handshake_header b = Some r"
  by (auto simp: handshake_header_def at_def slice_def)

lemma client_random_total [panic_free]: "\<exists>r. client_random b = Some r"
  by (auto simp: client_random_def)

text \<open>
  C14. \<open>ParseSNI\<close> returns on every input, truncated or malformed as it may be: no slice expression
  is out of range and both loops end.
\<close>

theorem ParseSNI_total: "\<exists>r. ParseSNI record = Some r"
  unfolding ParseSNI_def
  by (intro andThen_total handshake_header_total client_random_total skip8_total skip16_total extensions_total)

section \<open>The ClientHello as bytes\<close>

definition vec8 :: "bytes \<Rightarrow> bytes" where
  "vec8 b = of_nat (length b) # b"

definition vec16 :: "bytes \<Rightarrow> bytes" where
  "vec16 b = put16 (length b) @ b"

definition enc_ext :: "nat \<times> bytes \<Rightarrow> bytes" where
  "enc_ext e = put16 (fst e) @ vec16 (snd e)"

definition enc_name :: "u8 \<times> bytes \<Rightarrow> bytes" where
  "enc_name n = fst n # vec16 (snd n)"

text \<open>The fields up to the extensions; the record and handshake headers have any lengths.\<close>

definition enc_hello :: "bytes \<Rightarrow> bytes \<Rightarrow> bytes \<Rightarrow> bytes \<Rightarrow> bytes \<Rightarrow> bytes \<Rightarrow> bytes" where
  "enc_hello rh hh rnd sid ciphers methods =
     [0x16] @ rh @ [0x01] @ hh @ rnd @ vec8 sid @ vec16 ciphers @ vec8 methods"

lemma name_loop_other:
  "fst n \<noteq> 0 \<Longrightarrow> length (snd n) < 65536 \<Longrightarrow> name_loop (enc_name n @ r) = name_loop r"
  by (subst name_loop.simps) (simp add: enc_name_def vec16_def slice_def drop_Cons')

lemma name_loop_host:
  "length host < 65536 \<Longrightarrow> name_loop (enc_name (0, host) @ r) = Some (Inr (gostr host))"
  by (subst name_loop.simps) (simp add: enc_name_def vec16_def slice_def)

lemma name_loop_list:
  "list_all (\<lambda>n. fst n \<noteq> 0 \<and> length (snd n) < 65536) ns \<Longrightarrow> length host < 65536 \<Longrightarrow>
     name_loop (concat (map enc_name ns) @ enc_name (0, host) @ r) = Some (Inr (gostr host))"
  by (induction ns) (simp_all add: name_loop_other name_loop_host)

lemma ext_loop_other:
  "0 < fst e \<Longrightarrow> fst e < 65536 \<Longrightarrow> length (snd e) < 65536 \<Longrightarrow> ext_loop (enc_ext e @ r) = ext_loop r"
  by (subst ext_loop.simps) (simp add: enc_ext_def vec16_def slice_def)

lemma ext_loop_server_name:
  "length d < 65536 \<Longrightarrow> ext_loop (enc_ext (0, d) @ r) = server_name d"
  by (subst ext_loop.simps) (simp add: enc_ext_def vec16_def slice_def)

lemma ext_loop_list:
  "list_all (\<lambda>e. 0 < fst e \<and> fst e < 65536 \<and> length (snd e) < 65536) es \<Longrightarrow> length d < 65536 \<Longrightarrow>
     ext_loop (concat (map enc_ext es) @ enc_ext (0, d) @ r) = server_name d"
  by (induction es) (simp_all add: ext_loop_other ext_loop_server_name)

section \<open>The name is found\<close>

lemma skip8_vec [simp]: "length v < 256 \<Longrightarrow> skip8 e e' (vec8 v @ r) = Some (Inr r)"
  by (simp add: skip8_def vec8_def)

lemma skip16_vec [simp]: "length v < 65536 \<Longrightarrow> skip16 e e' (vec16 v @ r) = Some (Inr r)"
  by (simp add: skip16_def vec16_def slice_def)

lemma extensions_vec: "length v < 65536 \<Longrightarrow> extensions (vec16 v @ r) = ext_loop v"
  by (simp add: extensions_def vec16_def slice_def)

lemma ParseSNI_hello:
  assumes "length rh = 4" "length hh = 3" "length rnd = 34" "length sid < 256" "length ciphers < 65536"
    "length methods < 256"
  shows "ParseSNI (enc_hello rh hh rnd sid ciphers methods @ r) = extensions r"
proof -
  have "handshake_header (enc_hello rh hh rnd sid ciphers methods @ r) =
      Some (Inr (rnd @ vec8 sid @ vec16 ciphers @ vec8 methods @ r))"
    using assms(1,2) by (simp add: handshake_header_def enc_hello_def)
  moreover have "client_random (rnd @ c) = Some (Inr c)" for c
    using assms(3) by (simp add: client_random_def)
  ultimately show ?thesis using assms(4-6) by (simp add: ParseSNI_def andThen_def)
qed

text \<open>
  C13. The host name of a ClientHello is found: for any session id, cipher suites, compression
  methods, extensions before and after, and any entries of other types before it in the server name
  list, \<open>ParseSNI\<close> returns the first host name of the first server name extension.
\<close>

theorem ParseSNI_finds_host:
  assumes "length rh = 4" "length hh = 3" "length rnd = 34" "length sid < 256" "length ciphers < 65536"
    "length methods < 256"
    and "list_all (\<lambda>e. 0 < fst e \<and> fst e < 65536 \<and> length (snd e) < 65536) es"
    and "list_all (\<lambda>n. fst n \<noteq> 0 \<and> length (snd n) < 65536) ns"
    and "names = concat (map enc_name ns) @ enc_name (0, host) @ names'"
    and "exts = concat (map enc_ext es) @ enc_ext (0, vec16 names) @ exts'"
    and "length exts < 65536"
  shows "ParseSNI (enc_hello rh hh rnd sid ciphers methods @ vec16 exts @ trailing) = Some (Inr (gostr host))"
proof -
  have len: "length (vec16 names) \<le> length exts" "length host \<le> length names"
    using assms(9,10) by (simp_all add: enc_ext_def vec16_def enc_name_def)
  then have small: "length (vec16 names) < 65536" "length host < 65536" "length names < 65536"
    using assms(11) by (simp_all add: vec16_def)
  from small(3) have "server_name (vec16 names) = name_loop names"
    by (simp add: server_name_def vec16_def slice_def)
  also have "\<dots> = Some (Inr (gostr host))"
    unfolding assms(9) using name_loop_list [OF assms(8) small(2)] by simp
  finally have "ext_loop exts = Some (Inr (gostr host))"
    unfolding assms(10) using ext_loop_list [OF assms(7) small(1)] by simp
  then show ?thesis
    using ParseSNI_hello [OF assms(1-6)] extensions_vec [OF assms(11)] by simp
qed

theorem ParseSNI_finds_host_witness:
  "ParseSNI (enc_hello [3, 1, 0, 200] [0, 0, 196] (replicate 34 7) [1, 2] [19, 1] [0] @
      vec16 (concat (map enc_ext [(43, [2, 3, 4])]) @
        enc_ext (0, vec16 (concat (map enc_name []) @ enc_name (0, bytes_of ''a.io'') @ [])) @ []) @ [])
    = Some (Inr (gostr (bytes_of ''a.io'')))"
  by (rule ParseSNI_finds_host [OF _ _ _ _ _ _ _ _ refl refl]) (simp_all add: enc_ext_def vec16_def enc_name_def)

section \<open>More bytes do not change a found name\<close>

lemma be16_append: "2 \<le> length b \<Longrightarrow> be16 (b @ c) = be16 b"
  by (cases b rule: be16.cases) auto

lemma ext_loop_more:
  "ext_loop exts = Some (Inr host) \<Longrightarrow> ext_loop (exts @ c) = Some (Inr host)"
proof (induction exts rule: ext_loop.induct)
  case (1 exts)
  show ?case
  proof (cases "length exts < 4")
    case True
    with "1.prems" show ?thesis by (simp add: ext_loop.simps)
  next
    case False
    then obtain t where t: "be16 exts = Some t" using be16_Some [of exts] by auto
    obtain n where n: "be16 (drop 2 exts) = Some n" using False be16_Some [of "drop 2 exts"] by fastforce
    from False have app: "be16 (exts @ c) = be16 exts" "be16 (drop 2 exts @ c) = be16 (drop 2 exts)"
      by (simp_all add: be16_append)
    have len: "4 + n \<le> length exts"
      using "1.prems" False t n by (subst (asm) ext_loop.simps) (auto split: if_splits)
    show ?thesis
    proof (cases "t = 0")
      case True
      with "1.prems" False t n app len show ?thesis
        by (subst ext_loop.simps, subst (asm) ext_loop.simps) (simp add: not_less)
    next
      case other: False
      with "1.prems" False t n len have "ext_loop (drop (4 + n) exts) = Some (Inr host)"
        by (subst (asm) ext_loop.simps) (simp add: not_less)
      moreover have "ext_loop (exts @ c) = ext_loop (drop (4 + n) exts @ c)"
        using False t n app len other by (subst ext_loop.simps) (simp add: not_less)
      moreover have "ext_loop (drop (4 + n) exts) = Some (Inr host) \<Longrightarrow>
          ext_loop (drop (4 + n) exts @ c) = Some (Inr host)"
        using "1.IH" False t n len other by simp
      ultimately show ?thesis by simp
    qed
  qed
qed

lemma extensions_more: "extensions b = Some (Inr host) \<Longrightarrow> extensions (b @ c) = Some (Inr host)"
proof -
  assume e: "extensions b = Some (Inr host)"
  then have len: "2 \<le> length b" by (auto simp: extensions_def split: if_splits)
  then obtain n where n: "be16 b = Some n" using be16_Some by blast
  from e len n have "ext_loop (take n (drop 2 b)) = Some (Inr host)"
    by (simp add: extensions_def min_def split: if_splits)
  from ext_loop_more [OF this, of "take (n - (length b - 2)) c"]
  have "ext_loop (take n (drop 2 b @ c)) = Some (Inr host)" by simp
  then show ?thesis using len n by (auto simp: extensions_def be16_append min_def)
qed

lemma skip8_more: "skip8 e e' b = Some (Inr r) \<Longrightarrow> skip8 e e' (b @ c) = Some (Inr (r @ c))"
  by (auto simp: skip8_def at_def slice_def nth_append split: if_splits)

lemma skip16_more: "skip16 e e' b = Some (Inr r) \<Longrightarrow> skip16 e e' (b @ c) = Some (Inr (r @ c))"
  by (auto simp: skip16_def slice_def be16_append split: if_splits bind_splits)

lemma handshake_header_more:
  "handshake_header b = Some (Inr r) \<Longrightarrow> handshake_header (b @ c) = Some (Inr (r @ c))"
  by (auto simp: handshake_header_def at_def slice_def nth_append split: if_splits)

lemma client_random_more:
  "client_random b = Some (Inr r) \<Longrightarrow> client_random (b @ c) = Some (Inr (r @ c))"
  by (auto simp: client_random_def slice_def split: if_splits)

lemma andThen_Inr: "andThen x f = Some (Inr z) \<longleftrightarrow> (\<exists>y. x = Some (Inr y) \<and> f y = Some (Inr z))"
  by (auto simp: andThen_def split: option.splits sum.splits)

text \<open>
  A name found in a prefix of the record is the name of the record: capturing more bytes never
  changes it.
\<close>

theorem ParseSNI_prefix:
  assumes "ParseSNI record = Some (Inr host)"
  shows "ParseSNI (record @ more) = Some (Inr host)"
proof -
  from assms obtain b1 b2 b3 b4 b5 where b: "handshake_header record = Some (Inr b1)"
      "client_random b1 = Some (Inr b2)"
      "skip8 ''session_id length truncated'' ''session_id truncated'' b2 = Some (Inr b3)"
      "skip16 ''cipher_suites length truncated'' ''cipher_suites truncated'' b3 = Some (Inr b4)"
      "skip8 ''compression_methods length truncated'' ''compression_methods truncated'' b4 = Some (Inr b5)"
      "extensions b5 = Some (Inr host)"
    unfolding ParseSNI_def andThen_Inr by (elim exE conjE) (rule that)
  show ?thesis
    using handshake_header_more [OF b(1), of more] client_random_more [OF b(2), of more]
      skip8_more [OF b(3), of more] skip16_more [OF b(4), of more] skip8_more [OF b(5), of more]
      extensions_more [OF b(6), of more]
    by (simp add: ParseSNI_def andThen_def)
qed

theorem ParseSNI_prefix_witness:
  "ParseSNI ((enc_hello [3, 1, 0, 200] [0, 0, 196] (replicate 34 7) [1, 2] [19, 1] [0] @
      vec16 (enc_ext (0, vec16 (enc_name (0, bytes_of ''a.io''))))) @ [99]) = Some (Inr ''a.io'')"
proof (rule ParseSNI_prefix)
  have "ext_loop (enc_ext (0, vec16 (enc_name (0, bytes_of ''a.io'')))) = Some (Inr ''a.io'')"
    using ext_loop_server_name [of "vec16 (enc_name (0, bytes_of ''a.io''))" "[]"]
      name_loop_host [of "bytes_of ''a.io''" "[]"]
    by (simp add: server_name_def vec16_def slice_def enc_name_def)
  with extensions_vec [of "enc_ext (0, vec16 (enc_name (0, bytes_of ''a.io'')))" "[]"]
  have "extensions (vec16 (enc_ext (0, vec16 (enc_name (0, bytes_of ''a.io''))))) = Some (Inr ''a.io'')"
    by (simp add: enc_ext_def enc_name_def vec16_def)
  then show "ParseSNI (enc_hello [3, 1, 0, 200] [0, 0, 196] (replicate 34 7) [1, 2] [19, 1] [0] @
      vec16 (enc_ext (0, vec16 (enc_name (0, bytes_of ''a.io''))))) = Some (Inr ''a.io'')"
    by (subst ParseSNI_hello) simp_all
qed

end
