(* ===== verification/Statements.thy ===== *)
theory Statements
  imports Prelude
begin

text \<open>
  The SQL parsers that remember prepared statements: \<open>PostgresParser\<close> of
  \<open>src/ebpftracer/l7/postgres.go\<close> and \<open>MysqlParser\<close> of \<open>src/ebpftracer/l7/mysql.go\<close>. The locale
  \<open>prepared_statements\<close> states what both promise to the code that reports queries; both are
  interpreted with operations that run \<open>Parse\<close> on the wire messages.
\<close>

section \<open>The interface\<close>

text \<open>What a message does to the statements a connection knows, and the statements after some messages.\<close>

datatype 'n stmt_effect = Prepare 'n string | Close 'n | Keep

fun effect_on :: "'n stmt_effect \<Rightarrow> ('n \<Rightarrow> string option) \<Rightarrow> 'n \<Rightarrow> string option" where
  "effect_on (Prepare n q) m = m(n \<mapsto> q)"
| "effect_on (Close n) m = m(n := None)"
| "effect_on Keep m = m"

definition statements_after :: "'n stmt_effect list \<Rightarrow> 'n \<Rightarrow> string option" where
  "statements_after es = fold effect_on es Map.empty"

text \<open>A parser run over messages; \<^term>\<open>None\<close> is a panic of one of the calls.\<close>

fun run_all :: "('m \<Rightarrow> 's \<Rightarrow> (string \<times> 's) option) \<Rightarrow> 'm list \<Rightarrow> 's \<Rightarrow> (string list \<times> 's) option" where
  "run_all handle [] s = Some ([], s)"
| "run_all handle (m # ms) s =
     do { (out, s1) \<leftarrow> handle m s; (outs, s2) \<leftarrow> run_all handle ms s1; Some (out # outs, s2) }"

text \<open>
  \<open>handle\<close> is the parser on a message, \<open>lookup\<close> the text it holds for a statement, \<open>effect\<close> what the message
  means, \<open>executes\<close> the statement it executes, \<open>unknown\<close> what is reported for one that is not known.
\<close>

locale prepared_statements =
  fixes handle :: "'m \<Rightarrow> 's \<Rightarrow> (string \<times> 's) option"
    and lookup :: "'s \<Rightarrow> 'n \<Rightarrow> string option"
    and effect :: "'m \<Rightarrow> 'n stmt_effect"
    and executes :: "'m \<Rightarrow> 'n option"
    and unknown :: "'n \<Rightarrow> string"
    and msg_ok :: "'m \<Rightarrow> bool"
  assumes handles: "msg_ok m \<Longrightarrow> \<exists>out s'. handle m s = Some (out, s') \<and> lookup s' = effect_on (effect m) (lookup s)"
    and reports: "msg_ok m \<Longrightarrow> executes m = Some n \<Longrightarrow>
      handle m s = Some (case lookup s n of Some q \<Rightarrow> q | None \<Rightarrow> unknown n, s)"
begin

lemma run_history:
  "list_all msg_ok ms \<Longrightarrow> \<exists>outs s'. run_all handle ms s = Some (outs, s') \<and> lookup s' = fold effect_on (map effect ms) (lookup s)"
proof (induction ms arbitrary: s)
  case (Cons m ms)
  then obtain out s1 where m: "handle m s = Some (out, s1)" "lookup s1 = effect_on (effect m) (lookup s)"
    using handles [of m s] by auto
  obtain outs s2 where "run_all handle ms s1 = Some (outs, s2)" "lookup s2 = fold effect_on (map effect ms) (lookup s1)"
    using Cons.IH [of s1] Cons.prems by auto
  with m show ?case by simp
qed simp

lemma execute_history:
  assumes "list_all msg_ok ms" "msg_ok m" "executes m = Some n" "lookup s = Map.empty"
  shows "\<exists>outs s'. run_all handle ms s = Some (outs, s') \<and>
    handle m s' = Some (case statements_after (map effect ms) n of Some q \<Rightarrow> q | None \<Rightarrow> unknown n, s')"
  using run_history [OF assms(1), of s] reports [OF assms(2,3)] assms(4) by (auto simp: statements_after_def)

end

section \<open>Postgres\<close>

record PostgresParser =
  pgStatements :: "(string \<times> string) list"

definition NewPostgresParser :: PostgresParser where
  "NewPostgresParser = \<lparr>pgStatements = []\<rparr>"

text \<open>Text up to the first zero byte; without one, the whole text and \<open>...\<close>.\<close>

definition zero_terminated :: "bytes \<Rightarrow> string" where
  "zero_terminated b =
     (case bytes_cut [0] b of (q, _, ok) \<Rightarrow> if ok then gostr q else gostr q @ ''...'')"

definition pg_bind :: "bytes \<Rightarrow> PostgresParser \<Rightarrow> string" where
  "pg_bind b p =
     (case bytes_cut [0] b of (_, rest, ok) \<Rightarrow>
        if \<not> ok then []
        else (case bytes_cut [0] rest of (name, _, ok) \<Rightarrow>
                if \<not> ok then []
                else (case map_of (pgStatements p) (gostr name) of
                        Some statement \<Rightarrow> statement
                      | None \<Rightarrow> ''EXECUTE '' @ gostr name @ '' /* unknown */'')))"

definition pg_parse :: "bytes \<Rightarrow> PostgresParser \<Rightarrow> string \<times> PostgresParser" where
  "pg_parse b p =
     (case bytes_cut [0] b of (name, rest, ok) \<Rightarrow>
        if \<not> ok then ([], p)
        else
          (let query = zero_terminated rest; n = gostr name in
           (''PREPARE '' @ n @ '' AS '' @ query,
            p\<lparr>pgStatements := AList.update n query (pgStatements p)\<rparr>)))"

definition pg_close :: "bytes \<Rightarrow> PostgresParser \<Rightarrow> PostgresParser" where
  "pg_close b p =
     (case bytes_cut [0] b of (name, _, ok) \<Rightarrow>
        if \<not> ok then p
        else p\<lparr>pgStatements := AList.delete (gostr name) (pgStatements p)\<rparr>)"

definition pg_frames :: "u8 list" where
  "pg_frames = bytes_of ''QBPCEDSHX''"

definition PostgresParser_Parse :: "bytes \<Rightarrow> PostgresParser \<Rightarrow> (string \<times> PostgresParser) option" where
  "PostgresParser_Parse payload p =
     (if length payload < 5 then Some ([], p)
      else do {
        cmd \<leftarrow> at payload 0;
        (if cmd \<notin> set pg_frames then Some ([], p)
         else do {
           b \<leftarrow> slice payload 5 (length payload);
           (if cmd = 0x51 then Some (zero_terminated b, p)
            else if cmd = 0x42 then Some (pg_bind b p, p)
            else if cmd = 0x50 then Some (pg_parse b p)
            else if cmd = 0x43 then
              (if length payload < 7 then Some ([], p)
               else do {
                 kind \<leftarrow> at payload 5;
                 (if kind \<noteq> 0x53 then Some ([], p)
                  else do { c \<leftarrow> slice payload 6 (length payload); Some ([], pg_close c p) })
               })
            else Some ([], p))
         })
      })"

text \<open>
  The messages of the wire protocol; \<open>len\<close> are the four length bytes, which are not read. A Parse message
  may be cut inside its query; a Close message names a statement (\<open>S\<close>) or a portal.
\<close>

datatype pg_msg =
    PgQuery bytes string
  | PgParse bytes string string bytes
  | PgParseCut bytes string string
  | PgBind bytes string string bytes
  | PgClose bytes u8 string
  | PgOther bytes u8 bytes

fun pg_bytes :: "pg_msg \<Rightarrow> bytes" where
  "pg_bytes (PgQuery len q) = 0x51 # len @ bytes_of q @ [0]"
| "pg_bytes (PgParse len n q types) = 0x50 # len @ bytes_of n @ 0 # bytes_of q @ 0 # types"
| "pg_bytes (PgParseCut len n q) = 0x50 # len @ bytes_of n @ 0 # bytes_of q"
| "pg_bytes (PgBind len portal n params) = 0x42 # len @ bytes_of portal @ 0 # bytes_of n @ 0 # params"
| "pg_bytes (PgClose len kind n) = 0x43 # len @ kind # bytes_of n @ [0]"
| "pg_bytes (PgOther len cmd r) = cmd # len @ r"

fun pg_effect :: "pg_msg \<Rightarrow> string stmt_effect" where
  "pg_effect (PgParse len n q types) = Prepare n q"
| "pg_effect (PgParseCut len n q) = Prepare n (q @ ''...'')"
| "pg_effect (PgClose len kind n) = (if kind = 0x53 then Close n else Keep)"
| "pg_effect _ = Keep"

fun pg_executes :: "pg_msg \<Rightarrow> string option" where
  "pg_executes (PgBind len portal n params) = Some n"
| "pg_executes _ = None"

definition pg_handle :: "pg_msg \<Rightarrow> PostgresParser \<Rightarrow> (string \<times> PostgresParser) option" where
  "pg_handle m p = PostgresParser_Parse (pg_bytes m) p"

definition pg_unknown :: "string \<Rightarrow> string" where
  "pg_unknown n = ''EXECUTE '' @ n @ '' /* unknown */''"

definition text_ok :: "string \<Rightarrow> bool" where
  "text_ok s \<longleftrightarrow> CHR 0x00 \<notin> set s"

fun pg_ok :: "pg_msg \<Rightarrow> bool" where
  "pg_ok (PgQuery len q) \<longleftrightarrow> length len = 4 \<and> text_ok q"
| "pg_ok (PgParse len n q types) \<longleftrightarrow> length len = 4 \<and> text_ok n \<and> text_ok q"
| "pg_ok (PgParseCut len n q) \<longleftrightarrow> length len = 4 \<and> text_ok n \<and> text_ok q"
| "pg_ok (PgBind len portal n params) \<longleftrightarrow> length len = 4 \<and> text_ok portal \<and> text_ok n"
| "pg_ok (PgClose len kind n) \<longleftrightarrow> length len = 4 \<and> text_ok n"
| "pg_ok (PgOther len cmd r) \<longleftrightarrow> length len = 4 \<and> cmd \<notin> {0x51, 0x42, 0x50, 0x43}"

lemma zero_byte_char: "of_nat (of_char c) = (0 :: u8) \<longleftrightarrow> c = CHR 0x00"
proof
  assume "of_nat (of_char c) = (0 :: u8)"
  then have "bytes_of [c] = bytes_of [CHR 0x00]" by (simp add: bytes_of_def)
  then have "gostr (bytes_of [c]) = gostr (bytes_of [CHR 0x00])" by (rule arg_cong)
  then show "c = CHR 0x00" by simp
qed simp

lemma text_ok_bytes: "text_ok s \<Longrightarrow> 0 \<notin> set (bytes_of s)"
  by (auto simp: text_ok_def bytes_of_def) (metis zero_byte_char)

lemma cut_text [simp]: "text_ok s \<Longrightarrow> bytes_cut [0] (bytes_of s @ 0 # r) = (bytes_of s, r, True)"
  by (rule cut_single [OF text_ok_bytes])

lemma pg_frames_mem [simp]: "0x51 \<in> set pg_frames" "0x42 \<in> set pg_frames" "0x50 \<in> set pg_frames" "0x43 \<in> set pg_frames"
  by (simp_all add: pg_frames_def bytes_of_def)

lemma pg_slice: "length len = 4 \<Longrightarrow> slice (c # len @ r) 5 (Suc (length len + length r)) = Some r"
  by (simp add: slice_def)

lemma cut_no_zero: "text_ok s \<Longrightarrow> bytes_cut [0] (bytes_of s) = (bytes_of s, [], False)"
  by (rule cut_single_none [OF text_ok_bytes])

lemma pg_handles:
  "pg_ok m \<Longrightarrow> \<exists>out p'. pg_handle m p = Some (out, p') \<and> map_of (pgStatements p') = effect_on (pg_effect m) (map_of (pgStatements p))"
  by (cases m)
    (auto simp: pg_handle_def PostgresParser_Parse_def pg_parse_def pg_close_def zero_terminated_def slice_def at_def nth_append
      Let_def update_conv' delete_conv' cut_no_zero)

lemma pg_reports:
  "pg_ok m \<Longrightarrow> pg_executes m = Some n \<Longrightarrow>
     pg_handle m p = Some (case map_of (pgStatements p) n of Some q \<Rightarrow> q | None \<Rightarrow> pg_unknown n, p)"
  by (cases m) (auto simp: pg_handle_def PostgresParser_Parse_def pg_bind_def slice_def pg_unknown_def split: option.splits)

interpretation postgres: prepared_statements pg_handle "map_of \<circ> pgStatements" pg_effect pg_executes pg_unknown pg_ok
  by unfold_locales (simp_all add: pg_handles pg_reports)

section \<open>MySQL\<close>

record MysqlParser =
  myStatements :: "(string \<times> string) list"

definition NewMysqlParser :: MysqlParser where
  "NewMysqlParser = \<lparr>myStatements = []\<rparr>"

definition mysqlMsgHeaderSize :: nat where "mysqlMsgHeaderSize = 4"

text \<open>The closures of \<open>Parse\<close>; \<^term>\<open>None\<close> is a slice expression out of range.\<close>

definition readQuery :: "bytes \<Rightarrow> nat \<Rightarrow> string option" where
  "readQuery payload msgSize =
     (let stop = mysqlMsgHeaderSize + msgSize;
          partial = (stop > length payload);
          stop' = (if partial then length payload else stop) in
      do {
        q \<leftarrow> slice payload (mysqlMsgHeaderSize + 1) stop';
        Some (if partial then gostr q @ ''...'' else gostr q)
      })"

definition readStatementId :: "bytes \<Rightarrow> string option" where
  "readStatementId payload =
     do {
       b \<leftarrow> slice payload (mysqlMsgHeaderSize + 1) (length payload);
       n \<leftarrow> le32 b;
       Some (format_nat n)
     }"

definition MysqlParser_Parse ::
  "bytes \<Rightarrow> u32 \<Rightarrow> MysqlParser \<Rightarrow> (string \<times> MysqlParser) option" where
  "MysqlParser_Parse payload statementId p =
     (if length payload < mysqlMsgHeaderSize + 5 then Some ([], p)
      else do {
        b0 \<leftarrow> at payload 0; b1 \<leftarrow> at payload 1; b2 \<leftarrow> at payload 2;
        let msgSize = unat b0 + unat b1 * 2 ^ 8 + unat b2 * 2 ^ 16;
        cmd \<leftarrow> at payload 4;
        (if cmd = 3 then do { q \<leftarrow> readQuery payload msgSize; Some (q, p) }
         else if cmd = 0x17 then
           do {
             sid \<leftarrow> readStatementId payload;
             Some (case map_of (myStatements p) sid of
                     Some statement \<Rightarrow> statement
                   | None \<Rightarrow> ''EXECUTE '' @ sid @ '' /* unknown */'', p)
           }
         else if cmd = 0x16 then
           do {
             query \<leftarrow> readQuery payload msgSize;
             let sid = format_nat (unat statementId);
             Some (''PREPARE '' @ sid @ '' FROM '' @ query,
                   p\<lparr>myStatements := AList.update sid query (myStatements p)\<rparr>)
           }
         else if cmd = 0x19 then
           do {
             sid \<leftarrow> readStatementId payload;
             Some ([], p\<lparr>myStatements := AList.delete sid (myStatements p)\<rparr>)
           }
         else Some ([], p))
      })"

text \<open>
  Packets: a three-byte length, a sequence number, the command and what follows. The length counts the
  command and its text; bytes after it belong to the next packet, and a packet may be cut, with a length
  that goes beyond the captured bytes.
\<close>

definition put_le32 :: "nat \<Rightarrow> bytes" where
  "put_le32 n = [of_nat n, of_nat (n div 2 ^ 8), of_nat (n div 2 ^ 16), of_nat (n div 2 ^ 24)]"

definition put_le24 :: "nat \<Rightarrow> bytes" where
  "put_le24 n = [of_nat n, of_nat (n div 2 ^ 8), of_nat (n div 2 ^ 16)]"

datatype my_msg =
    MyQuery u8 string bytes
  | MyPrepare u8 string bytes
  | MyPrepareCut u8 nat string
  | MyExecute bytes u32 bytes
  | MyClose bytes u32 bytes
  | MyOther bytes u8 bytes

fun my_bytes :: "my_msg \<Rightarrow> bytes" where
  "my_bytes (MyQuery sq q r) = put_le24 (length q + 1) @ [sq, 3] @ bytes_of q @ r"
| "my_bytes (MyPrepare sq q r) = put_le24 (length q + 1) @ [sq, 0x16] @ bytes_of q @ r"
| "my_bytes (MyPrepareCut sq sz q) = put_le24 sz @ [sq, 0x16] @ bytes_of q"
| "my_bytes (MyExecute hdr sid r) = hdr @ [0x17] @ put_le32 (unat sid) @ r"
| "my_bytes (MyClose hdr sid r) = hdr @ [0x19] @ put_le32 (unat sid) @ r"
| "my_bytes (MyOther hdr cmd r) = hdr @ [cmd] @ r"

text \<open>
  An event is a packet with the statement id the kernel saw in the server's answer. A packet of fewer than
  four bytes after the command is ignored, so such a prepare changes nothing.
\<close>

fun my_effect :: "my_msg \<times> u32 \<Rightarrow> u32 stmt_effect" where
  "my_effect (MyPrepare sq q r, sid) = (if length q + length r < 4 then Keep else Prepare sid q)"
| "my_effect (MyPrepareCut sq sz q, sid) = (if length q < 4 then Keep else Prepare sid (q @ ''...''))"
| "my_effect (MyClose hdr n r, sid) = Close n"
| "my_effect _ = Keep"

fun my_executes :: "my_msg \<times> u32 \<Rightarrow> u32 option" where
  "my_executes (MyExecute hdr n r, sid) = Some n"
| "my_executes _ = None"

fun my_ok :: "my_msg \<times> u32 \<Rightarrow> bool" where
  "my_ok (MyQuery sq q r, sid) \<longleftrightarrow> length q + 1 < 2 ^ 24"
| "my_ok (MyPrepare sq q r, sid) \<longleftrightarrow> length q + 1 < 2 ^ 24"
| "my_ok (MyPrepareCut sq sz q, sid) \<longleftrightarrow> length q + 1 < sz \<and> sz < 2 ^ 24"
| "my_ok (MyExecute hdr n r, sid) \<longleftrightarrow> length hdr = 4"
| "my_ok (MyClose hdr n r, sid) \<longleftrightarrow> length hdr = 4"
| "my_ok (MyOther hdr cmd r, sid) \<longleftrightarrow> length hdr = 4 \<and> cmd \<notin> {3, 0x16, 0x17, 0x19}"

definition my_handle :: "my_msg \<times> u32 \<Rightarrow> MysqlParser \<Rightarrow> (string \<times> MysqlParser) option" where
  "my_handle m p = MysqlParser_Parse (my_bytes (fst m)) (snd m) p"

definition my_lookup :: "MysqlParser \<Rightarrow> u32 \<Rightarrow> string option" where
  "my_lookup p n = map_of (myStatements p) (format_nat (unat n))"

definition my_unknown :: "u32 \<Rightarrow> string" where
  "my_unknown n = ''EXECUTE '' @ format_nat (unat n) @ '' /* unknown */''"

lemma le32_put [simp]: "n < 2 ^ 32 \<Longrightarrow> le32 (put_le32 n @ r) = Some n"
proof -
  assume "n < 2 ^ 32"
  then have "n div 16777216 < 256" by simp
  with be32_parts [of n] show ?thesis by (simp add: put_le32_def)
qed

lemma length_put_le [simp]: "length (put_le32 n) = 4" "length (put_le24 n) = 3"
  by (simp_all add: put_le32_def put_le24_def)

lemma my_size:
  assumes "(n :: nat) < 2 ^ 24"
  shows "unat (put_le24 n ! 0) + unat (put_le24 n ! 1) * 2 ^ 8 + unat (put_le24 n ! 2) * 2 ^ 16 = n"
proof -
  have p2: "(2::nat) ^ 8 = 256" "(2::nat) ^ 16 = 65536" by simp_all
  have "n mod 256 + n div 256 mod 256 * 256 + n div 65536 mod 256 * 65536 = n"
    using be32_parts [of n] assms by simp
  moreover have "n div 65536 mod 256 = n div 65536" using assms by simp
  ultimately show ?thesis by (simp add: put_le24_def unat_of_nat_u8 p2 del: unat_of_nat)
qed

lemma unat_u32: "unat (n :: u32) < 2 ^ 32"
proof -
  have "unat n < 2 ^ LENGTH(32)" by (rule unsigned_less)
  then show ?thesis by simp
qed

text \<open>A packet of a query or a prepare, then one whose fifth byte is the command.\<close>

lemma my_text:
  assumes "sz < 2 ^ 24" "payload = put_le24 sz @ [sq, cmd] @ b" "4 \<le> length b" "0 < sz"
  shows "MysqlParser_Parse payload sid p =
    (let q = (if sz > length b + 1 then gostr b @ ''...'' else gostr (take (sz - 1) b)) in
     if cmd = 3 then Some (q, p)
     else if cmd = 0x16 then
       Some (''PREPARE '' @ format_nat (unat sid) @ '' FROM '' @ q,
             p\<lparr>myStatements := AList.update (format_nat (unat sid)) q (myStatements p)\<rparr>)
     else MysqlParser_Parse payload sid p)"
proof -
  have at: "at payload 0 = Some (put_le24 sz ! 0)" "at payload 1 = Some (put_le24 sz ! 1)"
    "at payload 2 = Some (put_le24 sz ! 2)" "at payload 4 = Some cmd"
    using assms(2) by (simp_all add: at_def nth_append)
  have len: "length payload = length b + 5" using assms(2) by simp
  have "readQuery payload sz = Some (if sz > length b + 1 then gostr b @ ''...'' else gostr (take (sz - 1) b))"
    using assms(2,4) by (auto simp: readQuery_def mysqlMsgHeaderSize_def Let_def slice_def)
  with at len assms(3) my_size [OF assms(1)] show ?thesis
    by (simp add: MysqlParser_Parse_def [of payload] mysqlMsgHeaderSize_def Let_def)
qed

lemma my_short: "length payload < 9 \<Longrightarrow> MysqlParser_Parse payload sid p = Some ([], p)"
  by (simp add: MysqlParser_Parse_def mysqlMsgHeaderSize_def)

lemma my_command:
  assumes "payload = hdr @ [cmd] @ put_le32 (unat (n :: u32)) @ r" "length hdr = 4"
  shows "readStatementId payload = Some (format_nat (unat n))" "at payload 4 = Some cmd" "\<not> length payload < 9"
    "\<exists>x y z. at payload 0 = Some x \<and> at payload 1 = Some y \<and> at payload 2 = Some z"
  using assms unat_u32 [of n]
  by (simp_all add: readStatementId_def mysqlMsgHeaderSize_def slice_def at_def nth_append)

lemma my_id_inj: "format_nat (unat (n :: u32)) = format_nat (unat m) \<longleftrightarrow> n = m"
  by (simp add: word_unat_eq_iff)

lemma my_lookup_update: "my_lookup (p\<lparr>myStatements := AList.update (format_nat (unat n)) q (myStatements p)\<rparr>) = (my_lookup p)(n \<mapsto> q)"
  "my_lookup (p\<lparr>myStatements := AList.delete (format_nat (unat n)) (myStatements p)\<rparr>) = (my_lookup p)(n := None)"
  by (auto simp: my_lookup_def update_conv' delete_conv' fun_eq_iff word_unat_eq_iff)

lemma my_prepares:
  assumes "sz < 2 ^ 24" "0 < sz"
  shows "\<exists>out p'. MysqlParser_Parse (put_le24 sz @ [sq, 0x16] @ b) sid p = Some (out, p') \<and>
    my_lookup p' = effect_on (if length b < 4 then Keep
      else Prepare sid (if sz > length b + 1 then gostr b @ ''...'' else gostr (take (sz - 1) b))) (my_lookup p)"
proof (cases "length b < 4")
  case True
  then show ?thesis using my_short [of "put_le24 sz @ [sq, 0x16] @ b"] by simp
next
  case False
  then show ?thesis
    using my_text [of sz "put_le24 sz @ [sq, 0x16] @ b" sq "0x16" b sid p] assms by (simp add: my_lookup_update Let_def)
qed

lemma my_handles:
  assumes "my_ok m"
  shows "\<exists>out p'. my_handle m p = Some (out, p') \<and> my_lookup p' = effect_on (my_effect m) (my_lookup p)"
proof -
  obtain x sid where m: "m = (x, sid)" by force
  show ?thesis
  proof (cases x)
    case (MyQuery sq q r)
    then show ?thesis
      using my_short [of "my_bytes x" sid p] my_text [of "length q + 1" "my_bytes x" sq 3 "bytes_of q @ r" sid p] assms m
      by (cases "length q + length r < 4") (auto simp: my_handle_def Let_def)
  next
    case (MyPrepare sq q r)
    then show ?thesis
      using my_prepares [of "length q + 1" sq "bytes_of q @ r" sid p] assms m
      by (cases "length q + length r < 4") (simp_all add: my_handle_def)
  next
    case (MyPrepareCut sq sz q)
    then show ?thesis
      using my_prepares [of sz sq "bytes_of q" sid p] assms m by (auto simp: my_handle_def)
  next
    case (MyExecute hdr n r)
    then show ?thesis
      using my_command [of "my_bytes x" hdr "0x17" n r] assms m
      by (auto simp: my_handle_def MysqlParser_Parse_def mysqlMsgHeaderSize_def Let_def)
  next
    case (MyClose hdr n r)
    then show ?thesis
      using my_command [of "my_bytes x" hdr "0x19" n r] assms m
      by (auto simp: my_handle_def MysqlParser_Parse_def mysqlMsgHeaderSize_def my_lookup_update Let_def)
  next
    case (MyOther hdr cmd r)
    then show ?thesis
      using assms m by (auto simp: my_handle_def MysqlParser_Parse_def mysqlMsgHeaderSize_def at_def nth_append Let_def)
  qed
qed

lemma my_reports:
  assumes "my_ok m" "my_executes m = Some n"
  shows "my_handle m p = Some (case my_lookup p n of Some q \<Rightarrow> q | None \<Rightarrow> my_unknown n, p)"
proof -
  obtain hdr r sid where m: "m = (MyExecute hdr n r, sid)"
    using assms(2) by (cases m rule: my_executes.cases) auto
  with my_command [of "my_bytes (fst m)" hdr "0x17" n r] assms(1) show ?thesis
    by (auto simp: my_handle_def MysqlParser_Parse_def mysqlMsgHeaderSize_def my_lookup_def my_unknown_def Let_def split: option.splits)
qed

interpretation mysql: prepared_statements my_handle my_lookup my_effect my_executes my_unknown my_ok
  by unfold_locales (simp_all add: my_handles my_reports)

section \<open>Properties\<close>

text \<open>
  C15. What is reported for the execution of a Postgres statement. After any messages of the client, with
  any length bytes, parameter types and parameters, among them Parse messages cut inside their query,
  closes of statements and closes of portals, no call panics and a Bind message reports the query of the
  last Parse of its statement unless a Close of that statement came after it, and marks the statement
  unknown otherwise. A query that was cut ends in \<open>...\<close>. Names and queries hold no zero byte, which ends
  them on the wire; each call is given one message.
\<close>

theorem postgres_reports_current:
  assumes "list_all pg_ok ms" "pg_ok (PgBind len portal n params)"
  shows "\<exists>outs p. run_all (\<lambda>m. PostgresParser_Parse (pg_bytes m)) ms NewPostgresParser = Some (outs, p) \<and>
    PostgresParser_Parse (pg_bytes (PgBind len portal n params)) p =
      Some (case statements_after (map pg_effect ms) n of Some q \<Rightarrow> q | None \<Rightarrow> ''EXECUTE '' @ n @ '' /* unknown */'', p)"
  using postgres.execute_history [OF assms, of n NewPostgresParser]
  unfolding pg_handle_def [abs_def] pg_unknown_def by (simp add: NewPostgresParser_def)

theorem postgres_reports_current_witness:
  "\<exists>outs p. run_all (\<lambda>m. PostgresParser_Parse (pg_bytes m))
      [PgParse [0, 0, 0, 18] ''s'' ''SELECT 1'' [0, 0], PgClose [0, 0, 0, 7] 0x50 ''s''] NewPostgresParser = Some (outs, p) \<and>
    PostgresParser_Parse (pg_bytes (PgBind [0, 0, 0, 12] [] ''s'' [])) p = Some (''SELECT 1'', p)"
  using postgres_reports_current [of "[PgParse [0, 0, 0, 18] ''s'' ''SELECT 1'' [0, 0], PgClose [0, 0, 0, 7] 0x50 ''s'']"
      "[0, 0, 0, 12]" "[]" "''s''" "[]"]
  by (simp add: text_ok_def statements_after_def)

text \<open>
  C16. The same for MySQL, whose statements are known by the number the server gave them: after any
  packets the text form of the number in an execute packet finds what was stored under the statement id
  of the prepare's event, unless it was closed since. A prepare may be cut, which the text then shows by
  \<open>...\<close>, or be followed by other bytes. A prepare with fewer than four bytes after its command is ignored
  by the code, so it leaves what was known before. The lengths of query and prepare packets are not zero.
\<close>

theorem mysql_reports_current:
  assumes "list_all my_ok ms" "my_ok (MyExecute hdr n r, sid)"
  shows "\<exists>outs p. run_all (\<lambda>m. MysqlParser_Parse (my_bytes (fst m)) (snd m)) ms NewMysqlParser = Some (outs, p) \<and>
    MysqlParser_Parse (my_bytes (MyExecute hdr n r)) sid p =
      Some (case statements_after (map my_effect ms) n of
              Some q \<Rightarrow> q | None \<Rightarrow> ''EXECUTE '' @ format_nat (unat n) @ '' /* unknown */'', p)"
  using mysql.execute_history [OF assms, of n NewMysqlParser]
  unfolding my_handle_def [abs_def] my_unknown_def fst_conv snd_conv by (simp add: my_lookup_def [abs_def] NewMysqlParser_def)

theorem mysql_reports_current_witness:
  "\<exists>outs p. run_all (\<lambda>m. MysqlParser_Parse (my_bytes (fst m)) (snd m))
      [(MyPrepare 0 ''SELECT 1'' [], 7), (MyClose [5, 0, 0, 0] 8 [], 0)] NewMysqlParser = Some (outs, p) \<and>
    MysqlParser_Parse (my_bytes (MyExecute [10, 0, 0, 0] 7 [])) 0 p = Some (''SELECT 1'', p)"
  using mysql_reports_current [of "[(MyPrepare 0 ''SELECT 1'' [], 7), (MyClose [5, 0, 0, 0] 8 [], 0)]" "[10, 0, 0, 0]" 7 "[]" 0]
  by (simp add: statements_after_def)

text \<open>
  C17. The Postgres parser never panics, on any payload, and only Parse and Close messages change
  its state.
\<close>

theorem postgres_total:
  "\<exists>q p'. PostgresParser_Parse payload p = Some (q, p') \<and>
     (p' = p \<or> take 1 payload \<in> {[0x50], [0x43]})"
proof (cases "length payload < 5")
  case False
  then obtain c r where "payload = c # r" by (cases payload) auto
  with False show ?thesis
    by (auto simp: PostgresParser_Parse_def at_def slice_def)
qed (simp add: PostgresParser_Parse_def)

text \<open>
  C18. The MySQL parser panics on exactly the payloads of at least nine bytes that carry a query or
  prepare command under a packet length of zero: the text is taken from offset 5 to offset 4.
\<close>

theorem mysql_panics_iff:
  "MysqlParser_Parse payload sid p = None \<longleftrightarrow>
     9 \<le> length payload \<and> take 3 payload = [0, 0, 0] \<and> payload ! 4 \<in> {3, 0x16}"
proof (cases "length payload < 9")
  case True
  then show ?thesis by (simp add: MysqlParser_Parse_def mysqlMsgHeaderSize_def)
next
  case False
  then have len: "9 \<le> length payload" by simp
  have zero: "take 3 payload = [0, 0, 0] \<longleftrightarrow> payload ! 0 = 0 \<and> payload ! 1 = 0 \<and> payload ! 2 = 0"
    using len by (cases payload rule: be32.cases) (auto simp: numeral_3_eq_3)
  have sz: "unat (payload ! 0) + unat (payload ! 1) * 2 ^ 8 + unat (payload ! 2) * 2 ^ 16 = 0 \<longleftrightarrow>
      take 3 payload = [0, 0, 0]"
    unfolding zero by (simp add: unat_eq_zero)
  have query: "readQuery payload k = None \<longleftrightarrow> k = 0" for k
    using len by (auto simp: readQuery_def mysqlMsgHeaderSize_def Let_def slice_def)
  obtain m where m: "le32 (drop 5 payload) = Some m"
    using le32_Some [of "drop 5 payload"] len by fastforce
  then have "readStatementId payload = Some (format_nat m)"
    using len by (simp add: readStatementId_def mysqlMsgHeaderSize_def slice_def)
  moreover define k where "k = unat (payload ! 0) + unat (payload ! 1) * 2 ^ 8 + unat (payload ! 2) * 2 ^ 16"
  moreover have "at payload 0 = Some (payload ! 0)" "at payload 1 = Some (payload ! 1)"
    "at payload 2 = Some (payload ! 2)" "at payload 4 = Some (payload ! 4)"
    using len by (auto simp: at_def)
  ultimately have P: "MysqlParser_Parse payload sid p = None \<longleftrightarrow>
      payload ! 4 \<in> {3, 0x16} \<and> readQuery payload k = None"
    using len unfolding MysqlParser_Parse_def mysqlMsgHeaderSize_def
    by (simp add: Let_def bind_eq_None_conv)
  show ?thesis unfolding P query using sz len by (auto simp: k_def)
qed

end
