(* ===== verification/Key_Value.thy ===== *)
theory Key_Value
  imports Prelude
begin

text \<open>
  The text protocols of key-value stores: \<open>ParseRedis\<close> of \<open>src/ebpftracer/l7/redis.go\<close> and
  \<open>ParseMemcached\<close> of \<open>src/ebpftracer/l7/memcached.go\<close>, with the encodings of the commands and the
  proofs that the parsers read them back.
\<close>

definition space :: bytes where "space = [0x20]"
definition crlf :: bytes where "crlf = [0x0d, 0x0a]"

section \<open>Cutting and splitting text\<close>

lemma cut_crlf: "0x0d \<notin> set a \<Longrightarrow> bytes_cut crlf (a @ crlf @ r) = (a, r, True)"
  by (induction a) (auto simp: crlf_def)

lemma split_join:
  assumes "\<forall>k \<in> set ks. x \<notin> set k" "ks \<noteq> []"
  shows "bytes_split [x] (concat (map (\<lambda>k. k @ [x]) (butlast ks)) @ last ks) = ks"
  using assms
proof (induction ks)
  case (Cons k ks)
  show ?case
  proof (cases "ks = []")
    case True
    with Cons.prems show ?thesis by (subst bytes_split.simps) (simp add: cut_single_none)
  next
    case False
    with Cons have "bytes_split [x] (concat (map (\<lambda>k. k @ [x]) (butlast ks)) @ last ks) = ks" by simp
    moreover have "bytes_cut [x] (k @ x # r) = (k, r, True)" for r
      using Cons.prems(1) by (intro cut_single) simp
    ultimately show ?thesis
      using False by (subst bytes_split.simps) simp
  qed
qed simp

section \<open>Redis\<close>

text \<open>The closure \<open>readString\<close>: the string and the rest it leaves.\<close>

definition redis_readString :: "bytes \<Rightarrow> string \<times> bytes" where
  "redis_readString rest =
     (case bytes_cut crlf rest of (v, rest1, ok) \<Rightarrow>
        if \<not> ok \<or> \<not> prefix [0x24] v then ([], rest1)
        else (case bytes_cut crlf rest1 of (v2, rest2, ok2) \<Rightarrow>
                if ok2 then (gostr v2, rest2) else ([], rest2)))"

definition ParseRedis :: "bytes \<Rightarrow> string \<times> string" where
  "ParseRedis payload =
     (case bytes_cut crlf payload of (v, rest, ok) \<Rightarrow>
        if \<not> ok \<or> \<not> prefix [0x2a] v then ([], [])
        else (case parse_uint 32 (gostr (drop 1 v)) of
                None \<Rightarrow> ([], [])
              | Some arrayLen \<Rightarrow>
                  (case redis_readString rest of (cmd, rest1) \<Rightarrow>
                     if cmd = [] then ([], [])
                     else if arrayLen > 1 then
                       (let args = fst (redis_readString rest1) in
                        (cmd, if arrayLen > 2 then args @ '' ...'' else args))
                     else (cmd, []))))"

text \<open>RESP: an array of bulk strings.\<close>

definition enc_bulk :: "string \<Rightarrow> bytes" where
  "enc_bulk s = bytes_of (''$'' @ format_nat (length s)) @ crlf @ bytes_of s @ crlf"

definition enc_redis :: "string list \<Rightarrow> bytes" where
  "enc_redis ws = bytes_of (''*'' @ format_nat (length ws)) @ crlf @ concat (map enc_bulk ws)"

text \<open>Words that contain no carriage return.\<close>

definition word_ok :: "string \<Rightarrow> bool" where
  "word_ok s \<longleftrightarrow> 0x0d \<notin> set (bytes_of s)"

lemma digit_not_cr: "d < 10 \<Longrightarrow> (0x0d :: u8) \<noteq> of_nat (of_char (digit d))"
proof
  assume d: "d < 10" and "(0x0d :: u8) = of_nat (of_char (digit d))"
  then have "unat (0x0d :: u8) = unat (of_nat (of_char (digit d)) :: u8)" by simp
  also have "\<dots> = (48 + d) mod 256" unfolding of_char_digit [OF d] unat_of_nat_u8 ..
  finally show False using d by simp
qed

lemma format_word_ok: "word_ok (format_nat n)"
proof (induction n rule: format_nat.induct)
  case (1 n)
  show ?case
  proof (cases "n < 10")
    case True
    then show ?thesis
      using digit_not_cr [of n] by (subst format_nat.simps) (simp add: word_ok_def bytes_of_def)
  next
    case False
    with 1 show ?thesis
      using digit_not_cr [of "n mod 10"]
      by (subst format_nat.simps) (simp add: word_ok_def bytes_of_def)
  qed
qed

lemma cut_line: "word_ok s \<Longrightarrow> bytes_cut crlf (bytes_of s @ crlf @ r) = (bytes_of s, r, True)"
  unfolding word_ok_def by (rule cut_crlf)

lemma word_ok_Cons: "c \<noteq> CHR 0x0d \<Longrightarrow> word_ok s \<Longrightarrow> word_ok (c # s)"
proof -
  assume c: "c \<noteq> CHR 0x0d" and s: "word_ok s"
  have "(0x0d :: u8) \<noteq> of_nat (of_char c)"
  proof
    assume "(0x0d :: u8) = of_nat (of_char c)"
    then have "bytes_of [c] = bytes_of [CHR 0x0d]" by (simp add: bytes_of_def)
    then have "gostr (bytes_of [c]) = gostr (bytes_of [CHR 0x0d])" by (rule arg_cong)
    with c show False by simp
  qed
  with s show ?thesis by (simp add: word_ok_def bytes_of_def)
qed

lemma redis_readString_bulk: "word_ok s \<Longrightarrow> redis_readString (enc_bulk s @ r) = (s, r)"
proof -
  assume s: "word_ok s"
  have l: "word_ok (''$'' @ format_nat (length s))" by (simp add: word_ok_Cons format_word_ok)
  have "prefix [0x24] (bytes_of (''$'' @ format_nat (length s)))" by (simp add: bytes_of_def)
  with cut_line [OF l] cut_line [OF s] show ?thesis
    by (simp add: redis_readString_def enc_bulk_def del: bytes_of_append)
qed

lemma parse_uint_format: "n < 2 ^ bits \<Longrightarrow> parse_uint bits (format_nat n) = Some n"
  by (simp add: parse_uint_def digits_val_format)

text \<open>
  C19. A Redis command is read back: for every non-empty list of words without carriage returns, the
  parser returns the command and its first argument, and marks that there are more.
\<close>

theorem ParseRedis_round_trip:
  assumes "list_all word_ok (c # args)" "c \<noteq> []" "length args < 2 ^ 31"
  shows "ParseRedis (enc_redis (c # args) @ trailing) =
    (c, case args of [] \<Rightarrow> [] | [a] \<Rightarrow> a | a # _ \<Rightarrow> a @ '' ...'')"
proof -
  have l: "word_ok (''*'' @ format_nat (length (c # args)))" by (simp add: word_ok_Cons format_word_ok)
  define head where "head = bytes_of (''*'' @ format_nat (length (c # args)))"
  have h: "prefix [0x2a] head" "gostr (drop 1 head) = format_nat (Suc (length args))"
    using gostr_bytes_of [of "format_nat (Suc (length args))"] by (simp_all add: head_def bytes_of_def gostr_def)
  have "bytes_cut crlf (enc_redis (c # args) @ trailing) = (head, enc_bulk c @ concat (map enc_bulk args) @ trailing, True)"
    using cut_line [OF l] by (simp add: enc_redis_def head_def del: bytes_of_append)
  moreover have "redis_readString (enc_bulk c @ concat (map enc_bulk args) @ trailing) = (c, concat (map enc_bulk args) @ trailing)"
    using assms(1) by (intro redis_readString_bulk) simp
  moreover have "redis_readString (concat (map enc_bulk (a # as)) @ trailing) = (a, concat (map enc_bulk as) @ trailing)"
    if "args = a # as" for a as
    using assms(1) that by (simp add: redis_readString_bulk)
  moreover have "parse_uint 32 (gostr (drop 1 head)) = Some (Suc (length args))"
    unfolding h(2) using assms(3) by (intro parse_uint_format) simp
  ultimately show ?thesis
    using h(1) assms(2) by (cases args rule: remdups_adj.cases) (simp_all add: ParseRedis_def Let_def)
qed

theorem ParseRedis_round_trip_witness:
  "ParseRedis (enc_redis [''SET'', ''k'', ''v''] @ []) = (''SET'', ''k'' @ '' ...'')"
  using ParseRedis_round_trip [of "''SET''" "[''k'', ''v'']" "[]"]
  by (simp add: word_ok_Cons) (simp add: word_ok_def bytes_of_def)?

section \<open>Memcached\<close>

definition ParseMemcached :: "bytes \<Rightarrow> string \<times> string list" where
  "ParseMemcached payload =
     (case bytes_cut space payload of (cmd, rest, ok) \<Rightarrow>
        if \<not> ok then ([], [])
        else
          (let command = gostr cmd in
           if command \<in> set [''set'', ''add'', ''cas'', ''append'', ''prepend'', ''replace'', ''delete'',
                             ''incr'', ''decr'', ''touch''] then
             (case bytes_cut space rest of (key, _, ok) \<Rightarrow> if ok then (command, [gostr key]) else ([], []))
           else if command \<in> set [''gat'', ''gats''] then
             (case bytes_cut space rest of (_, rest1, ok) \<Rightarrow>
                if ok then
                  (case bytes_cut crlf rest1 of (keys, _, ok) \<Rightarrow>
                     if ok then (command, bytes_split '' '' (gostr keys)) else ([], []))
                else ([], []))
           else if command \<in> set [''get'', ''gets''] then
             (case bytes_cut crlf rest of (keys, _, ok) \<Rightarrow>
                if ok then (command, bytes_split '' '' (gostr keys)) else ([], []))
           else ([], [])))"

text \<open>A retrieval command: its name and the keys, separated by spaces.\<close>

definition join_words :: "string list \<Rightarrow> string" where
  "join_words ks = concat (map (\<lambda>k. k @ '' '') (butlast ks)) @ last ks"

definition enc_get :: "string \<Rightarrow> string list \<Rightarrow> bytes" where
  "enc_get cmd ks = bytes_of cmd @ space @ bytes_of (join_words ks) @ crlf"

definition key_ok :: "string \<Rightarrow> bool" where
  "key_ok k \<longleftrightarrow> CHR 0x20 \<notin> set k \<and> CHR 0x0d \<notin> set k"

lemma word_ok_iff: "word_ok s \<longleftrightarrow> CHR 0x0d \<notin> set s"
  by (induction s) (auto simp: word_ok_Cons, auto simp: word_ok_def bytes_of_def)

text \<open>
  The keys of a Memcached retrieval are exactly the keys that were sent, for any number of keys
  without spaces and carriage returns, whatever follows the line.
\<close>

theorem ParseMemcached_get_round_trip:
  assumes "cmd \<in> {''get'', ''gets''}" "ks \<noteq> []" "list_all key_ok ks"
  shows "ParseMemcached (enc_get cmd ks @ trailing) = (cmd, ks)"
proof -
  have "CHR 0x0d \<notin> set (join_words ks)"
    using assms(2,3) by (auto simp: join_words_def key_ok_def list_all_iff dest: in_set_butlastD)
  then have keys: "bytes_cut crlf (bytes_of (join_words ks) @ crlf @ trailing) = (bytes_of (join_words ks), trailing, True)"
    by (intro cut_line) (simp add: word_ok_iff)
  have "bytes_cut space (bytes_of cmd @ space @ r) = (bytes_of cmd, r, True)" for r
    using assms(1) by (auto simp: space_def bytes_of_def)
  moreover have "bytes_split '' '' (join_words ks) = ks"
    unfolding join_words_def using assms(2,3) by (intro split_join) (auto simp: key_ok_def list_all_iff)
  ultimately show ?thesis
    using assms(1) keys by (auto simp: ParseMemcached_def enc_get_def Let_def)
qed

theorem ParseMemcached_get_round_trip_witness:
  "ParseMemcached (enc_get ''get'' [''a'', ''b''] @ [1]) = (''get'', [''a'', ''b''])"
  by (rule ParseMemcached_get_round_trip) (simp_all add: key_ok_def)

end
