(* ===== verification/Zookeeper.thy ===== *)
theory Zookeeper
  imports Prelude
begin

text \<open>
  \<open>ParseZookeeper\<close> of \<open>src/ebpftracer/l7/zookeeper.go\<close>. The reader is the bytes it has left;
  \<open>binary.Read\<close> of \<open>n\<close> bytes fails when fewer are left. Operation codes are 32-bit signed.
\<close>

section \<open>The parser\<close>

definition s32 :: "nat \<Rightarrow> int" where
  "s32 n = (if n < 2 ^ 31 then int n else int n - 2 ^ 32)"

text \<open>\<open>binary.Read\<close> of a big-endian \<open>uint32\<close>, and the two headers.\<close>

definition read_u32 :: "bytes \<Rightarrow> (nat \<times> bytes) option" where
  "read_u32 r = (if length r < 4 then None else map_option (\<lambda>n. (n, drop 4 r)) (be32 r))"

record zkMultiHeader =
  mType :: int
  mDone :: bool
  mErr :: int

definition read_multi_header :: "bytes \<Rightarrow> (zkMultiHeader \<times> bytes) option" where
  "read_multi_header r =
     (if length r < 9 then None
      else do {
        t \<leftarrow> be32 r;
        e \<leftarrow> be32 (drop 5 r);
        Some (\<lparr>mType = s32 t, mDone = (r ! 4 \<noteq> 0), mErr = s32 e\<rparr>, drop 9 r)
      })"

record zkRequestHeader =
  zLength :: nat
  zXid :: int
  zOpType :: int

definition read_request_header :: "bytes \<Rightarrow> (zkRequestHeader \<times> bytes) option" where
  "read_request_header r =
     (if length r < 12 then None
      else do {
        l \<leftarrow> be32 r;
        x \<leftarrow> be32 (drop 4 r);
        t \<leftarrow> be32 (drop 8 r);
        Some (\<lparr>zLength = l, zXid = s32 x, zOpType = s32 t\<rparr>, drop 12 r)
      })"

text \<open>
  \<open>bytes.Reader.Read\<close> gives what is left, up to the size of the buffer, and \<open>io.EOF\<close> when nothing
  is left.
\<close>

definition zkReadString :: "bytes \<Rightarrow> string" where
  "zkReadString r =
     (case read_u32 r of
        None \<Rightarrow> []
      | Some (l, r1) \<Rightarrow>
          if l > 1024 then []
          else if r1 = [] then []
          else
            (let res = take l r1 in
             if length res < l then gostr res @ ''...<TRUNCATED>'' else gostr res))"

text \<open>The operations with a path, and those without an argument.\<close>

definition zk_path_ops :: "(int \<times> string) list" where
  "zk_path_ops =
     [(1, ''create''), (2, ''delete''), (3, ''exists''), (6, ''getAcl''), (7, ''setAcl''),
      (8, ''getChildren''), (9, ''sync''), (12, ''getChildren2''), (13, ''check''),
      (19, ''createContainer''), (21, ''createTTL''), (4, ''getData''), (5, ''setData'')]"

definition zk_plain_ops :: "(int \<times> string) list" where
  "zk_plain_ops =
     [(11, ''ping''), (16, ''reconfig''), (-11, ''close''), (100, ''setAuth''), (101, ''setWatches'')]"

lemma read_multi_header_shorter: "read_multi_header r = Some (h, r1) \<Longrightarrow> length r1 < length r"
  by (auto simp: read_multi_header_def split: if_splits bind_splits)

function zkParse :: "bytes \<Rightarrow> int \<Rightarrow> string \<times> string" where
  "zkParse r opCode =
     (case map_of zk_path_ops opCode of
        Some name \<Rightarrow> (name, zkReadString r)
      | None \<Rightarrow>
          (case map_of zk_plain_ops opCode of
             Some name \<Rightarrow> (name, [])
           | None \<Rightarrow>
               if opCode = 14 then
                 (case read_multi_header r of
                    None \<Rightarrow> ([], [])
                  | Some (h, r1) \<Rightarrow>
                      (case zkParse r1 (mType h) of (op, arg) \<Rightarrow> (''multi('' @ op @ '', ...)'', arg)))
               else ([], [])))"
  by pat_completeness auto
termination
  by (relation "measure (\<lambda>(r, opCode). length r)") (auto dest: read_multi_header_shorter)

declare zkParse.simps [simp del]

definition isValidZkOp :: "int \<Rightarrow> bool" where
  "isValidZkOp op \<longleftrightarrow>
     op \<in> set [1, 2, 3, 4, 5, 6, 7, 8, 9, 11, 12, 13, 14, 16, 19, 21, -11, 100, 101]"

definition ParseZookeeper :: "bytes \<Rightarrow> string \<times> string" where
  "ParseZookeeper payload =
     (case read_request_header payload of
        None \<Rightarrow> ([], [])
      | Some (h, r) \<Rightarrow> if \<not> isValidZkOp (zOpType h) then ([], []) else zkParse r (zOpType h))"

section \<open>Properties\<close>

definition u32_of :: "int \<Rightarrow> nat" where
  "u32_of i = nat (i mod 2 ^ 32)"

lemma s32_u32: "- (2 ^ 31) \<le> i \<Longrightarrow> i < 2 ^ 31 \<Longrightarrow> s32 (u32_of i) = i"
proof (cases "i < 0")
  case True
  moreover assume "- (2 ^ 31) \<le> i"
  ultimately have "(i + 2 ^ 32) mod 2 ^ 32 = i + 2 ^ 32"
    by (intro mod_pos_pos_trivial) auto
  then have "i mod 2 ^ 32 = i + 2 ^ 32" by (simp only: mod_add_self2)
  with True \<open>- (2 ^ 31) \<le> i\<close> show ?thesis by (simp add: s32_def u32_of_def)
qed (simp add: s32_def u32_of_def)

lemma u32_of_bound: "u32_of i < 2 ^ 32"
  by (simp add: u32_of_def nat_less_iff)

definition enc_zk :: "nat \<Rightarrow> nat \<Rightarrow> int \<Rightarrow> bytes \<Rightarrow> bytes" where
  "enc_zk len xid op body = put32 len @ put32 xid @ put32 (u32_of op) @ body"

definition enc_zk_multi :: "int \<Rightarrow> bytes \<Rightarrow> bytes" where
  "enc_zk_multi op body = put32 (u32_of op) @ [0] @ put32 (u32_of (-1)) @ body"

lemma read_request_header_enc:
  assumes "len < 2 ^ 32" "xid < 2 ^ 32" "- (2 ^ 31) \<le> op" "op < 2 ^ 31"
  shows "read_request_header (enc_zk len xid op body) = Some (\<lparr>zLength = len, zXid = s32 xid, zOpType = op\<rparr>, body)"
  using assms u32_of_bound [of op] s32_u32 [of op] by (simp add: read_request_header_def enc_zk_def)

lemma read_multi_header_enc:
  assumes "- (2 ^ 31) \<le> op" "op < 2 ^ 31"
  shows "\<exists>h. read_multi_header (enc_zk_multi op body) = Some (h, body) \<and> mType h = op"
proof -
  have "be32 (put32 (u32_of op) @ [0] @ put32 (u32_of (-1)) @ body) = Some (u32_of op)"
    "be32 (drop 5 (put32 (u32_of op) @ [0] @ put32 (u32_of (-1)) @ body)) = Some (u32_of (-1))"
    using u32_of_bound [of op] u32_of_bound [of "-1"] by simp_all
  then show ?thesis
    using s32_u32 [OF assms] by (simp add: read_multi_header_def enc_zk_multi_def)
qed

lemma zkReadString_enc:
  assumes "length path \<le> 1024" "path \<noteq> []"
  shows "zkReadString (put32 (length path) @ bytes_of path @ r) = path"
proof -
  have "be32 (put32 (length path) @ bytes_of path @ r) = Some (length path)" using assms by simp
  moreover have "bytes_of path \<noteq> []" using assms(2) by (simp add: bytes_of_def)
  ultimately show ?thesis using assms by (simp add: zkReadString_def read_u32_def Let_def)
qed

text \<open>The name a request nested in \<open>k\<close> multi operations is reported under.\<close>

fun multi_name :: "nat \<Rightarrow> string \<Rightarrow> string" where
  "multi_name 0 s = s"
| "multi_name (Suc k) s = ''multi('' @ multi_name k s @ '', ...)''"

fun enc_multi :: "nat \<Rightarrow> int \<Rightarrow> bytes \<Rightarrow> bytes" where
  "enc_multi 0 op body = body"
| "enc_multi (Suc k) op body = enc_zk_multi (if k = 0 then op else 14) (enc_multi k op body)"

lemma path_op_range: "map_of zk_path_ops op = Some name \<Longrightarrow> isValidZkOp op \<and> 0 < op \<and> op < 22"
  by (auto simp: zk_path_ops_def isValidZkOp_def split: if_splits)

lemma zkParse_multi:
  assumes "map_of zk_path_ops op = Some name" "length path \<le> 1024" "path \<noteq> []"
  shows "zkParse (enc_multi k op (put32 (length path) @ bytes_of path @ r)) (if k = 0 then op else 14) =
    (multi_name k name, path)"
proof (induction k)
  case 0
  with assms(1) zkReadString_enc [OF assms(2,3)] show ?case by (simp add: zkParse.simps)
next
  case (Suc k)
  have "- (2 ^ 31) \<le> (if k = 0 then op else 14)" "(if k = 0 then op else 14) < (2 ^ 31 :: int)"
    using path_op_range [OF assms(1)] by auto
  from read_multi_header_enc [OF this] obtain h where
    "read_multi_header (enc_multi (Suc k) op (put32 (length path) @ bytes_of path @ r)) =
      Some (h, enc_multi k op (put32 (length path) @ bytes_of path @ r))" "mType h = (if k = 0 then op else 14)"
    by (auto simp del: put32_def)
  with Suc show ?case
    by (subst zkParse.simps) (simp add: zk_path_ops_def zk_plain_ops_def del: enc_multi.simps)
qed

text \<open>
  C20. A ZooKeeper request on a path of up to 1024 bytes, nested in any number \<open>k\<close> of multi
  operations, is reported with its operation, once per level of nesting as \<open>multi(op, ...)\<close>, and its
  path.
\<close>

theorem ParseZookeeper_round_trip:
  assumes "map_of zk_path_ops op = Some name" "length path \<le> 1024" "path \<noteq> []"
    and "len < 2 ^ 32" "xid < 2 ^ 32"
  shows "ParseZookeeper (enc_zk len xid (if k = 0 then op else 14)
      (enc_multi k op (put32 (length path) @ bytes_of path @ r))) = (multi_name k name, path)"
proof -
  let ?op = "if k = 0 then op else 14"
  have "- (2 ^ 31) \<le> ?op" "?op < 2 ^ 31" "isValidZkOp ?op"
    using path_op_range [OF assms(1)] by (auto simp: isValidZkOp_def)
  with read_request_header_enc [OF assms(4,5)] zkParse_multi [OF assms(1-3), of k r] show ?thesis
    by (simp add: ParseZookeeper_def del: enc_multi.simps)
qed

theorem ParseZookeeper_round_trip_witness:
  "ParseZookeeper (enc_zk 20 1 (if (1::nat) = 0 then 1 else 14)
      (enc_multi 1 1 (put32 (length ''/a'') @ bytes_of ''/a'' @ []))) = (multi_name 1 ''create'', ''/a'')"
  by (rule ParseZookeeper_round_trip) (simp_all add: zk_path_ops_def)

lemma zkReadString_bound: "length (zkReadString r) \<le> 1038"
  by (auto simp: zkReadString_def read_u32_def Let_def split: option.splits)

lemma zkParse_arg_bound: "length (snd (zkParse r op)) \<le> 1038"
proof (induction r op rule: zkParse.induct)
  case (1 r op)
  then show ?case
    using zkReadString_bound [of r]
    by (subst zkParse.simps) (auto split: option.splits prod.splits, metis snd_conv)
qed

text \<open>
  On any payload the parser ends, and the argument it reports is bounded: at most 1024 bytes and
  the marker of a truncated string.
\<close>

theorem ParseZookeeper_bounded: "length (snd (ParseZookeeper payload)) \<le> 1024 + length ''...<TRUNCATED>''"
  using zkParse_arg_bound by (auto simp: ParseZookeeper_def split: option.splits)

end
