(* ===== verification/Mongo_Dns.thy ===== *)
theory Mongo_Dns
  imports Prelude
begin

text \<open>
  The parsers that hand a message to a library: \<open>ParseMongo\<close> of \<open>src/ebpftracer/l7/mongo.go\<close>, with
  the BSON printer of the MongoDB driver as the parameter \<open>bson\<close>, and \<open>ParseDns\<close> of
  \<open>src/ebpftracer/l7/dns.go\<close>, with the message decoder of \<open>golang.org/x/net\<close> as the parameter
  \<open>unpack\<close>.
\<close>

section \<open>MongoDB\<close>

definition MongoOpMSG :: nat where "MongoOpMSG = 2013"
definition mongoHeaderLength :: nat where "mongoHeaderLength = 20"
definition mongoOpCodeOffset :: nat where "mongoOpCodeOffset = 12"
definition mongoSectionKindLength :: nat where "mongoSectionKindLength = 1"
definition mongoSectionSizeLength :: nat where "mongoSectionSizeLength = 4"

lemmas mongo_consts = MongoOpMSG_def mongoHeaderLength_def mongoOpCodeOffset_def
  mongoSectionKindLength_def mongoSectionSizeLength_def

definition ParseMongo :: "(bytes \<Rightarrow> string) \<Rightarrow> bytes \<Rightarrow> string option" where
  "ParseMongo bson payload =
     (if length payload < mongoHeaderLength + mongoSectionKindLength + mongoSectionSizeLength
      then Some ''<truncated>''
      else do {
        o1 \<leftarrow> slice payload mongoOpCodeOffset (length payload);
        opCode \<leftarrow> le32 o1;
        (if opCode \<noteq> MongoOpMSG then Some ''<truncated>''
         else do {
           sectionKind \<leftarrow> at payload mongoHeaderLength;
           (if sectionKind \<noteq> 0 then Some ''<truncated>''
            else do {
              sectionData \<leftarrow> slice payload (mongoHeaderLength + mongoSectionKindLength) (length payload);
              sectionLength \<leftarrow> le32 sectionData;
              (if sectionLength < 1 \<or> sectionLength > length sectionData then Some ''<truncated>''
               else Some (bson sectionData))
            })
         })
      })"

text \<open>A document that is there in full: its length, in its first four bytes, is within the data.\<close>

definition whole_document :: "bytes \<Rightarrow> bool" where
  "whole_document d \<longleftrightarrow> (\<exists>n. le32 d = Some n \<and> 1 \<le> n \<and> n \<le> length d)"

definition mongo_document :: "bytes \<Rightarrow> bool" where
  "mongo_document payload \<longleftrightarrow>
     25 \<le> length payload \<and> le32 (drop 12 payload) = Some 2013 \<and> payload ! 20 = 0 \<and>
     whole_document (drop 21 payload)"

lemma ParseMongo_eq:
  "ParseMongo bson payload =
     Some (if mongo_document payload then bson (drop 21 payload) else ''<truncated>'')"
proof (cases "length payload < 25")
  case True
  then show ?thesis by (simp add: ParseMongo_def mongo_document_def mongo_consts)
next
  case False
  then have len: "25 \<le> length payload" by simp
  obtain n where n: "le32 (drop 12 payload) = Some n" using le32_Some [of "drop 12 payload"] len by fastforce
  obtain k where k: "le32 (drop 21 payload) = Some k" using le32_Some [of "drop 21 payload"] len by fastforce
  from len n k show ?thesis
    by (auto simp: ParseMongo_def mongo_consts slice_def at_def whole_document_def mongo_document_def)
qed

text \<open>
  The BSON printer is called on documents that are there in full only: two printers that agree
  on those give the same result on every payload, which is never a panic.
\<close>

theorem ParseMongo_whole_documents:
  assumes "\<And>d. whole_document d \<Longrightarrow> bson1 d = bson2 d"
  shows "ParseMongo bson1 payload = ParseMongo bson2 payload \<and> (\<exists>s. ParseMongo bson1 payload = Some s)"
  using assms by (simp add: ParseMongo_eq mongo_document_def)

theorem ParseMongo_whole_documents_witness:
  "ParseMongo (\<lambda>d. if whole_document d then ''doc'' else ''junk'') (replicate 30 0) =
     ParseMongo (\<lambda>d. ''doc'') (replicate 30 0) \<and>
   (\<exists>s. ParseMongo (\<lambda>d. if whole_document d then ''doc'' else ''junk'') (replicate 30 0) = Some s)"
  by (rule ParseMongo_whole_documents) simp

section \<open>DNS\<close>

text \<open>
  What \<open>dnsmessage.Message\<close> holds of a message: the questions, and the answers with the type in
  their header and their decoded body. Types are 16-bit numbers; \<open>typeName\<close> prints them.
\<close>

datatype dns_body = AResource bytes | AAAAResource bytes | OtherResource

record dns_question =
  qType :: nat
  qName :: string

record dns_message =
  Questions :: "dns_question list"
  Answers :: "(nat \<times> dns_body) list"

datatype IP = IPFrom4 bytes | IPFrom16 bytes

definition TypeA :: nat where "TypeA = 1"
definition TypeAAAA :: nat where "TypeAAAA = 28"

text \<open>The body of the loop over the answers.\<close>

definition answer_ip :: "nat \<times> dns_body \<Rightarrow> IP list" where
  "answer_ip a =
     (if fst a = TypeA then (case snd a of AResource b \<Rightarrow> [IPFrom4 b] | _ \<Rightarrow> [])
      else if fst a = TypeAAAA then (case snd a of AAAAResource b \<Rightarrow> [IPFrom16 b] | _ \<Rightarrow> [])
      else [])"

fun answers_loop :: "(nat \<times> dns_body) list \<Rightarrow> IP list \<Rightarrow> IP list" where
  "answers_loop [] ips = ips"
| "answers_loop (a # as) ips = answers_loop as (ips @ answer_ip a)"

definition TrimSuffix :: "string \<Rightarrow> string \<Rightarrow> string" where
  "TrimSuffix s suf = (if suffix suf s then take (length s - length suf) s else s)"

definition ParseDns ::
  "(bytes \<Rightarrow> dns_message option) \<Rightarrow> (nat \<Rightarrow> string) \<Rightarrow> bytes \<Rightarrow> string \<times> string \<times> IP list" where
  "ParseDns unpack typeName payload =
     (case unpack payload of
        None \<Rightarrow> ([], [], [])
      | Some msg \<Rightarrow>
          (case Questions msg of
             [] \<Rightarrow> ([], [], [])
           | q # _ \<Rightarrow> (typeName (qType q), TrimSuffix (qName q) ''.'', answers_loop (Answers msg) [])))"

lemma TrimSuffix_append [simp]: "TrimSuffix (s @ suf) suf = s"
  by (simp add: TrimSuffix_def suffix_def)

lemma answer_ip_cases [simp]:
  "answer_ip (t, AResource b) = (if t = TypeA then [IPFrom4 b] else [])"
  "answer_ip (t, AAAAResource b) = (if t = TypeAAAA then [IPFrom16 b] else [])"
  "answer_ip (t, OtherResource) = []"
  by (simp_all add: answer_ip_def TypeA_def TypeAAAA_def)

text \<open>
  What the addresses are to be, without the loop: an answer has an address if its body is an A record
  under type 1 or an AAAA record under type 28, and an address stands for one such answer.
\<close>

fun has_address :: "nat \<times> dns_body \<Rightarrow> bool" where
  "has_address (t, AResource b) \<longleftrightarrow> t = 1"
| "has_address (t, AAAAResource b) \<longleftrightarrow> t = 28"
| "has_address (t, OtherResource) \<longleftrightarrow> False"

fun answer_of :: "IP \<Rightarrow> nat \<times> dns_body" where
  "answer_of (IPFrom4 b) = (1, AResource b)"
| "answer_of (IPFrom16 b) = (28, AAAAResource b)"

lemma answers_of_loop: "map answer_of (answers_loop as ips) = map answer_of ips @ filter has_address as"
proof (induction as arbitrary: ips)
  case (Cons a as)
  have "map answer_of (answer_ip a) = (if has_address a then [a] else [])"
    by (cases a rule: has_address.cases) (simp_all add: TypeA_def TypeAAAA_def)
  with Cons show ?case by simp
qed simp

text \<open>
  C21. The addresses reported for a DNS response are exactly those of its A and AAAA answers: turned back
  into answers they are the answers of the message whose type is 1 with the body of an A record or 28
  with the body of an AAAA record, all of them, in the order of the message and as often as they occur
  there. The name is that of the first question without its final dot and the type is the question's.
\<close>

theorem ParseDns_answers:
  assumes "unpack payload = Some msg" "Questions msg = \<lparr>qType = t, qName = name @ ''.''\<rparr> # qs"
  shows "\<exists>ips. ParseDns unpack typeName payload = (typeName t, name, ips) \<and>
    map answer_of ips = filter has_address (Answers msg)"
  using assms by (simp add: ParseDns_def answers_of_loop)

theorem ParseDns_answers_witness:
  "\<exists>ips. ParseDns (\<lambda>b. Some \<lparr>Questions = [\<lparr>qType = 1, qName = ''a.io'' @ ''.''\<rparr>],
        Answers = [(5, OtherResource), (1, AResource [10, 0, 0, 1]), (28, AAAAResource [0])]\<rparr>) (\<lambda>t. ''TypeA'') [] =
      (''TypeA'', ''a.io'', ips) \<and>
    map answer_of ips = [(1, AResource [10, 0, 0, 1]), (28, AAAAResource [0])]"
  using ParseDns_answers [of "\<lambda>b. Some \<lparr>Questions = [\<lparr>qType = 1, qName = ''a.io'' @ ''.''\<rparr>],
        Answers = [(5, OtherResource), (1, AResource [10, 0, 0, 1]), (28, AAAAResource [0])]\<rparr>" "[]" _ 1 "''a.io''" "[]" "\<lambda>t. ''TypeA''"]
  by simp

end
