(* ===== verification/Utf8.thy ===== *)
theory Utf8
  imports Prelude
begin

text \<open>
  The parts of Go's \<open>unicode/utf8\<close> and \<open>bytes.TrimSpace\<close> the program uses: decoding a rune from
  the front or the back of a byte slice, validity, and trimming white space. \<open>decode_rune\<close> returns
  the rune and its size; bytes that are no encoding give \<open>RuneError\<close> with size 1.
\<close>

definition RuneError :: nat where "RuneError = 0xFFFD"

definition cont :: "u8 \<Rightarrow> bool" where
  "cont b \<longleftrightarrow> 0x80 \<le> b \<and> b \<le> 0xBF"

definition between :: "u8 \<Rightarrow> u8 \<Rightarrow> u8 \<Rightarrow> bool" where
  "between lo hi b \<longleftrightarrow> lo \<le> b \<and> b \<le> hi"

text \<open>The range of the second byte, by the first byte of a sequence of three or four.\<close>

definition second_ok :: "u8 \<Rightarrow> u8 \<Rightarrow> bool" where
  "second_ok b0 b1 =
     (if b0 = 0xE0 then between 0xA0 0xBF b1
      else if b0 = 0xED then between 0x80 0x9F b1
      else if b0 = 0xF0 then between 0x90 0xBF b1
      else if b0 = 0xF4 then between 0x80 0x8F b1
      else cont b1)"

definition seq_len :: "u8 \<Rightarrow> nat" where
  "seq_len b0 =
     (if b0 < 0x80 then 1
      else if between 0xC2 0xDF b0 then 2
      else if between 0xE0 0xEF b0 then 3
      else if between 0xF0 0xF4 b0 then 4
      else 0)"

definition decode_rune :: "bytes \<Rightarrow> nat \<times> nat" where
  "decode_rune p =
     (case p of
        [] \<Rightarrow> (RuneError, 0)
      | b0 # r \<Rightarrow>
          if seq_len b0 = 1 then (unat b0, 1)
          else if seq_len b0 = 2 then
            (case r of
               b1 # _ \<Rightarrow> if cont b1 then (unat b0 mod 32 * 64 + unat b1 mod 64, 2) else (RuneError, 1)
             | _ \<Rightarrow> (RuneError, 1))
          else if seq_len b0 = 3 then
            (case r of
               b1 # b2 # _ \<Rightarrow>
                 if second_ok b0 b1 \<and> cont b2
                 then (unat b0 mod 16 * 4096 + unat b1 mod 64 * 64 + unat b2 mod 64, 3) else (RuneError, 1)
             | _ \<Rightarrow> (RuneError, 1))
          else if seq_len b0 = 4 then
            (case r of
               b1 # b2 # b3 # _ \<Rightarrow>
                 if second_ok b0 b1 \<and> cont b2 \<and> cont b3
                 then (unat b0 mod 8 * 262144 + unat b1 mod 64 * 4096 + unat b2 mod 64 * 64 + unat b3 mod 64, 4)
                 else (RuneError, 1)
             | _ \<Rightarrow> (RuneError, 1))
          else (RuneError, 1))"

text \<open>An error is told from the encoding of the rune \<open>U+FFFD\<close> by its size.\<close>

definition rune_bad :: "bytes \<Rightarrow> bool" where
  "rune_bad p \<longleftrightarrow> (case decode_rune p of (r, n) \<Rightarrow> r = RuneError \<and> n \<le> 1)"

lemma decode_rune_size: "decode_rune p = (r, n) \<Longrightarrow> p \<noteq> [] \<Longrightarrow> 0 < n \<and> n \<le> length p \<and> n \<le> 4"
  by (auto simp: decode_rune_def split: list.splits if_splits)

function utf8_valid :: "bytes \<Rightarrow> bool" where
  "utf8_valid p =
     (if p = [] then True
      else if rune_bad p then False
      else utf8_valid (drop (snd (decode_rune p)) p))"
  by pat_completeness auto
termination
proof (relation "measure length", goal_cases)
  case (2 p)
  then show ?case using decode_rune_size [of p "fst (decode_rune p)" "snd (decode_rune p)"] by auto
qed simp

declare utf8_valid.simps [simp del]

definition RuneStart :: "u8 \<Rightarrow> bool" where
  "RuneStart b \<longleftrightarrow> \<not> cont b"

text \<open>
  \<open>DecodeLastRune\<close>: it goes back from the last byte, over at most \<open>UTFMax\<close> bytes, to one that can
  start a rune. The loop variable \<open>start\<close> may become \<open>-1\<close>; the number here is \<open>start + 1\<close>.
\<close>

fun last_start :: "bytes \<Rightarrow> nat \<Rightarrow> nat \<Rightarrow> nat" where
  "last_start p lim 0 = 0"
| "last_start p lim (Suc start) =
     (if Suc start \<le> lim then Suc start
      else if RuneStart (p ! start) then Suc start
      else last_start p lim start)"

definition decode_last_rune :: "bytes \<Rightarrow> nat \<times> nat" where
  "decode_last_rune p =
     (if p = [] then (RuneError, 0)
      else if last p < 0x80 then (unat (last p), 1)
      else
        (let start = last_start p (length p - 4) (length p - 1) - 1;
             (r, n) = decode_rune (drop start p) in
         if start + n \<noteq> length p then (RuneError, 1) else (r, n)))"

section \<open>White space\<close>

text \<open>\<open>unicode.IsSpace\<close>: the characters with the property White Space.\<close>

definition IsSpace :: "nat \<Rightarrow> bool" where
  "IsSpace r \<longleftrightarrow>
     r \<in> {0x09, 0x0A, 0x0B, 0x0C, 0x0D, 0x20, 0x85, 0xA0, 0x1680, 0x2028, 0x2029, 0x202F, 0x205F, 0x3000} \<or>
     0x2000 \<le> r \<and> r \<le> 0x200A"

text \<open>
  \<open>bytes.TrimSpace\<close>. Its fast path for ASCII and \<open>TrimFunc\<close> agree: ASCII spaces are spaces and a
  byte below \<open>0x80\<close> is a rune.
\<close>

function trim_left :: "bytes \<Rightarrow> bytes" where
  "trim_left p =
     (if p = [] then []
      else if IsSpace (fst (decode_rune p)) then trim_left (drop (snd (decode_rune p)) p)
      else p)"
  by pat_completeness auto
termination
proof (relation "measure length", goal_cases)
  case (2 p)
  then show ?case using decode_rune_size [of p "fst (decode_rune p)" "snd (decode_rune p)"] by auto
qed simp

declare trim_left.simps [simp del]

lemma last_start_le: "last_start p lim n \<le> n"
  by (induction n) auto

lemma decode_last_rune_size:
  assumes "decode_last_rune p = (r, n)" "p \<noteq> []"
  shows "0 < n \<and> n \<le> length p"
proof -
  let ?s = "last_start p (length p - 4) (length p - 1) - 1"
  have "?s < length p"
    using last_start_le [of p "length p - 4" "length p - 1"] assms(2)
    by (cases p) (auto simp: le_diff_conv)
  then have "drop ?s p \<noteq> []" by simp
  from decode_rune_size [OF prod.collapse [symmetric] this] assms show ?thesis
    by (cases "decode_rune (drop ?s p)")
       (auto simp: decode_last_rune_def Let_def Suc_le_eq simp del: One_nat_def split: if_splits)
qed

function trim_right :: "bytes \<Rightarrow> bytes" where
  "trim_right p =
     (if p = [] then []
      else if IsSpace (fst (decode_last_rune p)) then trim_right (take (length p - snd (decode_last_rune p)) p)
      else p)"
  by pat_completeness auto
termination
proof (relation "measure length", goal_cases)
  case (2 p)
  then show ?case using decode_last_rune_size [of p "fst (decode_last_rune p)" "snd (decode_last_rune p)"]
    by auto
qed simp

declare trim_right.simps [simp del]

definition TrimSpace :: "bytes \<Rightarrow> bytes" where
  "TrimSpace p = trim_right (trim_left p)"

section \<open>Lemmas\<close>

lemma utf8_valid_Nil [simp]: "utf8_valid []"
  by (simp add: utf8_valid.simps)

lemma decode_rune_ascii: "b < 0x80 \<Longrightarrow> decode_rune (b # p) = (unat b, 1)"
  by (simp add: decode_rune_def seq_len_def)

lemma utf8_valid_ascii: "b < 0x80 \<Longrightarrow> utf8_valid (b # p) = utf8_valid p"
proof -
  assume b: "b < 0x80"
  then have "unat b < 128" by (simp add: word_less_nat_alt)
  with b show ?thesis
    by (subst utf8_valid.simps) (simp add: rune_bad_def decode_rune_ascii RuneError_def)
qed

lemma all_ascii_valid: "list_all (\<lambda>b. b < 0x80) p \<Longrightarrow> utf8_valid p"
  by (induction p) (simp_all add: utf8_valid_ascii)

text \<open>Text between two ASCII characters that are no spaces is not trimmed.\<close>

lemma trim_left_id: "p \<noteq> [] \<Longrightarrow> hd p < 0x80 \<Longrightarrow> \<not> IsSpace (unat (hd p)) \<Longrightarrow> trim_left p = p"
  by (cases p) (simp_all add: trim_left.simps decode_rune_ascii)

lemma trim_right_id: "p \<noteq> [] \<Longrightarrow> last p < 0x80 \<Longrightarrow> \<not> IsSpace (unat (last p)) \<Longrightarrow> trim_right p = p"
  by (subst trim_right.simps) (simp add: decode_last_rune_def)

lemma TrimSpace_id:
  "hd p < 0x80 \<Longrightarrow> last p < 0x80 \<Longrightarrow> \<not> IsSpace (unat (hd p)) \<Longrightarrow> \<not> IsSpace (unat (last p)) \<Longrightarrow> p \<noteq> [] \<Longrightarrow>
     TrimSpace p = p"
  by (simp add: TrimSpace_def trim_left_id trim_right_id)

text \<open>Only a byte below \<open>0x80\<close> decodes to a rune below 128.\<close>

lemma two_bytes_large: "between 0xC2 0xDF b \<Longrightarrow> 128 \<le> unat b mod 32 * 64 + n"
proof -
  assume "between 0xC2 0xDF b"
  then have "194 \<le> unat b" "unat b \<le> 223" by (simp_all add: between_def word_le_nat_alt)
  then have "2 \<le> unat b mod 32" by presburger
  then show ?thesis by simp
qed

lemma three_bytes_large:
  assumes "between 0xE0 0xEF b" "second_ok b c"
  shows "128 \<le> unat b mod 16 * 4096 + unat c mod 64 * 64 + n"
proof (cases "b = 0xE0")
  case True
  with assms(2) have "160 \<le> unat c" "unat c \<le> 191"
    by (simp_all add: second_ok_def between_def word_le_nat_alt)
  then have "32 \<le> unat c mod 64" by presburger
  then show ?thesis by simp
next
  case False
  have "unat b \<noteq> 224"
  proof
    assume "unat b = 224"
    then have "(of_nat (unat b) :: u8) = 0xE0" by simp
    with False show False by simp
  qed
  moreover have "224 \<le> unat b" "unat b \<le> 239"
    using assms(1) by (simp_all add: between_def word_le_nat_alt)
  ultimately have "1 \<le> unat b mod 16" by presburger
  then show ?thesis by simp
qed

lemma four_bytes_large:
  assumes "between 0xF0 0xF4 b" "second_ok b c"
  shows "128 \<le> unat b mod 8 * 262144 + unat c mod 64 * 4096 + n"
proof (cases "b = 0xF0")
  case True
  with assms(2) have "144 \<le> unat c" "unat c \<le> 191"
    by (simp_all add: second_ok_def between_def word_le_nat_alt)
  then have "16 \<le> unat c mod 64" by presburger
  then show ?thesis by simp
next
  case False
  have "unat b \<noteq> 240"
  proof
    assume "unat b = 240"
    then have "(of_nat (unat b) :: u8) = 0xF0" by simp
    with False show False by simp
  qed
  moreover have "240 \<le> unat b" "unat b \<le> 244"
    using assms(1) by (simp_all add: between_def word_le_nat_alt)
  ultimately have "1 \<le> unat b mod 8" by presburger
  then show ?thesis by simp
qed

lemma decode_rune_small:
  assumes "decode_rune (b # r) = (c, n)" "c < 128"
  shows "b < 0x80 \<and> n = 1"
proof (cases "b < 0x80")
  case True
  with assms decode_rune_ascii show ?thesis by simp
next
  case False
  have "128 \<le> c"
    using assms(1) False two_bytes_large [of b] three_bytes_large [of b] four_bytes_large [of b]
    by (auto simp: decode_rune_def seq_len_def RuneError_def add.assoc split: if_splits list.splits)
  with assms(2) show ?thesis by simp
qed

end
