(* ===== verification/Clickhouse.thy ===== *)
theory Clickhouse
  imports Utf8
begin

text \<open>
  The ClickHouse parser of \<open>src/ebpftracer/l7/clickhouse.go\<close>: a Query packet of the native protocol is
  read with each known layout until one fits. A \<open>chReader\<close> is the part of its data from its offset
  on; a read returns the value and the reader it leaves, \<open>None\<close> where the Go method reports failure,
  after which the program drops the reader.
\<close>

section \<open>Revisions and constants\<close>

definition chRevInitialQueryStartTime :: nat where "chRevInitialQueryStartTime = 54449"
definition chRevParallelReplicas :: nat where "chRevParallelReplicas = 54453"
definition chRevParameters :: nat where "chRevParameters = 54459"
definition chRevExternalRoles :: nat where "chRevExternalRoles = 54472"
definition chRevQueryAndLineNumbers :: nat where "chRevQueryAndLineNumbers = 54475"
definition chRevJWT :: nat where "chRevJWT = 54476"
definition chRevClientAgent :: nat where "chRevClientAgent = 54485"
definition chRevInternalQueryFlag :: nat where "chRevInternalQueryFlag = 54486"
definition chRevCurrentRoles :: nat where "chRevCurrentRoles = 54488"
definition chRevHTTPHandler :: nat where "chRevHTTPHandler = 54490"

definition chLayouts :: "nat list" where
  "chLayouts =
     [chRevHTTPHandler, chRevCurrentRoles, chRevInternalQueryFlag, chRevClientAgent, chRevJWT,
      chRevQueryAndLineNumbers, chRevExternalRoles, chRevParameters, chRevParallelReplicas,
      chRevInitialQueryStartTime]"

definition chClientData :: u8 where "chClientData = 2"
definition chClientScalar :: u8 where "chClientScalar = 7"
definition chClientIgnoredPartUUIDs :: u8 where "chClientIgnoredPartUUIDs = 8"
definition chClientQueryPlan :: u8 where "chClientQueryPlan = 13"
definition chQueryKindInitial :: u8 where "chQueryKindInitial = 1"
definition chQueryKindSecond :: u8 where "chQueryKindSecond = 2"
definition chInterfaceTCP :: u8 where "chInterfaceTCP = 1"
definition chInterfaceHTTP :: u8 where "chInterfaceHTTP = 2"
definition chInterfaceMax :: u8 where "chInterfaceMax = 11"
definition chMaxQuerySize :: nat where "chMaxQuerySize = 1024"

lemmas ch_revs = chRevInitialQueryStartTime_def chRevParallelReplicas_def chRevParameters_def
  chRevExternalRoles_def chRevQueryAndLineNumbers_def chRevJWT_def chRevClientAgent_def
  chRevInternalQueryFlag_def chRevCurrentRoles_def chRevHTTPHandler_def

lemmas ch_consts = chClientData_def chClientScalar_def chClientIgnoredPartUUIDs_def
  chClientQueryPlan_def chQueryKindInitial_def chQueryKindSecond_def chInterfaceTCP_def
  chInterfaceHTTP_def chInterfaceMax_def

section \<open>Reading\<close>

text \<open>
  \<open>binary.Uvarint\<close>, with the value, the rest and its three outcomes: a value, too few bytes
  (\<open>n == 0\<close>) and overflow of 64 bits (\<open>n < 0\<close>). The groups of seven bits do not overlap, so the
  disjunction that assembles them is a sum.
\<close>

datatype uvar = Uvalue nat bytes | Ushort | Uoverflow

fun uvarint_go :: "nat \<Rightarrow> nat \<Rightarrow> bytes \<Rightarrow> uvar" where
  "uvarint_go i x [] = Ushort"
| "uvarint_go i x (b # buf) =
     (if i = 10 then Uoverflow
      else if b < 0x80 then
        (if i = 9 \<and> b > 1 then Uoverflow else Uvalue (x + unat b * 2 ^ (7 * i)) buf)
      else uvarint_go (Suc i) (x + unat b mod 128 * 2 ^ (7 * i)) buf)"

definition Uvarint :: "bytes \<Rightarrow> uvar" where
  "Uvarint buf = uvarint_go 0 0 buf"

definition ch_uvarint :: "bytes \<Rightarrow> (nat \<times> bytes) option" where
  "ch_uvarint r =
     (if r = [] then None else (case Uvarint r of Uvalue v r1 \<Rightarrow> Some (v, r1) | _ \<Rightarrow> None))"

definition ch_byte :: "bytes \<Rightarrow> (u8 \<times> bytes) option" where
  "ch_byte r = (case r of [] \<Rightarrow> None | b # r1 \<Rightarrow> Some (b, r1))"

definition ch_skip :: "nat \<Rightarrow> bytes \<Rightarrow> bytes option" where
  "ch_skip n r = (if n > length r then None else Some (drop n r))"

definition ch_skipStr :: "bytes \<Rightarrow> bytes option" where
  "ch_skipStr r = do { (l, r1) \<leftarrow> ch_uvarint r; if l \<le> length r1 then ch_skip l r1 else None }"

fun ch_skipStrings :: "nat \<Rightarrow> bytes \<Rightarrow> bytes option" where
  "ch_skipStrings 0 r = Some r"
| "ch_skipStrings (Suc n) r = do { r1 \<leftarrow> ch_skipStr r; ch_skipStrings n r1 }"

fun ch_skipUvarints :: "nat \<Rightarrow> bytes \<Rightarrow> bytes option" where
  "ch_skipUvarints 0 r = Some r"
| "ch_skipUvarints (Suc n) r = do { (_, r1) \<leftarrow> ch_uvarint r; ch_skipUvarints n r1 }"

definition ch_flag :: "bytes \<Rightarrow> (u8 \<times> bytes) option" where
  "ch_flag r = do { (b, r1) \<leftarrow> ch_byte r; if b \<le> 1 then Some (b, r1) else None }"

definition isIdentByte :: "u8 \<Rightarrow> bool" where
  "isIdentByte c \<longleftrightarrow>
     c = 0x5F \<or> c \<ge> 0x30 \<and> c \<le> 0x39 \<or> c \<ge> 0x61 \<and> c \<le> 0x7A \<or> c \<ge> 0x41 \<and> c \<le> 0x5A"

definition chName :: "bytes \<Rightarrow> bool" where
  "chName b =
     (case Uvarint b of
        Ushort \<Rightarrow> True
      | Uoverflow \<Rightarrow> False
      | Uvalue l name \<Rightarrow> list_all isIdentByte (if length name > l then take l name else name))"

definition hasControlBytes :: "bytes \<Rightarrow> bool" where
  "hasControlBytes b \<longleftrightarrow>
     list_ex (\<lambda>c. c < 0x20 \<and> c \<noteq> 0x09 \<and> c \<noteq> 0x0A \<and> c \<noteq> 0x0D \<or> c = 0x7F) b"

text \<open>\<open>settingName\<close>: whether the list ends here, and the reader behind the name.\<close>

definition ch_settingName :: "bytes \<Rightarrow> (bool \<times> bytes) option" where
  "ch_settingName r =
     do {
       (l, r1) \<leftarrow> ch_uvarint r;
       (if l > length r1 then None
        else if \<not> list_all isIdentByte (take l r1) then None
        else Some (l = 0, drop l r1))
     }"

lemma uvarint_go_shorter: "uvarint_go i x b = Uvalue v r \<Longrightarrow> length r < length b"
  by (induction i x b rule: uvarint_go.induct) (auto split: if_splits)

lemma ch_uvarint_shorter: "ch_uvarint r = Some (v, r1) \<Longrightarrow> length r1 < length r"
  by (auto simp: ch_uvarint_def Uvarint_def dest: uvarint_go_shorter split: if_splits uvar.splits)

lemma ch_skip_le: "ch_skip n r = Some r1 \<Longrightarrow> length r1 \<le> length r"
  by (auto simp: ch_skip_def split: if_splits)

lemma ch_skipStr_shorter: "ch_skipStr r = Some r1 \<Longrightarrow> length r1 < length r"
  by (fastforce simp: ch_skipStr_def dest: ch_uvarint_shorter ch_skip_le split: bind_splits if_splits)

lemma ch_settingName_shorter: "ch_settingName r = Some (e, r1) \<Longrightarrow> length r1 < length r"
  by (fastforce simp: ch_settingName_def dest: ch_uvarint_shorter split: bind_splits if_splits)

text \<open>The loop over query parameters in \<open>chQueryEnd\<close>: it returns, or leaves the reader behind them.\<close>

function param_loop :: "bytes \<Rightarrow> bool + bytes" where
  "param_loop r =
     (if r = [] then Inl True
      else
        (case ch_settingName r of
           None \<Rightarrow> Inl (chName r)
         | Some (end, r1) \<Rightarrow>
             if end then Inr r1
             else
               (case ch_uvarint r1 of
                  None \<Rightarrow> Inl True
                | Some (_, r2) \<Rightarrow>
                    (case ch_skipStr r2 of None \<Rightarrow> Inl True | Some r3 \<Rightarrow> param_loop r3))))"
  by pat_completeness auto
termination
  by (relation "measure length")
     (auto dest!: ch_settingName_shorter ch_uvarint_shorter ch_skipStr_shorter)

declare param_loop.simps [simp del]

text \<open>The \<open>switch\<close> on the packet behind the parameters.\<close>

definition next_packet :: "bytes \<Rightarrow> bool" where
  "next_packet r =
     (case r of
        [] \<Rightarrow> True
      | b # r1 \<Rightarrow>
          if b = chClientData \<or> b = chClientScalar then chName r1
          else b = chClientIgnoredPartUUIDs \<or> b = chClientQueryPlan)"

definition chQueryEnd :: "bytes \<Rightarrow> nat \<Rightarrow> bool" where
  "chQueryEnd b rv =
     (if rv \<ge> chRevParameters then (case param_loop b of Inl res \<Rightarrow> res | Inr r \<Rightarrow> next_packet r)
      else next_packet b)"

text \<open>The loop over the settings in \<open>query\<close>.\<close>

function setting_loop :: "bytes \<Rightarrow> bytes option" where
  "setting_loop r =
     (case ch_settingName r of
        None \<Rightarrow> None
      | Some (end, r1) \<Rightarrow>
          if end then Some r1
          else
            (case ch_uvarint r1 of
               None \<Rightarrow> None
             | Some (_, r2) \<Rightarrow> (case ch_skipStr r2 of None \<Rightarrow> None | Some r3 \<Rightarrow> setting_loop r3)))"
  by pat_completeness auto
termination
  by (relation "measure length")
     (auto dest!: ch_settingName_shorter ch_uvarint_shorter ch_skipStr_shorter)

declare setting_loop.simps [simp del]

section \<open>The query\<close>

text \<open>The \<open>query\<close> method, in the parts its comments name. First the client info.\<close>

definition ch_trace :: "bytes \<Rightarrow> bytes option" where
  "ch_trace r =
     do {
       (hasTrace, r) \<leftarrow> ch_flag r;
       (if hasTrace = 1 then do { r \<leftarrow> ch_skip (16 + 8) r; r \<leftarrow> ch_skipStr r; ch_skip 1 r }
        else Some r)
     }"

definition ch_jwt :: "bytes \<Rightarrow> bytes option" where
  "ch_jwt r = do { (hasJWT, r) \<leftarrow> ch_flag r; if hasJWT = 1 then ch_skipStr r else Some r }"

definition ch_roles :: "bytes \<Rightarrow> bytes option" where
  "ch_roles r =
     do {
       (hasRoles, r) \<leftarrow> ch_flag r;
       (if hasRoles = 1 then
          do { (n, r) \<leftarrow> ch_uvarint r; if n > length r then None else ch_skipStrings n r }
        else Some r)
     }"

definition ch_info :: "nat \<Rightarrow> u8 \<Rightarrow> bytes \<Rightarrow> bytes option" where
  "ch_info rv iface r =
     do {
       r \<leftarrow> (if iface = chInterfaceHTTP \<and> rv \<ge> chRevHTTPHandler then ch_skipStrings 2 r else Some r);
       r \<leftarrow> ch_skipStr r;
       r \<leftarrow> ch_skipUvarints 1 r;
       r \<leftarrow> (if iface = chInterfaceTCP then ch_skipUvarints 1 r else Some r);
       r \<leftarrow> ch_trace r;
       r \<leftarrow> (if rv \<ge> chRevParallelReplicas
             then do { (_, r) \<leftarrow> ch_flag r; ch_skipUvarints 2 r } else Some r);
       r \<leftarrow> (if rv \<ge> chRevQueryAndLineNumbers then ch_skipUvarints 2 r else Some r);
       r \<leftarrow> (if rv \<ge> chRevJWT then ch_jwt r else Some r);
       r \<leftarrow> (if rv \<ge> chRevClientAgent then ch_skipStr r else Some r);
       r \<leftarrow> (if rv \<ge> chRevInternalQueryFlag then do { (_, r) \<leftarrow> ch_flag r; Some r } else Some r);
       (if rv \<ge> chRevCurrentRoles then ch_roles r else Some r)
     }"

text \<open>The settings and what stands between them and the query.\<close>

definition ch_head :: "nat \<Rightarrow> bytes \<Rightarrow> bytes option" where
  "ch_head rv r =
     do {
       r \<leftarrow> setting_loop r;
       r \<leftarrow> (if rv \<ge> chRevExternalRoles then ch_skipStr r else Some r);
       r \<leftarrow> ch_skipStr r;
       (stage, r) \<leftarrow> ch_uvarint r;
       (if stage > 2 then None
        else do { (compression, r) \<leftarrow> ch_uvarint r; if compression > 1 then None else Some r })
     }"

text \<open>The loop that drops a partial character from the end, at most \<open>i\<close> bytes.\<close>

fun drop_partial :: "nat \<Rightarrow> bytes \<Rightarrow> bytes" where
  "drop_partial 0 q = q"
| "drop_partial (Suc i) q =
     (if q = [] then q
      else if (case decode_last_rune q of (r, n) \<Rightarrow> r \<noteq> RuneError \<or> n > 1) then q
      else drop_partial i (butlast q))"

definition truncation_mark :: string where
  "truncation_mark = ''...<TRUNCATED>''"

text \<open>The text reported for the bytes \<open>q\<close> of a query, \<open>truncated\<close> or whole.\<close>

definition ch_text :: "bool \<Rightarrow> bytes \<Rightarrow> string option" where
  "ch_text truncated q =
     (let q = TrimSpace q;
          q = (if truncated \<and> q \<noteq> [] then drop_partial 3 (butlast q) else q) in
      if q = [] then None
      else if \<not> utf8_valid q \<or> hasControlBytes q then None
      else if truncated then Some (gostr q @ truncation_mark)
      else Some (gostr q))"

definition chReader_query :: "nat \<Rightarrow> u8 \<Rightarrow> bytes \<Rightarrow> string option" where
  "chReader_query rv iface r =
     do {
       r \<leftarrow> ch_info rv iface r;
       r \<leftarrow> ch_head rv r;
       (l, r) \<leftarrow> ch_uvarint r;
       (if length r > l \<and> \<not> chQueryEnd (drop l r) rv then None
        else
          (let q = take chMaxQuerySize (take l r) in
           ch_text (length q < l) q))
     }"

section \<open>The packet\<close>

text \<open>The layouts of one pass, in order; \<open>r\<close> is copied for each.\<close>

fun try_layouts :: "nat list \<Rightarrow> bool \<Rightarrow> nat \<Rightarrow> u8 \<Rightarrow> bytes \<Rightarrow> string option" where
  "try_layouts [] first clientRevision iface r = None"
| "try_layouts (rv # rvs) first clientRevision iface r =
     (if rv = chRevHTTPHandler \<and> iface \<noteq> chInterfaceHTTP then try_layouts rvs first clientRevision iface r
      else if (rv \<le> clientRevision) \<noteq> first then try_layouts rvs first clientRevision iface r
      else
        (case chReader_query rv iface r of
           Some q \<Rightarrow> Some q
         | None \<Rightarrow> try_layouts rvs first clientRevision iface r))"

text \<open>The client's revision, by interface, and the reader behind it.\<close>

definition ch_client :: "u8 \<Rightarrow> bytes \<Rightarrow> (nat \<times> bytes) option" where
  "ch_client iface r =
     (if iface = chInterfaceTCP then
        do { r \<leftarrow> ch_skipStrings 3 r; r \<leftarrow> ch_skipUvarints 2 r; ch_uvarint r }
      else if iface = chInterfaceHTTP then
        do { r \<leftarrow> ch_skip 1 r; r \<leftarrow> ch_skipStrings 3 r; Some (0, r) }
      else Some (0, r))"

definition ch_packet :: "bytes \<Rightarrow> (u8 \<times> nat \<times> bytes) option" where
  "ch_packet r =
     do {
       (_, r) \<leftarrow> ch_byte r;
       r \<leftarrow> ch_skipStr r;
       (kind, r) \<leftarrow> ch_byte r;
       (if kind \<noteq> chQueryKindInitial \<and> kind \<noteq> chQueryKindSecond then None
        else do {
          r \<leftarrow> ch_skipStrings 3 r;
          r \<leftarrow> ch_skip 8 r;
          (iface, r) \<leftarrow> ch_byte r;
          (if iface < chInterfaceTCP \<or> iface > chInterfaceMax then None
           else do { (clientRevision, r) \<leftarrow> ch_client iface r; Some (iface, clientRevision, r) })
        })
     }"

definition ParseClickhouse :: "bytes \<Rightarrow> string \<times> bool" where
  "ParseClickhouse payload =
     (case ch_packet payload of
        None \<Rightarrow> ([], False)
      | Some (iface, clientRevision, r) \<Rightarrow>
          (case try_layouts chLayouts True clientRevision iface r of
             Some q \<Rightarrow> (q, True)
           | None \<Rightarrow>
               (case try_layouts chLayouts False clientRevision iface r of
                  Some q \<Rightarrow> (q, True)
                | None \<Rightarrow> ([], True))))"

end
