(* ===== verification/Clickhouse_Correct.thy ===== *)
theory Clickhouse_Correct
  imports Clickhouse
begin

text \<open>
  What the ClickHouse parser promises. The Query packet is encoded as the protocol lays it out, by
  revision and interface; the reader is shown to read that layout back, and the reported text to be
  clean and bounded whatever the bytes.
\<close>

section \<open>Encodings\<close>

function enc_uvarint :: "nat \<Rightarrow> bytes" where
  "enc_uvarint n = (if n < 128 then [of_nat n] else of_nat (n mod 128 + 128) # enc_uvarint (n div 128))"
  by pat_completeness auto
termination by (relation "measure id") auto

declare enc_uvarint.simps [simp del]

definition enc_str :: "bytes \<Rightarrow> bytes" where
  "enc_str s = enc_uvarint (length s) @ s"

definition enc_flag :: "bool \<Rightarrow> bytes" where
  "enc_flag b = [if b then 1 else 0]"

definition enc_setting :: "bytes \<times> nat \<times> bytes \<Rightarrow> bytes" where
  "enc_setting s = (case s of (name, flags, v) \<Rightarrow> enc_str name @ enc_uvarint flags @ enc_str v)"

definition enc_settings :: "(bytes \<times> nat \<times> bytes) list \<Rightarrow> bytes" where
  "enc_settings ss = concat (map enc_setting ss) @ [0]"

text \<open>Lengths and numbers fit the 64 bits of the wire format.\<close>

definition u64_ok :: "nat \<Rightarrow> bool" where
  "u64_ok n \<longleftrightarrow> n < 2 ^ 64"

definition str_ok :: "bytes \<Rightarrow> bool" where
  "str_ok s \<longleftrightarrow> u64_ok (length s)"

definition setting_ok :: "bytes \<times> nat \<times> bytes \<Rightarrow> bool" where
  "setting_ok s \<longleftrightarrow> (case s of (name, flags, v) \<Rightarrow>
     name \<noteq> [] \<and> list_all isIdentByte name \<and> str_ok name \<and> u64_ok flags \<and> str_ok v)"

record ch_query =
  cqHandler :: bytes
  cqURL :: bytes
  cqQuota :: bytes
  cqDepth :: nat
  cqPatch :: nat
  cqTrace :: "(bytes \<times> bytes \<times> u8) option"
  cqCollaborate :: bool
  cqReplicas :: "nat \<times> nat"
  cqScript :: "nat \<times> nat"
  cqJWT :: "bytes option"
  cqAgent :: bytes
  cqInternal :: bool
  cqRoles :: "bytes list option"
  cqSettings :: "(bytes \<times> nat \<times> bytes) list"
  cqExternalRoles :: bytes
  cqSecret :: bytes
  cqStage :: nat
  cqCompression :: nat
  cqText :: bytes

fun enc_trace :: "(bytes \<times> bytes \<times> u8) option \<Rightarrow> bytes" where
  "enc_trace None = enc_flag False"
| "enc_trace (Some (ids, state, fl)) = enc_flag True @ ids @ enc_str state @ [fl]"

fun enc_jwt :: "bytes option \<Rightarrow> bytes" where
  "enc_jwt None = enc_flag False"
| "enc_jwt (Some t) = enc_flag True @ enc_str t"

fun enc_roles :: "bytes list option \<Rightarrow> bytes" where
  "enc_roles None = enc_flag False"
| "enc_roles (Some rs) = enc_flag True @ enc_uvarint (length rs) @ concat (map enc_str rs)"

definition enc_info :: "nat \<Rightarrow> u8 \<Rightarrow> ch_query \<Rightarrow> bytes" where
  "enc_info rv iface c =
     (if iface = chInterfaceHTTP \<and> rv \<ge> chRevHTTPHandler then enc_str (cqHandler c) @ enc_str (cqURL c) else []) @
     enc_str (cqQuota c) @ enc_uvarint (cqDepth c) @
     (if iface = chInterfaceTCP then enc_uvarint (cqPatch c) else []) @
     enc_trace (cqTrace c) @
     (if rv \<ge> chRevParallelReplicas
      then enc_flag (cqCollaborate c) @ enc_uvarint (fst (cqReplicas c)) @ enc_uvarint (snd (cqReplicas c)) else []) @
     (if rv \<ge> chRevQueryAndLineNumbers
      then enc_uvarint (fst (cqScript c)) @ enc_uvarint (snd (cqScript c)) else []) @
     (if rv \<ge> chRevJWT then enc_jwt (cqJWT c) else []) @
     (if rv \<ge> chRevClientAgent then enc_str (cqAgent c) else []) @
     (if rv \<ge> chRevInternalQueryFlag then enc_flag (cqInternal c) else []) @
     (if rv \<ge> chRevCurrentRoles then enc_roles (cqRoles c) else [])"

definition enc_head :: "nat \<Rightarrow> ch_query \<Rightarrow> bytes" where
  "enc_head rv c =
     enc_settings (cqSettings c) @
     (if rv \<ge> chRevExternalRoles then enc_str (cqExternalRoles c) else []) @
     enc_str (cqSecret c) @ enc_uvarint (cqStage c) @ enc_uvarint (cqCompression c)"

text \<open>What follows the text: query parameters where the revision has them, then a packet.\<close>

definition enc_rest :: "nat \<Rightarrow> (bytes \<times> nat \<times> bytes) list \<Rightarrow> bytes \<Rightarrow> bytes" where
  "enc_rest rv params pkt = (if rv \<ge> chRevParameters then enc_settings params else []) @ pkt"

definition enc_query :: "nat \<Rightarrow> u8 \<Rightarrow> ch_query \<Rightarrow> bytes \<Rightarrow> bytes" where
  "enc_query rv iface c rest = enc_info rv iface c @ enc_head rv c @ enc_str (cqText c) @ rest"

definition trace_ok :: "(bytes \<times> bytes \<times> u8) option \<Rightarrow> bool" where
  "trace_ok t \<longleftrightarrow> (case t of None \<Rightarrow> True | Some (ids, state, fl) \<Rightarrow> length ids = 24 \<and> str_ok state)"

definition query_ok :: "ch_query \<Rightarrow> bool" where
  "query_ok c \<longleftrightarrow>
     list_all str_ok [cqHandler c, cqURL c, cqQuota c, cqAgent c, cqExternalRoles c, cqSecret c, cqText c] \<and>
     list_all u64_ok [cqDepth c, cqPatch c, fst (cqReplicas c), snd (cqReplicas c), fst (cqScript c),
                      snd (cqScript c)] \<and>
     trace_ok (cqTrace c) \<and> pred_option str_ok (cqJWT c) \<and>
     pred_option (\<lambda>rs. u64_ok (length rs) \<and> list_all str_ok rs) (cqRoles c) \<and>
     list_all setting_ok (cqSettings c) \<and> cqStage c \<le> 2 \<and> cqCompression c \<le> 1"

text \<open>A text the parser reports as it is.\<close>

definition text_clean :: "bytes \<Rightarrow> bool" where
  "text_clean q \<longleftrightarrow> q \<noteq> [] \<and> TrimSpace q = q \<and> utf8_valid q \<and> \<not> hasControlBytes q"

text \<open>The start of a packet sent over the native TCP interface.\<close>

record ch_start =
  csType :: u8
  csId :: bytes
  csKind :: u8
  csInitial :: "bytes list"
  csTime :: bytes
  csClient :: "bytes list"
  csVersion :: "nat \<times> nat"
  csRevision :: nat

definition enc_packet :: "ch_start \<Rightarrow> bytes \<Rightarrow> bytes" where
  "enc_packet h body =
     csType h # enc_str (csId h) @ csKind h # concat (map enc_str (csInitial h)) @ csTime h @
     chInterfaceTCP # concat (map enc_str (csClient h)) @ enc_uvarint (fst (csVersion h)) @
     enc_uvarint (snd (csVersion h)) @ enc_uvarint (csRevision h) @ body"

definition start_ok :: "ch_start \<Rightarrow> bool" where
  "start_ok h \<longleftrightarrow>
     str_ok (csId h) \<and> (csKind h = chQueryKindInitial \<or> csKind h = chQueryKindSecond) \<and>
     length (csInitial h) = 3 \<and> list_all str_ok (csInitial h) \<and> length (csTime h) = 8 \<and>
     length (csClient h) = 3 \<and> list_all str_ok (csClient h) \<and>
     list_all u64_ok [fst (csVersion h), snd (csVersion h), csRevision h]"

text \<open>The newest layout a client of a revision speaks; the HTTP handler does not change that of TCP.\<close>

definition client_layout :: "nat \<Rightarrow> nat \<Rightarrow> bool" where
  "client_layout cr rv \<longleftrightarrow>
     rv \<in> set chLayouts \<and> rv \<noteq> chRevHTTPHandler \<and> rv \<le> cr \<and>
     list_all (\<lambda>v. v \<le> rv \<or> cr < v \<or> v = chRevHTTPHandler) chLayouts"

section \<open>Reading back\<close>

lemma enc_uvarint_not_Nil [simp]: "enc_uvarint n \<noteq> []"
  by (subst enc_uvarint.simps) simp

lemma length_enc_uvarint_pos: "0 < length (enc_uvarint n)"
  by simp

lemma uvarint_go_enc:
  assumes "i \<le> 9" "n < 2 ^ (64 - 7 * i)"
  shows "uvarint_go i x (enc_uvarint n @ r) = Uvalue (x + n * 2 ^ (7 * i)) r"
  using assms
proof (induction n arbitrary: i x rule: enc_uvarint.induct)
  case (1 n)
  show ?case
  proof (cases "n < 128")
    case True
    then have u: "unat (of_nat n :: u8) = n" by simp
    have "\<not> (i = 9 \<and> (of_nat n :: u8) > 1)"
      using 1(3) u by (auto simp: word_less_nat_alt)
    moreover have "(of_nat n :: u8) < 0x80" using True u by (simp add: word_less_nat_alt)
    moreover have "i \<noteq> 10" using 1(2) by simp
    ultimately show ?thesis using True u by (subst enc_uvarint.simps) simp
  next
    case False
    let ?b = "of_nat (n mod 128 + 128) :: u8"
    have u: "unat ?b = n mod 128 + 128" by (simp add: unat_of_nat del: of_nat_add)
    have b: "\<not> ?b < 0x80" using u by (simp add: word_less_nat_alt)
    have i: "Suc i \<le> 9"
    proof (rule ccontr)
      assume "\<not> Suc i \<le> 9"
      then have "i = 9" using 1(2) by simp
      then show False using 1(3) False by simp
    qed
    have "64 - 7 * i = 7 + (64 - 7 * Suc i)" using i by simp
    then have "(2::nat) ^ (64 - 7 * i) = 128 * 2 ^ (64 - 7 * Suc i)"
      by (simp only: power_add) simp
    then have small: "n div 128 < 2 ^ (64 - 7 * Suc i)"
      using 1(3) by (simp add: less_mult_imp_div_less mult.commute)
    have "n mod 128 * 2 ^ (7 * i) + n div 128 * 2 ^ (7 * Suc i) = n * 2 ^ (7 * i)"
    proof -
      have "n div 128 * 2 ^ (7 * Suc i) = (128 * (n div 128)) * 2 ^ (7 * i)"
        by (simp add: power_add mult.assoc mult.left_commute)
      then show ?thesis by (metis add.commute add_mult_distrib mult_div_mod_eq)
    qed
    moreover have "(n mod 128 + 128) mod 128 = n mod 128" by simp
    ultimately show ?thesis
      using 1(1) [OF False i small, of "x + n mod 128 * 2 ^ (7 * i)"] False b u i
      by (subst enc_uvarint.simps) (simp del: power_Suc)
  qed
qed

lemma Uvarint_enc [simp]: "u64_ok n \<Longrightarrow> Uvarint (enc_uvarint n @ r) = Uvalue n r"
  using uvarint_go_enc [of 0 n 0 r] by (simp add: Uvarint_def u64_ok_def)

lemma ch_uvarint_enc [simp]: "u64_ok n \<Longrightarrow> ch_uvarint (enc_uvarint n @ r) = Some (n, r)"
  by (simp add: ch_uvarint_def)

lemma ch_byte_Cons [simp]: "ch_byte (b # r) = Some (b, r)"
  by (simp add: ch_byte_def)

lemma ch_skip_append [simp]: "length s = n \<Longrightarrow> ch_skip n (s @ r) = Some r"
  by (simp add: ch_skip_def)

lemma ch_skip_1 [simp]: "ch_skip (Suc 0) (b # r) = Some r"
  by (simp add: ch_skip_def)

lemma ch_skipStr_enc [simp]: "str_ok s \<Longrightarrow> ch_skipStr (enc_str s @ r) = Some r"
  by (simp add: ch_skipStr_def enc_str_def str_ok_def)

lemma ch_skipStrings_enc [simp]:
  "list_all str_ok ss \<Longrightarrow> ch_skipStrings (length ss) (concat (map enc_str ss) @ r) = Some r"
  by (induction ss) auto

lemma ch_flag_enc [simp]: "ch_flag (enc_flag b @ r) = Some (if b then 1 else 0, r)"
  by (simp add: ch_flag_def enc_flag_def)

lemma u64_ok_small [simp]: "n \<le> 2 \<Longrightarrow> u64_ok n"
  by (simp add: u64_ok_def)

lemma enc_zero: "[0] = enc_uvarint 0"
  by (subst enc_uvarint.simps) simp

lemma ch_settingName_enc:
  "str_ok s \<Longrightarrow> list_all isIdentByte s \<Longrightarrow> ch_settingName (enc_str s @ r) = Some (s = [], r)"
  by (simp add: ch_settingName_def enc_str_def str_ok_def)

lemma ch_settingName_end: "ch_settingName (0 # r) = Some (True, r)"
  using ch_settingName_enc [of "[]" r] by (simp add: str_ok_def enc_str_def flip: enc_zero)

lemma setting_loop_enc [simp]:
  "list_all setting_ok ss \<Longrightarrow> setting_loop (enc_settings ss @ r) = Some r"
proof (induction ss)
  case Nil
  then show ?case by (subst setting_loop.simps) (simp add: enc_settings_def ch_settingName_end)
next
  case (Cons s ss)
  obtain n f v where s: "s = (n, f, v)" by (rule prod_cases3)
  with Cons show ?case
    by (subst setting_loop.simps)
       (simp add: enc_settings_def enc_setting_def setting_ok_def ch_settingName_enc)
qed

lemma param_loop_enc [simp]:
  "list_all setting_ok ss \<Longrightarrow> param_loop (enc_settings ss @ r) = Inr r"
proof (induction ss)
  case Nil
  then show ?case by (subst param_loop.simps) (simp add: enc_settings_def ch_settingName_end)
next
  case (Cons s ss)
  obtain n f v where s: "s = (n, f, v)" by (rule prod_cases3)
  have "enc_str n \<noteq> []" by (simp add: enc_str_def)
  with s Cons show ?case
    by (subst param_loop.simps)
       (simp add: enc_settings_def enc_setting_def setting_ok_def ch_settingName_enc)
qed

lemma length_strings: "length ss \<le> length (concat (map enc_str ss))"
proof (induction ss)
  case (Cons s ss)
  have "1 \<le> length (enc_str s)" by (simp add: enc_str_def Suc_le_eq)
  with Cons show ?case by simp
qed simp

lemma ch_trace_enc [simp]: "trace_ok t \<Longrightarrow> ch_trace (enc_trace t @ r) = Some r"
  by (cases t rule: enc_trace.cases) (auto simp: ch_trace_def trace_ok_def)

lemma ch_jwt_enc [simp]: "pred_option str_ok t \<Longrightarrow> ch_jwt (enc_jwt t @ r) = Some r"
  by (cases t) (auto simp: ch_jwt_def)

lemma ch_roles_enc [simp]:
  "pred_option (\<lambda>rs. u64_ok (length rs) \<and> list_all str_ok rs) t \<Longrightarrow> ch_roles (enc_roles t @ r) = Some r"
proof (cases t)
  case (Some rs)
  assume "pred_option (\<lambda>rs. u64_ok (length rs) \<and> list_all str_ok rs) t"
  with Some length_strings [of rs] show ?thesis by (simp add: ch_roles_def)
qed (simp add: ch_roles_def)

lemma ch_skipStrings_2 [simp]:
  "str_ok a \<Longrightarrow> str_ok b \<Longrightarrow> ch_skipStrings 2 (enc_str a @ enc_str b @ r) = Some r"
  by (simp add: numeral_2_eq_2)

lemma ch_skipUvarints_1 [simp]: "u64_ok a \<Longrightarrow> ch_skipUvarints (Suc 0) (enc_uvarint a @ r) = Some r"
  by simp

lemma ch_skipUvarints_2 [simp]:
  "u64_ok a \<Longrightarrow> u64_ok b \<Longrightarrow> ch_skipUvarints 2 (enc_uvarint a @ enc_uvarint b @ r) = Some r"
  by (simp add: numeral_2_eq_2)

lemma ch_info_enc: "query_ok c \<Longrightarrow> ch_info rv iface (enc_info rv iface c @ r) = Some r"
  by (simp add: ch_info_def enc_info_def query_ok_def del: ch_skipUvarints.simps)

lemma ch_head_enc: "query_ok c \<Longrightarrow> ch_head rv (enc_head rv c @ r) = Some r"
  by (simp add: ch_head_def enc_head_def query_ok_def)

section \<open>The text\<close>

lemma TrimSpace_le: "length (TrimSpace q) \<le> length q"
proof -
  have l: "length (trim_left p) \<le> length p" for p
    by (induction p rule: trim_left.induct) (subst trim_left.simps, auto intro: order_trans)
  have r: "length (trim_right p) \<le> length p" for p
    by (induction p rule: trim_right.induct) (subst trim_right.simps, auto intro: order_trans)
  show ?thesis unfolding TrimSpace_def using order_trans [OF r l] .
qed

lemma drop_partial_le: "length (drop_partial i q) \<le> length q"
proof (induction i q rule: drop_partial.induct)
  case (2 i q)
  then show ?case by (auto simp: Let_def intro: order_trans)
qed simp

lemma ch_text_spec:
  assumes "ch_text t q = Some s"
  shows "\<exists>b. s = gostr b @ (if t then truncation_mark else []) \<and> b \<noteq> [] \<and> length b \<le> length q \<and>
    utf8_valid b \<and> \<not> hasControlBytes b"
proof -
  let ?q = "TrimSpace q"
  let ?b = "if t \<and> ?q \<noteq> [] then drop_partial 3 (butlast ?q) else ?q"
  have "length ?b \<le> length ?q"
    using drop_partial_le [of 3 "butlast ?q"] by (auto intro: order_trans)
  then have "length ?b \<le> length q" using TrimSpace_le [of q] by linarith
  with assms show ?thesis
    by (intro exI [of _ ?b]) (simp add: ch_text_def Let_def split: if_splits)
qed

lemma query_spec:
  assumes "chReader_query rv iface r = Some s"
  shows "\<exists>b t. s = gostr b @ (if t then truncation_mark else []) \<and> b \<noteq> [] \<and> length b \<le> chMaxQuerySize \<and>
    utf8_valid b \<and> \<not> hasControlBytes b"
proof -
  from assms obtain t q where "ch_text t q = Some s" "length q \<le> chMaxQuerySize"
    by (auto simp: chReader_query_def Let_def split: bind_splits if_splits)
  with ch_text_spec [of t q s] show ?thesis by (blast intro: order_trans)
qed

lemma try_layouts_spec:
  "try_layouts rvs p cr iface r = Some s \<Longrightarrow> \<exists>rv. rv \<in> set rvs \<and> chReader_query rv iface r = Some s"
  by (induction rvs) (auto split: if_splits option.splits)

lemma try_layouts_first:
  assumes "chReader_query rv iface r = Some s" "rv \<le> cr" "rv = chRevHTTPHandler \<Longrightarrow> iface = chInterfaceHTTP"
    "list_all (\<lambda>v. cr < v \<or> v = chRevHTTPHandler \<and> iface \<noteq> chInterfaceHTTP) newer"
  shows "try_layouts (newer @ rv # older) True cr iface r = Some s"
  using assms by (induction newer) auto

lemma query_enc:
  assumes "query_ok c" "text_clean (cqText c)" "length (cqText c) \<le> chMaxQuerySize" 
    "rest = [] \<or> chQueryEnd rest rv"
  shows "chReader_query rv iface (enc_query rv iface c rest) = Some (gostr (cqText c))"
proof -
  have "u64_ok (length (cqText c))" using assms(1) by (simp add: query_ok_def str_ok_def)
  with assms show ?thesis
    by (auto simp: chReader_query_def enc_query_def ch_info_enc ch_head_enc enc_str_def ch_text_def
        text_clean_def Let_def)
qed

lemma query_end_enc:
  "list_all setting_ok params \<Longrightarrow> next_packet pkt \<Longrightarrow> chQueryEnd (enc_rest rv params pkt) rv"
  by (simp add: chQueryEnd_def enc_rest_def)

lemma layouts_sorted: "sorted_wrt (>) chLayouts"
  by (simp add: chLayouts_def ch_revs)

lemma try_layouts_client:
  assumes "client_layout cr rv" "chReader_query rv chInterfaceTCP r = Some s"
  shows "try_layouts chLayouts True cr chInterfaceTCP r = Some s"
proof -
  from assms(1) have "rv \<in> set chLayouts" by (simp add: client_layout_def)
  then obtain newer older where l: "chLayouts = newer @ rv # older" by (meson split_list)
  have "\<forall>v \<in> set newer. rv < v"
    using layouts_sorted unfolding l by (simp add: sorted_wrt_append)
  moreover have "\<forall>v \<in> set newer. v \<le> rv \<or> cr < v \<or> v = chRevHTTPHandler"
    using assms(1) unfolding client_layout_def l by (simp add: list_all_iff)
  ultimately have "list_all (\<lambda>v. cr < v \<or> v = chRevHTTPHandler \<and> chInterfaceTCP \<noteq> chInterfaceHTTP) newer"
    by (fastforce simp: list_all_iff ch_consts)
  with assms show ?thesis
    unfolding l by (intro try_layouts_first) (auto simp: client_layout_def)
qed

lemma ch_skipStrings_3 [simp]:
  "length ss = 3 \<Longrightarrow> list_all str_ok ss \<Longrightarrow> ch_skipStrings 3 (concat (map enc_str ss) @ r) = Some r"
  using ch_skipStrings_enc [of ss r] by simp

lemma ch_packet_enc: "start_ok h \<Longrightarrow> ch_packet (enc_packet h body) = Some (chInterfaceTCP, csRevision h, body)"
  by (auto simp: ch_packet_def enc_packet_def start_ok_def ch_client_def ch_consts simp del: ch_skipUvarints.simps)

lemma ParseClickhouse_cases:
  obtains ok where "ParseClickhouse payload = ([], ok)"
    | s where "ParseClickhouse payload = (s, True)" "ch_packet payload \<noteq> None"
        "\<exists>b t. s = gostr b @ (if t then truncation_mark else []) \<and> b \<noteq> [] \<and> length b \<le> chMaxQuerySize \<and>
           utf8_valid b \<and> \<not> hasControlBytes b"
proof (cases "ch_packet payload")
  case None
  then show ?thesis using that(1) [of False] by (simp add: ParseClickhouse_def)
next
  case (Some x)
  obtain iface cr r where x: "x = (iface, cr, r)" by (rule prod_cases3)
  note shown = that(2) [OF _ _ query_spec]
  show ?thesis
  proof (cases "try_layouts chLayouts True cr iface r")
    case (Some s)
    with \<open>ch_packet payload = Some x\<close> x shown show ?thesis
      by (auto simp: ParseClickhouse_def dest: try_layouts_spec)
  next
    case first: None
    show ?thesis
    proof (cases "try_layouts chLayouts False cr iface r")
      case (Some s)
      with \<open>ch_packet payload = Some x\<close> x first shown show ?thesis
        by (auto simp: ParseClickhouse_def dest: try_layouts_spec)
    next
      case None
      with \<open>ch_packet payload = Some x\<close> x first that(1) [of True] show ?thesis
        by (simp add: ParseClickhouse_def)
    qed
  qed
qed

section \<open>Properties\<close>

text \<open>
  C22. A Query packet of a TCP client, laid out for the newest layout its revision has, with any query
  parameters behind it and any packet that may follow a query, is reported with exactly the text sent,
  when that text is clean and within the size limit.
\<close>

theorem ParseClickhouse_reads_query:
  assumes "start_ok h" "query_ok c" "client_layout (csRevision h) rv"
    "text_clean (cqText c)" "length (cqText c) \<le> chMaxQuerySize"
    "list_all setting_ok params" "next_packet pkt"
  shows "ParseClickhouse (enc_packet h (enc_query rv chInterfaceTCP c (enc_rest rv params pkt))) =
    (gostr (cqText c), True)"
proof -
  let ?r = "enc_query rv chInterfaceTCP c (enc_rest rv params pkt)"
  have "chReader_query rv chInterfaceTCP ?r = Some (gostr (cqText c))"
    using assms by (intro query_enc) (simp_all add: query_end_enc)
  with assms(3) have "try_layouts chLayouts True (csRevision h) chInterfaceTCP ?r = Some (gostr (cqText c))"
    by (rule try_layouts_client)
  with assms(1) show ?thesis by (simp add: ParseClickhouse_def ch_packet_enc)
qed

theorem ParseClickhouse_reads_query_witness:
  "ParseClickhouse (enc_packet
     \<lparr>csType = 1, csId = [], csKind = 1, csInitial = [[], [], []], csTime = replicate 8 0,
      csClient = [[], [], []], csVersion = (24, 3), csRevision = 54460\<rparr>
     (enc_query 54459 chInterfaceTCP
       \<lparr>cqHandler = [], cqURL = [], cqQuota = [], cqDepth = 0, cqPatch = 1, cqTrace = None,
        cqCollaborate = False, cqReplicas = (0, 0), cqScript = (0, 0), cqJWT = None, cqAgent = [],
        cqInternal = False, cqRoles = None, cqSettings = [([0x61], 1, [0x31])], cqExternalRoles = [],
        cqSecret = [], cqStage = 2, cqCompression = 1, cqText = [0x6F, 0x6B]\<rparr>
       (enc_rest 54459 [] [2, 0]))) = (''ok'', True)"
proof -
  have "text_clean [0x6F, 0x6B]"
    by (simp add: text_clean_def TrimSpace_id IsSpace_def all_ascii_valid hasControlBytes_def)
  moreover have "client_layout 54460 54459"
    by (simp add: client_layout_def chLayouts_def ch_revs)
  moreover have "next_packet [2, 0]"
    using Uvarint_enc [of 0 "[]"] by (simp add: next_packet_def ch_consts chName_def flip: enc_zero)
  moreover have "[0x6F, 0x6B] = bytes_of ''ok''" by (simp add: bytes_of_def)
  then have "gostr [0x6F, 0x6B] = ''ok''" by simp
  ultimately show ?thesis
    using ParseClickhouse_reads_query [where rv = 54459 and params = "[]" and pkt = "[2, 0]" and
      h = "\<lparr>csType = 1, csId = [], csKind = 1, csInitial = [[], [], []], csTime = replicate 8 0,
        csClient = [[], [], []], csVersion = (24, 3), csRevision = 54460\<rparr>" and
      c = "\<lparr>cqHandler = [], cqURL = [], cqQuota = [], cqDepth = 0, cqPatch = 1, cqTrace = None,
        cqCollaborate = False, cqReplicas = (0, 0), cqScript = (0, 0), cqJWT = None, cqAgent = [],
        cqInternal = False, cqRoles = None, cqSettings = [([0x61], 1, [0x31])], cqExternalRoles = [],
        cqSecret = [], cqStage = 2, cqCompression = 1, cqText = [0x6F, 0x6B]\<rparr>"]
    by (simp add: start_ok_def query_ok_def str_ok_def u64_ok_def ch_consts trace_ok_def setting_ok_def
        isIdentByte_def chMaxQuerySize_def)
qed

text \<open>
  C23. Whatever the payload, the text reported is empty or valid UTF-8 without control characters other
  than tab and line ends, at most 1024 bytes of it, followed by the truncation mark or nothing; it is
  only non-empty when the payload is a Query packet.
\<close>

theorem ParseClickhouse_clean:
  "\<exists>b t ok. ParseClickhouse payload = (gostr b @ (if t then truncation_mark else []), ok) \<and>
     length b \<le> chMaxQuerySize \<and> utf8_valid b \<and> \<not> hasControlBytes b \<and>
     (b = [] \<and> \<not> t \<or> b \<noteq> [] \<and> ok \<and> ch_packet payload \<noteq> None)"
proof -
  consider (empty) ok where "ParseClickhouse payload = ([], ok)"
    | (shown) s where "ParseClickhouse payload = (s, True)" "ch_packet payload \<noteq> None"
        "\<exists>b t. s = gostr b @ (if t then truncation_mark else []) \<and> b \<noteq> [] \<and> length b \<le> chMaxQuerySize \<and>
           utf8_valid b \<and> \<not> hasControlBytes b"
    by (rule ParseClickhouse_cases)
  then show ?thesis
  proof cases
    case empty
    then show ?thesis
      by (intro exI [of _ "[]"] exI [of _ False] exI [of _ ok]) (simp add: hasControlBytes_def)
  next
    case shown
    then show ?thesis by blast
  qed
qed

end
