(* ===== verification/Golib.thy ===== *)
theory Golib
  imports Utf8
begin

text \<open>
  The parts of Go's standard library that several components use on strings: letter case, trimming,
  base64, the runes of a string, and the header maps of \<open>net/http\<close>. The Unicode tables that
  \<open>strings.ToLower\<close> consults for text that is not ASCII are the argument \<open>uniLower\<close>.
\<close>

section \<open>Characters\<close>

definition ord :: "char \<Rightarrow> nat" where "ord c = of_char c"

definition is_lower :: "char \<Rightarrow> bool" where "is_lower c \<longleftrightarrow> 97 \<le> ord c \<and> ord c \<le> 122"
definition is_upper :: "char \<Rightarrow> bool" where "is_upper c \<longleftrightarrow> 65 \<le> ord c \<and> ord c \<le> 90"
definition is_digit :: "char \<Rightarrow> bool" where "is_digit c \<longleftrightarrow> 48 \<le> ord c \<and> ord c \<le> 57"
definition is_alpha :: "char \<Rightarrow> bool" where "is_alpha c \<longleftrightarrow> is_lower c \<or> is_upper c"
definition is_ascii :: "char \<Rightarrow> bool" where "is_ascii c \<longleftrightarrow> ord c < 128"

definition lower_char :: "char \<Rightarrow> char" where
  "lower_char c = (if is_upper c then char_of (ord c + 32) else c)"

definition upper_char :: "char \<Rightarrow> char" where
  "upper_char c = (if is_lower c then char_of (ord c - 32) else c)"

section \<open>Strings and headers\<close>

text \<open>\<open>base64.StdEncoding.EncodeToString\<close>.\<close>

definition b64_char :: "nat \<Rightarrow> char" where
  "b64_char n =
     (if n < 26 then char_of (65 + n) else if n < 52 then char_of (71 + n)
      else if n < 62 then char_of (n - 4) else if n = 62 then CHR ''+'' else CHR ''/'')"

fun base64 :: "bytes \<Rightarrow> string" where
  "base64 (a # b # c # r) =
     (let v = unat a * 65536 + unat b * 256 + unat c in
      [b64_char (v div 262144), b64_char (v div 4096 mod 64), b64_char (v div 64 mod 64), b64_char (v mod 64)]
      @ base64 r)"
| "base64 [a, b] =
     (let v = unat a * 65536 + unat b * 256 in
      [b64_char (v div 262144), b64_char (v div 4096 mod 64), b64_char (v div 64 mod 64), CHR ''='']  )"
| "base64 [a] =
     (let v = unat a * 65536 in
      [b64_char (v div 262144), b64_char (v div 4096 mod 64), CHR ''='', CHR ''=''])"
| "base64 [] = []"

text \<open>\<open>strings.TrimSpace\<close> and \<open>strings.ToLower\<close>.\<close>

definition trim_string :: "string \<Rightarrow> string" where
  "trim_string s = gostr (TrimSpace (bytes_of s))"

definition ToLower :: "(string \<Rightarrow> string) \<Rightarrow> string \<Rightarrow> string" where
  "ToLower uniLower s = (if list_all is_ascii s then map lower_char s else uniLower s)"

text \<open>
  \<open>textproto.CanonicalMIMEHeaderKey\<close>: upper case at the start and after a hyphen, lower case elsewhere,
  unless some byte is not allowed in a field name.
\<close>

definition validHeaderFieldByte :: "char \<Rightarrow> bool" where
  "validHeaderFieldByte c \<longleftrightarrow> is_alpha c \<or> is_digit c \<or> c \<in> set ''!#$%&*+-.^_`|~'' \<or> ord c = 39"

fun canon :: "bool \<Rightarrow> string \<Rightarrow> string" where
  "canon upper [] = []"
| "canon upper (c # cs) =
     (let c' = (if upper then upper_char c else lower_char c) in c' # canon (c' = CHR ''-'') cs)"

definition CanonicalHeaderKey :: "string \<Rightarrow> string" where
  "CanonicalHeaderKey s = (if list_all validHeaderFieldByte s then canon True s else s)"

type_synonym Header = "(string \<times> string list) list"

definition header_values :: "Header \<Rightarrow> string \<Rightarrow> string list" where
  "header_values h k = (case map_of h k of None \<Rightarrow> [] | Some vs \<Rightarrow> vs)"

definition header_add :: "string \<Rightarrow> string \<Rightarrow> Header \<Rightarrow> Header" where
  "header_add key v h =
     (let k = CanonicalHeaderKey key in AList.update k (header_values h k @ [v]) h)"

definition header_get :: "Header \<Rightarrow> string \<Rightarrow> string" where
  "header_get h key = (case header_values h (CanonicalHeaderKey key) of [] \<Rightarrow> [] | v # _ \<Rightarrow> v)"

text \<open>The runes a \<open>range\<close> over a string visits.\<close>

function runes :: "bytes \<Rightarrow> nat list" where
  "runes p =
     (if p = [] then [] else fst (decode_rune p) # runes (drop (snd (decode_rune p)) p))"
  by pat_completeness auto
termination
proof (relation "measure length", goal_cases)
  case (2 p)
  then show ?case using decode_rune_size [of p "fst (decode_rune p)" "snd (decode_rune p)"] by auto
qed simp

declare runes.simps [simp del]

section \<open>Searching\<close>

text \<open>
  \<open>strings.Index\<close>, \<open>strings.LastIndex\<close>, \<open>strings.Contains\<close> and \<open>strings.TrimRight\<close> with one
  character; \<open>-1\<close> is \<open>None\<close>.
\<close>

definition occurs_at :: "'a list \<Rightarrow> 'a list \<Rightarrow> nat \<Rightarrow> bool" where
  "occurs_at sub s i = prefix sub (drop i s)"

definition str_index :: "'a list \<Rightarrow> 'a list \<Rightarrow> nat option" where
  "str_index sub s = List.find (occurs_at sub s) [0..<Suc (length s)]"

definition last_index :: "'a list \<Rightarrow> 'a list \<Rightarrow> nat option" where
  "last_index sub s = List.find (occurs_at sub s) (rev [0..<Suc (length s)])"

definition str_contains :: "'a list \<Rightarrow> 'a list \<Rightarrow> bool" where
  "str_contains sub s = (str_index sub s \<noteq> None)"

definition trim_right_char :: "'a \<Rightarrow> 'a list \<Rightarrow> 'a list" where
  "trim_right_char c s = rev (dropWhile (\<lambda>x. x = c) (rev s))"

lemma find_SomeD: "List.find P xs = Some x \<Longrightarrow> P x \<and> x \<in> set xs"
  by (induction xs) (auto split: if_splits)

lemma occurs_at_le: "occurs_at sub s i \<Longrightarrow> i \<le> length s \<Longrightarrow> i + length sub \<le> length s"
  using prefix_length_le [of sub "drop i s"] by (simp add: occurs_at_def)

lemma index_SomeD:
  "str_index sub s = Some i \<Longrightarrow> i + length sub \<le> length s \<and> occurs_at sub s i"
  "last_index sub s = Some i \<Longrightarrow> i + length sub \<le> length s \<and> occurs_at sub s i"
  unfolding str_index_def last_index_def by (force dest!: find_SomeD intro: occurs_at_le simp del: upt_Suc)+

text \<open>\<open>net.SplitHostPort\<close>: the host, \<open>None\<close> for its errors.\<close>

definition SplitHostPort :: "string \<Rightarrow> (string \<times> string) option" where
  "SplitHostPort hp =
     (case last_index '':'' hp of
        None \<Rightarrow> None
      | Some i \<Rightarrow>
          if prefix ''['' hp then
            (case str_index '']'' hp of
               None \<Rightarrow> None
             | Some e \<Rightarrow>
                 if Suc e \<noteq> i then None
                 else if CHR ''['' \<in> set (drop 1 hp) \<or> CHR '']'' \<in> set (drop (Suc e) hp) then None
                 else Some (take (e - 1) (drop 1 hp), drop (Suc i) hp))
          else if CHR '':'' \<in> set (take i hp) then None
          else if CHR ''['' \<in> set hp \<or> CHR '']'' \<in> set hp then None
          else Some (take i hp, drop (Suc i) hp))"

text \<open>A signed 64-bit integer after wrap-around.\<close>

definition wrap64 :: "int \<Rightarrow> int" where
  "wrap64 i = (i + 2 ^ 63) mod 2 ^ 64 - 2 ^ 63"

lemma wrap64_id [simp]: "- (2 ^ 63) \<le> i \<Longrightarrow> i < 2 ^ 63 \<Longrightarrow> wrap64 i = i"
  by (simp add: wrap64_def)

end
