(* ===== verification/Url.thy ===== *)
theory Url
  imports Golib
begin

text \<open>
  The parts of Go's \<open>net/url\<close> that the program uses: \<open>ParseRequestURI\<close> with the escaping of paths, and
  \<open>URL.RequestURI\<close>. The syntax of an authority, which only an absolute URI has, is the parameter
  \<open>authority_ok\<close>: the program keeps nothing of an authority but whether it parsed.
\<close>

section \<open>Escaping\<close>

definition ishex :: "char \<Rightarrow> bool" where
  "ishex c \<longleftrightarrow> is_digit c \<or> 97 \<le> ord c \<and> ord c \<le> 102 \<or> 65 \<le> ord c \<and> ord c \<le> 70"

definition unhex :: "char \<Rightarrow> nat" where
  "unhex c =
     (if is_digit c then ord c - 48
      else if 97 \<le> ord c \<and> ord c \<le> 102 then ord c - 97 + 10
      else ord c - 65 + 10)"

definition upperhex :: "nat \<Rightarrow> char" where
  "upperhex n = (if n < 10 then char_of (48 + n) else char_of (55 + n))"

text \<open>\<open>shouldEscape(c, encodePath)\<close>.\<close>

definition shouldEscape :: "char \<Rightarrow> bool" where
  "shouldEscape c \<longleftrightarrow> \<not> (is_alpha c \<or> is_digit c \<or> c \<in> set ''-_.~$&+,/:;=@'')"

fun path_escape :: "string \<Rightarrow> string" where
  "path_escape [] = []"
| "path_escape (c # cs) =
     (if shouldEscape c then CHR ''%'' # upperhex (ord c div 16) # upperhex (ord c mod 16) # path_escape cs
      else c # path_escape cs)"

fun path_unescape :: "string \<Rightarrow> string option" where
  "path_unescape [] = Some []"
| "path_unescape (c # cs) =
     (if c = CHR ''%'' then
        (case cs of
           a # b # r \<Rightarrow>
             if ishex a \<and> ishex b
             then map_option (\<lambda>t. char_of (unhex a * 16 + unhex b) # t) (path_unescape r)
             else None
         | _ \<Rightarrow> None)
      else map_option (\<lambda>t. c # t) (path_unescape cs))"

definition validEncoded :: "string \<Rightarrow> bool" where
  "validEncoded s \<longleftrightarrow>
     list_all (\<lambda>c. c \<in> set ''!$&()*+,;=:@[]%'' \<or> ord c = 39 \<or> \<not> shouldEscape c) s"

section \<open>URLs\<close>

record URL =
  Scheme :: string
  Path :: string
  RawPath :: string
  RawQuery :: string

text \<open>\<open>getScheme\<close>: the scheme and the rest; \<open>None\<close> for a missing scheme before a colon.\<close>

fun scheme_loop :: "string \<Rightarrow> string \<Rightarrow> string \<Rightarrow> (string \<times> string) option" where
  "scheme_loop raw seen [] = Some ([], raw)"
| "scheme_loop raw seen (c # cs) =
     (if is_alpha c then scheme_loop raw (seen @ [c]) cs
      else if is_digit c \<or> c \<in> set ''+-.'' then
        (if seen = [] then Some ([], raw) else scheme_loop raw (seen @ [c]) cs)
      else if c = CHR '':'' then (if seen = [] then None else Some (seen, cs))
      else Some ([], raw))"

definition getScheme :: "string \<Rightarrow> (string \<times> string) option" where
  "getScheme raw = scheme_loop raw [] raw"

definition setPath :: "string \<Rightarrow> URL \<Rightarrow> URL option" where
  "setPath p u =
     map_option (\<lambda>path. u\<lparr>Path := path, RawPath := (if p = path_escape path then [] else p)\<rparr>) (path_unescape p)"

definition split_query :: "string \<Rightarrow> string \<times> string" where
  "split_query rest =
     (if suffix ''?'' rest \<and> count_list rest (CHR ''?'') = 1 then (butlast rest, [])
      else (case bytes_cut ''?'' rest of (a, q, _) \<Rightarrow> (a, q)))"

definition ParseRequestURI :: "(string \<Rightarrow> bool) \<Rightarrow> string \<Rightarrow> URL option" where
  "ParseRequestURI authority_ok raw =
     (if list_ex (\<lambda>c. ord c < 32 \<or> ord c = 127) raw then None
      else if raw = [] then None
      else if raw = ''*'' then Some \<lparr>Scheme = [], Path = ''*'', RawPath = [], RawQuery = []\<rparr>
      else
        (case getScheme raw of
           None \<Rightarrow> None
         | Some (scheme, rest0) \<Rightarrow>
             (case split_query rest0 of (rest, query) \<Rightarrow>
                let u = \<lparr>Scheme = map lower_char scheme, Path = [], RawPath = [], RawQuery = query\<rparr> in
                if \<not> prefix ''/'' rest then (if scheme \<noteq> [] then Some u else None)
                else if scheme \<noteq> [] \<and> prefix ''//'' rest then
                  (let authority = takeWhile (\<lambda>c. c \<noteq> CHR ''/'') (drop 2 rest);
                       path = dropWhile (\<lambda>c. c \<noteq> CHR ''/'') (drop 2 rest) in
                   if authority_ok authority then setPath path u else None)
                else setPath rest u)))"

definition EscapedPath :: "URL \<Rightarrow> string" where
  "EscapedPath u =
     (if RawPath u \<noteq> [] \<and> validEncoded (RawPath u) \<and> path_unescape (RawPath u) = Some (Path u) then RawPath u
      else if Path u = ''*'' then ''*''
      else path_escape (Path u))"

text \<open>\<open>URL.RequestURI\<close> of a URL without \<open>Opaque\<close> and \<open>ForceQuery\<close>.\<close>

definition RequestURI :: "URL \<Rightarrow> string" where
  "RequestURI u =
     (let result = (if EscapedPath u = [] then ''/'' else EscapedPath u) in
      if RawQuery u \<noteq> [] then result @ ''?'' @ RawQuery u else result)"

section \<open>A request target is read back as it was sent\<close>

lemma unhex_upperhex: "n < 16 \<Longrightarrow> unhex (upperhex n) = n \<and> ishex (upperhex n)"
  by (auto simp: unhex_def upperhex_def ishex_def is_digit_def ord_def)

lemma path_unescape_escape [simp]: "path_unescape (path_escape s) = Some s"
proof (induction s)
  case (Cons c cs)
  have "ord c < 256" by (simp add: ord_def)
  then have "unhex (upperhex (ord c div 16)) = ord c div 16 \<and> ishex (upperhex (ord c div 16))"
    by (intro unhex_upperhex) simp
  moreover have "unhex (upperhex (ord c mod 16)) = ord c mod 16 \<and> ishex (upperhex (ord c mod 16))"
    by (intro unhex_upperhex) simp
  moreover have "char_of (ord c div 16 * 16 + ord c mod 16) = c" by (simp add: ord_def)
  moreover have "shouldEscape (CHR ''%'')" by (simp add: shouldEscape_def is_alpha_def is_lower_def is_upper_def is_digit_def ord_def)
  ultimately show ?case using Cons by auto
qed simp

text \<open>A target in origin form: a path of valid bytes and escapes, then a query or nothing.\<close>

definition target :: "string \<Rightarrow> string \<Rightarrow> string" where
  "target p q = (if q = [] then p else p @ ''?'' @ q)"

definition target_ok :: "string \<Rightarrow> string \<Rightarrow> bool" where
  "target_ok p q \<longleftrightarrow> prefix ''/'' p \<and> validEncoded p \<and> path_unescape p \<noteq> None \<and>
     list_all (\<lambda>c. \<not> (ord c < 32 \<or> ord c = 127)) q"

lemma EscapedPath_setPath:
  assumes "setPath p u = Some v" "validEncoded p" "prefix ''/'' p"
  shows "EscapedPath v = p"
proof -
  have "path_unescape p \<noteq> Some ''*''"
    using assms(3) by (cases p) auto
  moreover have "p \<noteq> []" using assms(3) by auto
  ultimately show ?thesis using assms
    by (auto simp: setPath_def EscapedPath_def split: if_splits)
qed

definition plain_char :: "char \<Rightarrow> bool" where
  "plain_char c \<longleftrightarrow> ord c \<noteq> 63 \<and> 32 \<le> ord c \<and> ord c \<noteq> 127"

lemma validEncoded_chars:
  assumes "validEncoded p" "c \<in> set p"
  shows "plain_char c"
proof -
  have "list_all plain_char ''!$&()*+,;=:@[]%''" "list_all plain_char ''-_.~$&+,/:;=@''"
    by (simp_all add: plain_char_def ord_def)
  moreover have "plain_char c" if "is_alpha c \<or> is_digit c \<or> ord c = 39"
    using that unfolding is_alpha_def is_lower_def is_upper_def is_digit_def plain_char_def by linarith
  ultimately show ?thesis
    using assms unfolding validEncoded_def shouldEscape_def list_all_iff by blast
qed

lemma suffix_single: "suffix [c] xs \<longleftrightarrow> xs \<noteq> [] \<and> last xs = c"
  by (cases xs rule: rev_cases) auto

lemma split_query_target:
  assumes "CHR ''?'' \<notin> set p"
  shows "split_query (target p q) = (p, q)"
proof (cases "q = []")
  case True
  have "\<not> suffix ''?'' p" using assms last_in_set by (metis suffix_single)
  with True assms show ?thesis by (simp add: split_query_def target_def cut_single_none)
next
  case False
  have "count_list q (CHR ''?'') \<noteq> 0" if "last q = CHR ''?''"
    using that last_in_set [OF False] by (simp add: count_list_0_iff)
  with False have "\<not> (suffix ''?'' (target p q) \<and> count_list (target p q) (CHR ''?'') = 1)"
    by (auto simp: suffix_single target_def)
  moreover have "bytes_cut ''?'' (target p q) = (p, q, True)"
    using False assms by (simp add: target_def cut_single)
  ultimately show ?thesis unfolding split_query_def by auto
qed

lemma getScheme_slash: "getScheme (CHR ''/'' # r) = Some ([], CHR ''/'' # r)"
  by (simp add: getScheme_def is_alpha_def is_lower_def is_upper_def is_digit_def ord_def)

lemma RequestURI_target:
  assumes "target_ok p q"
  obtains u where "ParseRequestURI ok (target p q) = Some u" "RequestURI u = target p q"
proof -
  from assms obtain r where r: "p = CHR ''/'' # r" by (auto simp: target_ok_def prefix_def)
  have chars: "plain_char c" if "c \<in> set p" for c
    using assms that validEncoded_chars [of p c] by (simp add: target_ok_def)
  have ctl: "\<not> list_ex (\<lambda>c. ord c < 32 \<or> ord c = 127) (target p q)"
  proof -
    have "\<not> (ord c < 32 \<or> ord c = 127)" if "c \<in> set (target p q)" for c
    proof (cases "c \<in> set p")
      case True
      with chars [of c] show ?thesis by (simp add: plain_char_def)
    next
      case False
      with that have "c = CHR ''?'' \<or> c \<in> set q" by (auto simp: target_def split: if_splits)
      moreover have "\<not> (ord (CHR ''?'') < 32 \<or> ord (CHR ''?'') = 127)" by (simp add: ord_def)
      ultimately show ?thesis using assms by (auto simp: target_ok_def list_all_iff)
    qed
    then show ?thesis by (simp add: list_ex_iff)
  qed
  have "target p q = CHR ''/'' # (if q = [] then r else r @ ''?'' @ q)"
    by (simp add: target_def r)
  then have t: "target p q \<noteq> []" "target p q \<noteq> ''*''" "getScheme (target p q) = Some ([], target p q)"
    by (simp_all only: getScheme_slash) simp_all
  let ?u = "\<lparr>Scheme = [], Path = [], RawPath = [], RawQuery = q\<rparr>"
  from assms obtain v where v: "setPath p ?u = Some v" by (auto simp: target_ok_def setPath_def)
  have "split_query (target p q) = (p, q)"
    using chars [of "CHR ''?''"] by (intro split_query_target) (auto simp: plain_char_def ord_def)
  then have "ParseRequestURI ok (target p q) = Some v"
    using ctl v t assms by (simp add: ParseRequestURI_def Let_def target_ok_def)
  moreover have "RawQuery v = q" using v by (auto simp: setPath_def)
  then have "RequestURI v = target p q"
    using EscapedPath_setPath [OF v] assms r by (simp add: RequestURI_def target_ok_def target_def)
  ultimately show thesis by (rule that)
qed

end
