(* ===== verification/Http.thy ===== *)
theory Http
  imports L7 Url Key_Value
begin

text \<open>
  HTTP/1 requests: \<open>ParseHttp\<close> and \<open>ParseHTTPRequest\<close> of \<open>src/ebpftracer/l7/http.go\<close>, over the
  library functions of \<open>Golib\<close> and \<open>Url\<close>. The flags \<open>SensitiveHeader\<close> and \<open>SanitizeHeaders\<close>
  are arguments, as is \<open>uniLower\<close>, the Unicode tables \<open>strings.ToLower\<close> consults for text that is not
  ASCII.
\<close>

section \<open>Requests\<close>

definition safeString :: "bytes \<Rightarrow> string" where
  "safeString data = (if \<not> utf8_valid data then ''base64:'' @ base64 data else gostr data)"

definition isValidHeaderKey :: "string \<Rightarrow> bool" where
  "isValidHeaderKey key =
     (if key = [] then False
      else if prefix ''base64:'' key then False
      else list_all (\<lambda>r. \<not> (r < 33 \<or> r > 126) \<and> \<not> (r = 58 \<or> r = 32 \<or> r = 9)) (runes (bytes_of key)))"

definition dots :: bytes where "dots = [0x2e, 0x2e, 0x2e]"

text \<open>\<open>ParseHttp\<close>: method and target.\<close>

definition ParseHttp :: "bytes \<Rightarrow> string \<times> string" where
  "ParseHttp payload =
     (case bytes_cut space payload of (method, rest, ok) \<Rightarrow>
        if \<not> ok then ([], [])
        else if \<not> isHttpMethod (safeString method) then ([], [])
        else
          (case bytes_cut space rest of (uri, _, ok) \<Rightarrow>
             (safeString method, safeString (if ok then uri else uri @ dots))))"

definition SanitizeString :: "bool \<Rightarrow> string \<Rightarrow> string" where
  "SanitizeString sanitizeHeaders val = (if \<not> sanitizeHeaders then val else replicate 5 (CHR ''*''))"

text \<open>What the loops over the headers read of the flags.\<close>

record http_flags =
  sensitiveHeader :: string
  sanitizeHeaders :: bool

definition sensitive_names :: "(string \<Rightarrow> string) \<Rightarrow> string \<Rightarrow> string list" where
  "sensitive_names uniLower flag =
     map (\<lambda>key. ToLower uniLower (trim_string key)) (bytes_split '','' flag)"

fun header_lines :: "(string \<Rightarrow> string) \<Rightarrow> http_flags \<Rightarrow> bytes list \<Rightarrow> string \<times> Header \<Rightarrow> string \<times> Header" where
  "header_lines uniLower fl [] acc = acc"
| "header_lines uniLower fl (line # lines) (host, header) =
     (if line = [] then header_lines uniLower fl lines (host, header)
      else if \<not> utf8_valid line then (host, header)
      else
        (case bytes_cut [0x3a] line of (part1, part2, ok) \<Rightarrow>
           if \<not> ok then header_lines uniLower fl lines (host, header)
           else
             (let key = trim_string (safeString part1); v = trim_string (safeString part2) in
              if \<not> isValidHeaderKey key then header_lines uniLower fl lines (host, header)
              else
                (let host1 = (if prefix ''Host'' key then v else host);
                     v1 = (if ToLower uniLower key \<in> set (sensitive_names uniLower (sensitiveHeader fl))
                           then SanitizeString (sanitizeHeaders fl) v else v) in
                 header_lines uniLower fl lines (host1, header_add key v1 header)))))"

record Request =
  reqMethod :: string
  reqURL :: URL
  reqProto :: string
  reqHost :: string
  reqHeader :: Header
  reqBody :: bytes

datatype http_error = InvalidPayload | InvalidURI

definition crlfcrlf :: bytes where "crlfcrlf = [0x0d, 0x0a, 0x0d, 0x0a]"

text \<open>The headers and the body of what follows the first line.\<close>

definition headers_and_body :: "bytes \<Rightarrow> bytes \<times> bytes" where
  "headers_and_body rest =
     (case bytes_split crlfcrlf rest of
        [] \<Rightarrow> ([], [])
      | [headers] \<Rightarrow> (headers, [])
      | headers # body # _ \<Rightarrow> (headers, body))"

definition ParseHTTPRequest ::
  "(string \<Rightarrow> bool) \<Rightarrow> (string \<Rightarrow> string) \<Rightarrow> http_flags \<Rightarrow> bytes \<Rightarrow> http_error + Request" where
  "ParseHTTPRequest authority_ok uniLower fl data =
     (case bytes_cut space data of (method, rest, ok) \<Rightarrow>
        if \<not> ok then Inl InvalidPayload
        else if \<not> isHttpMethod (safeString method) then Inl InvalidPayload
        else
          (case bytes_cut space rest of (uri, rest, ok) \<Rightarrow>
             case bytes_cut [0x0a] rest of (httpVersion, rest, _) \<Rightarrow>
               case headers_and_body rest of (headers, body) \<Rightarrow>
                 case ParseRequestURI authority_ok (safeString (if ok then uri else uri @ dots)) of
                   None \<Rightarrow> Inl InvalidURI
                 | Some u \<Rightarrow>
                     (case header_lines uniLower fl (bytes_split [0x0a] headers) ([], []) of (host, header) \<Rightarrow>
                        Inr \<lparr>reqMethod = safeString method, reqURL = u, reqProto = gostr httpVersion,
                             reqHost = host, reqHeader = header, reqBody = body\<rparr>)))"

end
