(* ===== verification/Http_Correct.thy ===== *)
theory Http_Correct
  imports Http
begin

text \<open>
  What the HTTP/1 parser promises: the values of sensitive headers never leave it, and it reads back
  every well-formed request.
\<close>

section \<open>Header names\<close>

lemma lower_upper_char: "lower_char (upper_char c) = lower_char c"
  by (auto simp: lower_char_def upper_char_def is_lower_def is_upper_def ord_def)

lemma lower_lower_char: "lower_char (lower_char c) = lower_char c"
  by (auto simp: lower_char_def is_upper_def ord_def)

lemma ascii_upper_char: "is_ascii (upper_char c) \<longleftrightarrow> is_ascii c"
  by (auto simp: is_ascii_def upper_char_def is_lower_def ord_def)

lemma ascii_lower_char: "is_ascii (lower_char c) \<longleftrightarrow> is_ascii c"
  by (auto simp: is_ascii_def lower_char_def is_upper_def ord_def)

lemma lower_canon: "map lower_char (canon up s) = map lower_char s"
  by (induction up s rule: canon.induct) (auto simp: Let_def lower_upper_char lower_lower_char)

lemma ascii_canon: "list_all is_ascii (canon up s) \<longleftrightarrow> list_all is_ascii s"
  by (induction up s rule: canon.induct) (auto simp: Let_def ascii_upper_char ascii_lower_char)

lemma CanonicalHeaderKey_lower:
  "map lower_char (CanonicalHeaderKey s) = map lower_char s"
  "list_all is_ascii (CanonicalHeaderKey s) \<longleftrightarrow> list_all is_ascii s"
  by (simp_all add: CanonicalHeaderKey_def lower_canon ascii_canon)

lemma runes_ascii: "list_all (\<lambda>r. r < 128) (runes p) \<Longrightarrow> list_all (\<lambda>b. b < 0x80) p"
proof (induction p rule: runes.induct)
  case (1 p)
  show ?case
  proof (cases "p = []")
    case False
    with "1.prems" have r: "fst (decode_rune p) < 128"
      "list_all (\<lambda>r. r < 128) (runes (drop (snd (decode_rune p)) p))"
      by (simp_all add: runes.simps [of p])
    obtain b q where p: "p = b # q" using False by (cases p) auto
    have "b < 0x80 \<and> snd (decode_rune p) = 1"
      using r(1) decode_rune_small [of b q "fst (decode_rune p)" "snd (decode_rune p)"] by (simp add: p)
    with "1.IH" [OF False r(2)] p show ?thesis by simp
  qed simp
qed

lemma isValidHeaderKey_ascii: "isValidHeaderKey key \<Longrightarrow> list_all is_ascii key"
proof -
  assume "isValidHeaderKey key"
  then have "list_all (\<lambda>r. r < 128) (runes (bytes_of key))"
    by (auto simp: isValidHeaderKey_def list_all_iff split: if_splits)
  from runes_ascii [OF this] show ?thesis
    by (auto simp: list_all_iff bytes_of_def is_ascii_def ord_def word_less_nat_alt)
qed

section \<open>Redaction\<close>

definition stars :: string where "stars = ''*****''"

definition redacted :: "string list \<Rightarrow> Header \<Rightarrow> bool" where
  "redacted names h \<longleftrightarrow>
     (\<forall>k vs. (k, vs) \<in> set h \<longrightarrow> list_all is_ascii k \<and> (map lower_char k \<in> set names \<longrightarrow> set vs \<subseteq> {stars}))"

lemma redacted_add:
  assumes "redacted names h" "list_all is_ascii key" "map lower_char key \<in> set names \<Longrightarrow> v = stars"
  shows "redacted names (header_add key v h)"
  unfolding redacted_def
proof (intro allI impI)
  fix k vs
  let ?k = "CanonicalHeaderKey key"
  assume "(k, vs) \<in> set (header_add key v h)"
  then consider "(k, vs) \<in> set h" | "k = ?k" "vs = header_values h ?k @ [v]"
    using set_update_subset [of ?k "header_values h ?k @ [v]" h] by (auto simp: header_add_def Let_def)
  then show "list_all is_ascii k \<and> (map lower_char k \<in> set names \<longrightarrow> set vs \<subseteq> {stars})"
  proof cases
    case 1
    with assms(1) show ?thesis by (simp add: redacted_def)
  next
    case 2
    have "set (header_values h ?k) \<subseteq> {stars}" if "map lower_char ?k \<in> set names"
      using assms(1) that by (cases "map_of h ?k") (auto simp: header_values_def redacted_def dest!: map_of_SomeD)
    with 2 assms(2,3) show ?thesis by (simp add: CanonicalHeaderKey_lower)
  qed
qed

lemma redacted_lines:
  assumes "sanitizeHeaders fl" "redacted (sensitive_names uniLower (sensitiveHeader fl)) header"
  shows "redacted (sensitive_names uniLower (sensitiveHeader fl))
    (snd (header_lines uniLower fl lines (host, header)))"
  using assms(2)
proof (induction lines arbitrary: host header)
  case Nil
  then show ?case by simp
next
  case (Cons line lines)
  let ?names = "sensitive_names uniLower (sensitiveHeader fl)"
  have add: "redacted ?names (header_add key (if ToLower uniLower key \<in> set ?names
      then SanitizeString (sanitizeHeaders fl) v else v) header)" if "isValidHeaderKey key" for key v
    using Cons.prems assms(1) isValidHeaderKey_ascii [OF that]
    by (intro redacted_add) (auto simp: ToLower_def SanitizeString_def stars_def eval_nat_numeral)
  obtain a b ok where cut: "bytes_cut [0x3a] line = (a, b, ok)" by (rule prod_cases3)
  show ?case
    using Cons.IH [OF Cons.prems, of host] Cons.prems
      Cons.IH [OF add [of "trim_string (safeString a)" "trim_string (safeString b)"]]
    unfolding header_lines.simps cut Let_def prod.case
    by (simp split del: if_split split: if_split)
qed

section \<open>Well-formed requests\<close>

text \<open>Names of printable characters without a colon, values of printable text without outer spaces.\<close>

definition name_ok :: "string \<Rightarrow> bool" where
  "name_ok n \<longleftrightarrow> n \<noteq> [] \<and> \<not> prefix ''base64:'' n \<and> list_all (\<lambda>c. 33 \<le> ord c \<and> ord c \<le> 126 \<and> ord c \<noteq> 58) n"

definition value_ok :: "string \<Rightarrow> bool" where
  "value_ok v \<longleftrightarrow> list_all (\<lambda>c. 32 \<le> ord c \<and> ord c \<le> 126) v \<and> (v \<noteq> [] \<longrightarrow> ord (hd v) \<noteq> 32 \<and> ord (last v) \<noteq> 32)"

definition enc_header :: "bytes \<Rightarrow> string \<times> string \<Rightarrow> bytes" where
  "enc_header eol h = bytes_of (fst h) @ [0x3a, 0x20] @ bytes_of (snd h) @ eol"

text \<open>The header block without its final line end: all lines but the last end in CR LF.\<close>

definition enc_lines :: "(string \<times> string) list \<Rightarrow> bytes list" where
  "enc_lines hs = map (enc_header [0x0d]) (butlast hs) @ [enc_header [] (last hs)]"

definition enc_headers :: "(string \<times> string) list \<Rightarrow> bytes" where
  "enc_headers hs = concat (map (\<lambda>l. l @ [0x0a]) (butlast (enc_lines hs))) @ last (enc_lines hs)"

definition enc_request :: "string \<Rightarrow> string \<Rightarrow> string \<Rightarrow> (string \<times> string) list \<Rightarrow> bytes \<Rightarrow> bytes" where
  "enc_request method t version hs body =
     bytes_of method @ space @ bytes_of t @ space @ bytes_of version @ crlf @ enc_headers hs @ crlfcrlf @ body"

definition redact :: "(string \<Rightarrow> string) \<Rightarrow> http_flags \<Rightarrow> string \<Rightarrow> string \<Rightarrow> string" where
  "redact uniLower fl n v =
     (if ToLower uniLower n \<in> set (sensitive_names uniLower (sensitiveHeader fl))
      then SanitizeString (sanitizeHeaders fl) v else v)"

definition headers_of :: "(string \<Rightarrow> string) \<Rightarrow> http_flags \<Rightarrow> (string \<times> string) list \<Rightarrow> Header \<Rightarrow> Header" where
  "headers_of uniLower fl hs h = fold (\<lambda>(n, v). header_add n (redact uniLower fl n v)) hs h"

lemma bytes_of_ascii: "list_all (\<lambda>c. ord c < 128) s \<Longrightarrow> list_all (\<lambda>b. b < 0x80) (bytes_of s)"
  by (auto simp: list_all_iff bytes_of_def ord_def word_less_nat_alt)

lemma safeString_ascii: "list_all (\<lambda>c. ord c < 128) s \<Longrightarrow> safeString (bytes_of s) = s"
  by (simp add: safeString_def all_ascii_valid bytes_of_ascii)

lemma mem_bytes_of: "(b :: u8) \<in> set (bytes_of s) \<longleftrightarrow> (\<exists>c \<in> set s. unat b = ord c)"
proof -
  have "of_nat (of_char c) = b \<longleftrightarrow> unat b = ord c" for c
  proof
    assume "of_nat (of_char c) = b"
    then have "unat b = of_char c mod 256" by (metis unat_of_nat_u8)
    then show "unat b = ord c" by (simp add: ord_def)
  next
    assume "unat b = ord c"
    then have "of_nat (of_char c) = (of_nat (unat b) :: u8)" by (simp add: ord_def)
    then show "of_nat (of_char c) = b" by simp
  qed
  then show ?thesis unfolding bytes_of_def set_map image_iff by metis
qed

lemma runes_of_ascii: "list_all (\<lambda>b. b < 0x80) p \<Longrightarrow> runes p = map unat p"
  by (induction p) (simp_all add: runes.simps decode_rune_ascii)

lemma trim_left_space [simp]: "trim_left (0x20 # p) = trim_left p"
  by (subst trim_left.simps) (simp add: decode_rune_ascii IsSpace_def)

lemma trim_right_cr [simp]: "trim_right (p @ [0x0d]) = trim_right p"
  by (subst trim_right.simps) (simp add: decode_last_rune_def IsSpace_def)

lemma name_ok_valid: "name_ok n \<Longrightarrow> isValidHeaderKey n"
proof -
  assume n: "name_ok n"
  then have "list_all (\<lambda>c. ord c < 128) n" by (auto simp: name_ok_def list_all_iff)
  from runes_of_ascii [OF bytes_of_ascii [OF this]]
  have "runes (bytes_of n) = map ord n" by (simp add: bytes_of_def ord_def comp_def)
  with n show ?thesis by (auto simp: isValidHeaderKey_def name_ok_def list_all_iff)
qed

lemma edge_bytes:
  assumes "s \<noteq> []" "33 \<le> ord (hd s) \<and> ord (hd s) \<le> 126" "33 \<le> ord (last s) \<and> ord (last s) \<le> 126"
  shows "hd (bytes_of s) < 0x80" "\<not> IsSpace (unat (hd (bytes_of s)))"
    "last (bytes_of s) < 0x80" "\<not> IsSpace (unat (last (bytes_of s)))"
proof -
  have b: "hd (bytes_of s) = of_nat (ord (hd s))" "last (bytes_of s) = of_nat (ord (last s))"
    using assms(1) by (simp_all add: bytes_of_def ord_def hd_map last_map)
  show "hd (bytes_of s) < 0x80" "\<not> IsSpace (unat (hd (bytes_of s)))"
    "last (bytes_of s) < 0x80" "\<not> IsSpace (unat (last (bytes_of s)))"
    unfolding b using assms(2,3) by (auto simp: word_less_nat_alt IsSpace_def)
qed

lemma TrimSpace_value:
  assumes "value_ok v" "eol = [] \<or> eol = [0x0d]"
  shows "TrimSpace (0x20 # bytes_of v @ eol) = bytes_of v"
proof (cases "v = []")
  case True
  have "trim_left [0x0d] = []"
    by (subst trim_left.simps, subst trim_left.simps) (simp add: decode_rune_ascii IsSpace_def)
  moreover have "trim_left [] = []" "trim_right [] = []"
    by (simp_all add: trim_left.simps trim_right.simps)
  ultimately show ?thesis using True assms(2) by (auto simp: TrimSpace_def)
next
  case False
  let ?b = "bytes_of v"
  have ne: "?b \<noteq> []" using False by (simp add: bytes_of_def)
  have "32 \<le> ord c \<and> ord c \<le> 126" if "c \<in> set v" for c
    using assms(1) that by (simp add: value_ok_def list_all_iff)
  from this [OF hd_in_set [OF False]] this [OF last_in_set [OF False]] assms(1) False
  have "33 \<le> ord (hd v) \<and> ord (hd v) \<le> 126" "33 \<le> ord (last v) \<and> ord (last v) \<le> 126"
    by (auto simp: value_ok_def)
  note edge_bytes [OF False this]
  then have "trim_left (?b @ eol) = ?b @ eol" "trim_right ?b = ?b"
    using ne by (auto intro: trim_left_id trim_right_id)
  then show ?thesis using assms(2) by (auto simp: TrimSpace_def)
qed

definition header_ok :: "string \<times> string \<Rightarrow> bool" where
  "header_ok h \<longleftrightarrow> name_ok (fst h) \<and> value_ok (snd h)"

lemma printable_ascii: "name_ok n \<Longrightarrow> list_all (\<lambda>c. ord c < 128) n" "value_ok v \<Longrightarrow> list_all (\<lambda>c. ord c < 128) v"
  by (auto simp: name_ok_def value_ok_def list_all_iff)

lemma name_trimmed: "name_ok n \<Longrightarrow> trim_string n = n"
proof -
  assume n: "name_ok n"
  then have ne: "n \<noteq> []" by (simp add: name_ok_def)
  have "33 \<le> ord (hd n) \<and> ord (hd n) \<le> 126" "33 \<le> ord (last n) \<and> ord (last n) \<le> 126"
    using n hd_in_set [OF ne] last_in_set [OF ne] by (auto simp: name_ok_def list_all_iff)
  note edge_bytes [OF ne this]
  then have "TrimSpace (bytes_of n) = bytes_of n"
    using ne by (intro TrimSpace_id) (auto simp: bytes_of_def)
  then show ?thesis by (simp add: trim_string_def)
qed

lemma header_line_enc:
  assumes "header_ok h" "eol = [] \<or> eol = [0x0d]"
  shows "header_lines uniLower fl (enc_header eol h # lines) (host, header) =
    header_lines uniLower fl lines (if prefix ''Host'' (fst h) then snd h else host,
      header_add (fst h) (redact uniLower fl (fst h) (snd h)) header)"
proof -
  obtain n v where h: "h = (n, v)" by (rule prod.exhaust)
  with assms have n: "name_ok n" and v: "value_ok v" by (simp_all add: header_ok_def)
  let ?p2 = "0x20 # bytes_of v @ eol"
  have line: "enc_header eol h = bytes_of n @ 0x3a # ?p2" by (simp add: enc_header_def h)
  have "0x3a \<notin> set (bytes_of n)"
    using n by (auto simp: mem_bytes_of name_ok_def list_all_iff)
  then have cut: "bytes_cut [0x3a] (enc_header eol h) = (bytes_of n, ?p2, True)"
    unfolding line by (rule cut_single)
  have asc: "list_all (\<lambda>b. b < 0x80) ?p2"
    using bytes_of_ascii [OF printable_ascii(2) [OF v]] assms(2) by auto
  then have "utf8_valid (enc_header eol h)"
    using bytes_of_ascii [OF printable_ascii(1) [OF n]] by (intro all_ascii_valid) (simp add: line)
  moreover have "trim_string (safeString (bytes_of n)) = n"
    using n by (simp add: safeString_ascii printable_ascii name_trimmed)
  moreover have "trim_string (safeString ?p2) = v"
    using asc TrimSpace_value [OF v assms(2)] by (simp add: safeString_def all_ascii_valid trim_string_def)
  moreover have "enc_header eol h \<noteq> []" by (simp add: enc_header_def)
  ultimately show ?thesis
    using cut name_ok_valid [OF n] by (simp add: h redact_def Let_def)
qed

definition host_of :: "(string \<times> string) list \<Rightarrow> string \<Rightarrow> string" where
  "host_of hs host = fold (\<lambda>(n, v) host. if prefix ''Host'' n then v else host) hs host"

lemma header_lines_enc:
  assumes "list_all header_ok hs" "eol = [] \<or> eol = [0x0d]"
  shows "header_lines uniLower fl (map (enc_header eol) hs @ lines) (host, header) =
    header_lines uniLower fl lines (host_of hs host, headers_of uniLower fl hs header)"
  using assms(1)
proof (induction hs arbitrary: host header)
  case (Cons h hs)
  then show ?case
    using header_line_enc [OF _ assms(2)] by (cases h) (simp add: host_of_def headers_of_def)
qed (simp add: host_of_def headers_of_def)

lemma header_lines_all:
  assumes "list_all header_ok hs" "hs \<noteq> []"
  shows "header_lines uniLower fl (enc_lines hs) ([], []) = (host_of hs [], headers_of uniLower fl hs [])"
proof -
  have ok: "list_all header_ok (butlast hs)" "list_all header_ok [last hs]"
    using assms by (auto simp: list_all_iff dest: in_set_butlastD)
  have hs: "hs = butlast hs @ [last hs]" using assms(2) by simp
  have "header_lines uniLower fl (enc_lines hs) ([], []) =
    (host_of [last hs] (host_of (butlast hs) []), headers_of uniLower fl [last hs] (headers_of uniLower fl (butlast hs) []))"
    using header_lines_enc [OF ok(1), of "[0x0d]" uniLower fl "[enc_header [] (last hs)]"]
      header_lines_enc [OF ok(2), of "[]" uniLower fl "[]"]
    by (simp add: enc_lines_def)
  also have "\<dots> = (host_of hs [], headers_of uniLower fl hs [])"
    by (subst (5 6) hs) (simp add: host_of_def headers_of_def)
  finally show ?thesis .
qed

lemma cut_pass:
  "0x0d \<notin> set x \<Longrightarrow> bytes_cut crlfcrlf (x @ y) = (case bytes_cut crlfcrlf y of (a, r, ok) \<Rightarrow> (x @ a, r, ok))"
  by (induction x) (auto simp: crlfcrlf_def split: prod.splits)

lemma cut_pass_eol:
  "c \<noteq> 0x0d \<Longrightarrow> bytes_cut crlfcrlf (0x0d # 0x0a # c # y) =
     (case bytes_cut crlfcrlf (c # y) of (a, r, ok) \<Rightarrow> (0x0d # 0x0a # a, r, ok))"
  by (auto simp: crlfcrlf_def split: prod.splits)

lemma enc_headers_single: "enc_headers [h] = enc_header [] h"
  by (simp add: enc_headers_def enc_lines_def)

lemma enc_headers_Cons:
  "enc_headers (h # h' # hs) = enc_header [] h @ [0x0d, 0x0a] @ enc_headers (h' # hs)"
  by (simp add: enc_headers_def enc_lines_def enc_header_def butlast_append)

lemma enc_header_no_cr: "header_ok h \<Longrightarrow> 0x0d \<notin> set (enc_header [] h)"
  by (auto simp: enc_header_def header_ok_def name_ok_def value_ok_def mem_bytes_of list_all_iff)

lemma enc_header_first: "header_ok h \<Longrightarrow> \<exists>c y. enc_header [] h = c # y \<and> c \<noteq> 0x0d"
proof -
  assume h: "header_ok h"
  obtain c y where "enc_header [] h = c # y"
    by (metis enc_header_def append_Cons append_Nil list.distinct(1) neq_Nil_conv append_is_Nil_conv)
  with enc_header_no_cr [OF h] show ?thesis by auto
qed

lemma cut_headers:
  assumes "list_all header_ok hs" "hs \<noteq> []"
  shows "bytes_cut crlfcrlf (enc_headers hs @ crlfcrlf @ body) = (enc_headers hs, body, True)"
  using assms
proof (induction hs rule: induct_list012)
  case (2 h)
  have "bytes_cut crlfcrlf (crlfcrlf @ body) = ([], body, True)" by (simp add: crlfcrlf_def)
  with 2 cut_pass [OF enc_header_no_cr] show ?case by (simp add: enc_headers_single)
next
  case (3 h h' hs)
  obtain c y where c: "enc_headers (h' # hs) @ crlfcrlf @ body = c # y" "c \<noteq> 0x0d"
    using enc_header_first [of h'] 3(3) by (cases hs) (auto simp: enc_headers_single enc_headers_Cons)
  have "bytes_cut crlfcrlf (0x0d # 0x0a # c # y) = (0x0d # 0x0a # enc_headers (h' # hs), body, True)"
    using 3(2,3) c by (simp add: cut_pass_eol del: bytes_cut.simps)
  with cut_pass [OF enc_header_no_cr, of h "0x0d # 0x0a # c # y"] 3(3) c(1) show ?case
    by (simp add: enc_headers_Cons del: bytes_cut.simps)
qed simp

lemma headers_and_body_enc:
  assumes "list_all header_ok hs" "hs \<noteq> []"
  shows "headers_and_body (enc_headers hs @ crlfcrlf @ body) = (enc_headers hs, fst (bytes_cut crlfcrlf body))"
proof -
  obtain a r ok where b: "bytes_cut crlfcrlf body = (a, r, ok)" by (rule prod_cases3)
  have "crlfcrlf \<noteq> []" by (simp add: crlfcrlf_def)
  with cut_headers [OF assms] b show ?thesis
    by (simp add: headers_and_body_def bytes_split.simps [of crlfcrlf "enc_headers hs @ crlfcrlf @ body"]
        bytes_split.simps [of crlfcrlf body])
qed

lemma split_lines:
  assumes "list_all header_ok hs" "hs \<noteq> []"
  shows "bytes_split [0x0a] (enc_headers hs) = enc_lines hs"
proof -
  have "0x0a \<notin> set l" if "l \<in> set (enc_lines hs)" for l
  proof -
    have *: "0x0a \<notin> set (enc_header eol h)" if "header_ok h" "eol = [] \<or> eol = [0x0d]" for eol h
      using that by (auto simp: enc_header_def header_ok_def name_ok_def value_ok_def mem_bytes_of list_all_iff)
    from that consider "l = enc_header [] (last hs)" | h where "h \<in> set hs" "l = enc_header [0x0d] h"
      by (auto simp: enc_lines_def dest: in_set_butlastD)
    then show ?thesis
    proof cases
      case 1
      with * [of "last hs" "[]"] assms last_in_set [OF assms(2)] show ?thesis by (simp add: list_all_iff)
    next
      case 2
      with * [of h "[0x0d]"] assms show ?thesis by (simp add: list_all_iff)
    qed
  qed
  then show ?thesis unfolding enc_headers_def by (intro split_join) (auto simp: enc_lines_def)
qed

lemma isHttpMethod_plain:
  assumes "isHttpMethod m"
  shows "0x20 \<notin> set (bytes_of m)" "list_all (\<lambda>c. ord c < 128) m"
  using assms by (auto simp: isHttpMethod_def bytes_of_def ord_def)

lemma ParseHTTPRequest_enc:
  assumes "isHttpMethod m" "target_ok p q" "list_all (\<lambda>c. 33 \<le> ord c \<and> ord c \<le> 126) (target p q)"
    "list_all (\<lambda>c. ord c \<noteq> 10) version" "list_all header_ok hs" "hs \<noteq> []"
  shows "\<exists>u. ParseHTTPRequest authority_ok uniLower fl (enc_request m (target p q) version hs body) =
      Inr \<lparr>reqMethod = m, reqURL = u, reqProto = version @ [CHR 0x0D], reqHost = host_of hs [],
           reqHeader = headers_of uniLower fl hs [], reqBody = fst (bytes_cut crlfcrlf body)\<rparr> \<and>
    RequestURI u = target p q"
proof -
  let ?t = "target p q"
  have t: "0x20 \<notin> set (bytes_of ?t)" "list_all (\<lambda>c. ord c < 128) ?t"
    using assms(3) by (auto simp: mem_bytes_of list_all_iff)
  have v: "0x0a \<notin> set (bytes_of version @ [0x0d])"
    using assms(4) by (auto simp: mem_bytes_of list_all_iff)
  obtain u where u: "ParseRequestURI authority_ok ?t = Some u" "RequestURI u = ?t"
    using RequestURI_target [OF assms(2)] by blast
  let ?rest = "enc_headers hs @ crlfcrlf @ body"
  have "bytes_cut space (enc_request m ?t version hs body) =
      (bytes_of m, bytes_of ?t @ space @ bytes_of version @ crlf @ ?rest, True)"
    using cut_single [OF isHttpMethod_plain(1) [OF assms(1)]] by (simp add: enc_request_def space_def)
  moreover have "bytes_cut space (bytes_of ?t @ space @ bytes_of version @ crlf @ ?rest) =
      (bytes_of ?t, bytes_of version @ crlf @ ?rest, True)"
    using cut_single [OF t(1)] by (simp add: space_def)
  moreover have "bytes_cut [0x0a] (bytes_of version @ crlf @ ?rest) = (bytes_of version @ [0x0d], ?rest, True)"
    using cut_single [OF v] by (simp add: crlf_def)
  moreover have "gostr (bytes_of version @ [0x0d]) = version @ [CHR 0x0D]"
  proof -
    have "[0x0d] = bytes_of [CHR 0x0D]" by (simp add: bytes_of_def)
    then show ?thesis by (metis gostr_append gostr_bytes_of)
  qed
  ultimately show ?thesis
    using assms(1) u t(2) isHttpMethod_plain(2) [OF assms(1)]
    by (auto simp: ParseHTTPRequest_def safeString_ascii headers_and_body_enc [OF assms(5,6)]
        split_lines [OF assms(5,6)] header_lines_all [OF assms(5,6)] simp del: gostr_append)
qed


lemma auth_canonical: "CanonicalHeaderKey ''authorization'' = ''Authorization''"
  by (simp add: CanonicalHeaderKey_def validHeaderFieldByte_def is_alpha_def is_lower_def is_upper_def
      upper_char_def lower_char_def ord_def char_of_def Let_def bit_0)

lemma auth_sensitive: "ToLower id ''Authorization'' \<in> set (sensitive_names id ''Authorization'')"
proof -
  have "bytes_split '','' ''Authorization'' = [''Authorization'']"
    by (subst bytes_split.simps) simp
  moreover have "trim_string ''Authorization'' = ''Authorization''"
    by (rule name_trimmed) (simp add: name_ok_def ord_def)
  ultimately show ?thesis by (simp add: sensitive_names_def)
qed

section \<open>Properties\<close>

text \<open>
  C24. With sanitizing on, every value of every header whose name, in any letter case, is on the
  operator's list of sensitive headers is replaced by stars, whatever the payload: repeated headers,
  odd spellings, binary data and cut requests included.
\<close>

theorem ParseHTTPRequest_redacts:
  assumes "ParseHTTPRequest authority_ok uniLower fl data = Inr req" "sanitizeHeaders fl"
    "(k, vs) \<in> set (reqHeader req)"
    "ToLower uniLower k \<in> set (sensitive_names uniLower (sensitiveHeader fl))"
  shows "list_all (\<lambda>v. v = ''*****'') vs"
proof -
  from assms(1) obtain host lines where "header_lines uniLower fl lines ([], []) = (host, reqHeader req)"
    by (auto simp: ParseHTTPRequest_def Let_def split: prod.splits if_splits option.splits)
  with redacted_lines [OF assms(2), where header = "[]" and host = "[]" and lines = lines and uniLower = uniLower] assms(3,4) show ?thesis
    by (auto simp: redacted_def list_all_iff ToLower_def stars_def split: if_splits)
qed

theorem ParseHTTPRequest_redacts_witness:
  "\<exists>req vs. ParseHTTPRequest (\<lambda>a. True) id \<lparr>sensitiveHeader = ''Authorization'', sanitizeHeaders = True\<rparr>
      (enc_request ''GET'' (target ''/a'' []) ''HTTP/1.1'' [(''authorization'', ''Bearer x'')] []) = Inr req \<and>
    (''Authorization'', vs) \<in> set (reqHeader req) \<and> list_all (\<lambda>v. v = ''*****'') vs"
proof -
  let ?fl = "\<lparr>sensitiveHeader = ''Authorization'', sanitizeHeaders = True\<rparr>"
  let ?hs = "[(''authorization'', ''Bearer x'')]"
  have hs: "list_all header_ok ?hs"
    by (simp add: header_ok_def name_ok_def value_ok_def ord_def)
  have tgt: "target_ok ''/a'' []" "list_all (\<lambda>c. 33 \<le> ord c \<and> ord c \<le> 126) (target ''/a'' [])"
    by (simp_all add: target_ok_def target_def validEncoded_def shouldEscape_def is_alpha_def is_lower_def
        is_upper_def is_digit_def ord_def)
  obtain req where req: "ParseHTTPRequest (\<lambda>a. True) id ?fl
      (enc_request ''GET'' (target ''/a'' []) ''HTTP/1.1'' ?hs []) = Inr req"
    "reqHeader req = headers_of id ?fl ?hs []"
  proof -
    have "isHttpMethod ''GET''" "list_all (\<lambda>c. ord c \<noteq> 10) ''HTTP/1.1''" "?hs \<noteq> []"
      by (simp_all add: isHttpMethod_def ord_def)
    from ParseHTTPRequest_enc [OF this(1) tgt this(2) hs this(3), of "\<lambda>a. True" id ?fl "[]"]
    show thesis using that by fastforce
  qed
  have "(''Authorization'', [redact id ?fl ''authorization'' ''Bearer x'']) \<in> set (reqHeader req)"
    unfolding req(2) by (simp add: headers_of_def header_add_def header_values_def Let_def auth_canonical)
  moreover have "ToLower id ''Authorization'' \<in> set (sensitive_names id (sensitiveHeader ?fl))"
    using auth_sensitive by simp
  ultimately show ?thesis
    using ParseHTTPRequest_redacts [OF req(1), of "''Authorization''"] req(1) by auto
qed

text \<open>
  C25. A well-formed request is read back: its method, a URL whose request URI is the target as it was
  sent, the headers under their canonical names with the sensitive ones redacted, and the body up to
  its first blank line.
\<close>

theorem ParseHTTPRequest_round_trip:
  assumes "isHttpMethod m" "target_ok p q" "list_all (\<lambda>c. 33 \<le> ord c \<and> ord c \<le> 126) (target p q)"
    "list_all (\<lambda>c. ord c \<noteq> 10) version" "list_all header_ok hs" "hs \<noteq> []"
  shows "\<exists>u. ParseHTTPRequest authority_ok uniLower fl (enc_request m (target p q) version hs body) =
      Inr \<lparr>reqMethod = m, reqURL = u, reqProto = version @ [CHR 0x0D], reqHost = host_of hs [],
           reqHeader = headers_of uniLower fl hs [], reqBody = fst (bytes_cut crlfcrlf body)\<rparr> \<and>
    RequestURI u = target p q"
  using assms by (rule ParseHTTPRequest_enc)

theorem ParseHTTPRequest_round_trip_witness:
  "\<exists>u. ParseHTTPRequest (\<lambda>a. True) id \<lparr>sensitiveHeader = [], sanitizeHeaders = True\<rparr>
      (enc_request ''GET'' (target ''/a'' ''x=1'') ''HTTP/1.1'' [(''Host'', ''h.io'')] [1, 2]) =
      Inr \<lparr>reqMethod = ''GET'', reqURL = u, reqProto = ''HTTP/1.1'' @ [CHR 0x0D], reqHost = host_of [(''Host'', ''h.io'')] [],
           reqHeader = headers_of id \<lparr>sensitiveHeader = [], sanitizeHeaders = True\<rparr> [(''Host'', ''h.io'')] [],
           reqBody = fst (bytes_cut crlfcrlf [1, 2])\<rparr> \<and>
    RequestURI u = target ''/a'' ''x=1''"
  by (rule ParseHTTPRequest_round_trip)
     (simp_all add: isHttpMethod_def target_ok_def target_def validEncoded_def shouldEscape_def is_alpha_def
        is_lower_def is_upper_def is_digit_def header_ok_def name_ok_def value_ok_def ord_def)

end
