(* ===== verification/Llm_Stream.thy ===== *)
theory Llm_Stream
  imports Prelude
begin

text \<open>
  One direction of a captured connection, \<open>src/llm/stream.go\<close>: the capture writes chunks, a parser
  goroutine reads bytes, and byte offsets map back to the kernel's timestamps. Every operation holds
  the mutex, so an execution is a sequence of operations; \<open>Read\<close> waiting on the condition variable is
  the outcome \<open>Blocks\<close>, which leaves the stream as it is.
\<close>

record mark =
  moff :: u64
  mts :: u64

record stream =
  pending :: "bytes list"
  buffered :: nat
  limit :: nat
  readOff :: u64
  writeOff :: u64
  closed :: bool
  overflow :: bool
  marks :: "mark list"

definition maxMarks :: nat where "maxMarks = 4096"

definition newStream :: "nat \<Rightarrow> stream" where
  "newStream lim = \<lparr>pending = [], buffered = 0, limit = lim, readOff = 0, writeOff = 0, closed = False,
     overflow = False, marks = []\<rparr>"

definition stream_write :: "bytes \<Rightarrow> u64 \<Rightarrow> stream \<Rightarrow> bool \<times> stream" where
  "stream_write data ts s =
     (if data = [] then (True, s)
      else if closed s then (False, s)
      else if buffered s + length data > limit s then (False, s\<lparr>overflow := True, closed := True\<rparr>)
      else
        (let kept = (if length (marks s) \<ge> maxMarks then drop (maxMarks div 2) (marks s) else marks s) in
         (True, s\<lparr>pending := pending s @ [data], buffered := buffered s + length data,
                  marks := kept @ [\<lparr>moff = writeOff s, mts = ts\<rparr>],
                  writeOff := writeOff s + of_nat (length data)\<rparr>)))"

datatype read_result = Blocks | EndOfFile | Got bytes

text \<open>\<open>Read\<close> into a slice of \<open>n\<close> bytes.\<close>

definition stream_Read :: "nat \<Rightarrow> stream \<Rightarrow> read_result \<times> stream" where
  "stream_Read n s =
     (case pending s of
        [] \<Rightarrow> (if closed s then EndOfFile else Blocks, s)
      | c # cs \<Rightarrow>
          (let b = take n c in
           (Got b, s\<lparr>pending := (if length b = length c then cs else drop (length b) c # cs),
                     buffered := buffered s - length b, readOff := readOff s + of_nat (length b)\<rparr>)))"

definition stream_close :: "stream \<Rightarrow> stream" where
  "stream_close s = s\<lparr>closed := True\<rparr>"

definition stream_offset :: "stream \<Rightarrow> u64" where
  "stream_offset s = readOff s"

text \<open>\<open>consumed\<close>, given what the buffered reader over the stream still holds.\<close>

definition stream_consumed :: "nat \<Rightarrow> stream \<Rightarrow> u64" where
  "stream_consumed held s = stream_offset s - of_nat held"

text \<open>Go's \<open>sort.Search\<close>: the loop keeps \<open>f(i-1) == false\<close> and \<open>f(j) == true\<close>.\<close>

function search_loop :: "(nat \<Rightarrow> bool) \<Rightarrow> nat \<Rightarrow> nat \<Rightarrow> nat" where
  "search_loop f i j =
     (if i < j then
        (let h = (i + j) div 2 in if \<not> f h then search_loop f (Suc h) j else search_loop f i h)
      else i)"
  by pat_completeness auto
termination by (relation "measure (\<lambda>(f, i, j). j - i)") auto

declare search_loop.simps [simp del]

definition sort_Search :: "nat \<Rightarrow> (nat \<Rightarrow> bool) \<Rightarrow> nat" where
  "sort_Search n f = search_loop f 0 n"

definition tsAt :: "u64 \<Rightarrow> stream \<Rightarrow> u64" where
  "tsAt off s =
     (if marks s = [] then 0
      else
        (let i = sort_Search (length (marks s)) (\<lambda>i. moff (marks s ! i) > off) in
         if i = 0 then mts (marks s ! 0) else mts (marks s ! (i - 1))))"

section \<open>The contract of a byte queue\<close>

text \<open>
  What the parsers rely on: a stream is a queue of bytes. An accepted chunk is appended, a read takes
  a prefix of what is held, and a refused or waiting operation changes nothing.
\<close>

datatype 'd queue_op = Put 'd | Get nat | Shut

locale byte_queue =
  fixes wf :: "'s \<Rightarrow> bool"
    and held :: "'s \<Rightarrow> bytes"
    and chunk :: "'d \<Rightarrow> bytes"
    and put :: "'d \<Rightarrow> 's \<Rightarrow> bool \<times> 's"
    and get :: "nat \<Rightarrow> 's \<Rightarrow> read_result \<times> 's"
    and shut :: "'s \<Rightarrow> 's"
  assumes put_wf: "wf s \<Longrightarrow> wf (snd (put d s))"
    and put_held: "wf s \<Longrightarrow> held (snd (put d s)) = (if fst (put d s) then held s @ chunk d else held s)"
    and get_wf: "wf s \<Longrightarrow> wf (snd (get n s))"
    and get_held: "wf s \<Longrightarrow> held s = (case fst (get n s) of Got b \<Rightarrow> b | _ \<Rightarrow> []) @ held (snd (get n s))"
    and get_progress: "wf s \<Longrightarrow> fst (get n s) = Got b \<Longrightarrow> 0 < n \<Longrightarrow> b \<noteq> []"
    and get_waits: "wf s \<Longrightarrow> fst (get n s) \<in> {Blocks, EndOfFile} \<longleftrightarrow> held s = []"
    and shut_wf: "wf s \<Longrightarrow> wf (shut s)"
    and shut_held: "wf s \<Longrightarrow> held (shut s) = held s"
begin

text \<open>An execution, with the bytes accepted and the bytes delivered so far.\<close>

fun exec :: "'d queue_op list \<Rightarrow> bytes \<times> bytes \<times> 's \<Rightarrow> bytes \<times> bytes \<times> 's" where
  "exec [] st = st"
| "exec (Put d # ops) (given, taken, s) =
     exec ops (if fst (put d s) then given @ chunk d else given, taken, snd (put d s))"
| "exec (Get n # ops) (given, taken, s) =
     exec ops (given, taken @ (case fst (get n s) of Got b \<Rightarrow> b | _ \<Rightarrow> []), snd (get n s))"
| "exec (Shut # ops) (given, taken, s) = exec ops (given, taken, shut s)"

lemma exec_fifo:
  "exec ops (given, taken, s) = (given', taken', s') \<Longrightarrow> wf s \<Longrightarrow> given = taken @ held s \<Longrightarrow>
     wf s' \<and> given' = taken' @ held s'"
proof (induction ops arbitrary: given taken s)
  case (Cons e ops)
  show ?case
  proof (cases e)
    case (Put d)
    with Cons.prems Cons.IH [of "if fst (put d s) then given @ chunk d else given" taken "snd (put d s)"]
    show ?thesis by (auto simp: put_wf put_held split: if_splits)
  next
    case (Get n)
    with Cons.prems get_held [of s n]
      Cons.IH [of given "taken @ (case fst (get n s) of Got b \<Rightarrow> b | _ \<Rightarrow> [])" "snd (get n s)"]
    show ?thesis by (auto simp: get_wf)
  next
    case Shut
    with Cons.prems Cons.IH [of given taken "shut s"] show ?thesis by (auto simp: shut_wf shut_held)
  qed
qed simp

text \<open>A reader that waits, or is told the end, has been given everything accepted.\<close>

lemma exec_drained:
  assumes "exec ops (given, taken, s) = (given', taken', s')" "wf s" "given = taken @ held s"
    "fst (get n s') \<in> {Blocks, EndOfFile}"
  shows "taken' = given'"
  using exec_fifo [OF assms(1-3)] get_waits [of s' n] assms(4) by simp

end

definition stream_ok :: "nat \<Rightarrow> stream \<Rightarrow> bool" where
  "stream_ok lim s \<longleftrightarrow>
     [] \<notin> set (pending s) \<and> buffered s = length (concat (pending s)) \<and> buffered s \<le> lim \<and> limit s = lim"

definition stream_put :: "bytes \<times> u64 \<Rightarrow> stream \<Rightarrow> bool \<times> stream" where
  "stream_put d = stream_write (fst d) (snd d)"

lemma stream_write_ok: "stream_ok lim s \<Longrightarrow> stream_ok lim (snd (stream_write d ts s))"
  by (auto simp: stream_write_def stream_ok_def Let_def)

lemma stream_Read_ok: "stream_ok lim s \<Longrightarrow> stream_ok lim (snd (stream_Read n s))"
  by (cases "pending s") (auto simp: stream_Read_def stream_ok_def Let_def min_def)

lemma stream_close_ok: "stream_ok lim s \<Longrightarrow> stream_ok lim (stream_close s)"
  by (simp add: stream_ok_def stream_close_def)

interpretation llm_queue: byte_queue "stream_ok lim" "\<lambda>s. concat (pending s)" fst stream_put stream_Read stream_close
  for lim
proof (unfold_locales, goal_cases)
  case (2 s d)
  then show ?case by (auto simp: stream_put_def stream_write_def Let_def)
next
  case (4 s n)
  then show ?case by (cases "pending s") (auto simp: stream_Read_def Let_def min_def)
next
  case (5 s n b)
  then show ?case by (cases "pending s") (auto simp: stream_Read_def stream_ok_def Let_def split: if_splits)
next
  case (6 s n)
  then show ?case by (cases "pending s") (auto simp: stream_Read_def stream_ok_def Let_def)
qed (simp_all add: stream_put_def stream_write_ok stream_Read_ok stream_close_ok, simp add: stream_close_def)

section \<open>Timestamps\<close>

text \<open>The executions of one stream, with the chunks it accepted.\<close>

inductive stream_run :: "nat \<Rightarrow> (bytes \<times> u64) list \<Rightarrow> stream \<Rightarrow> bool" for lim where
  new: "stream_run lim [] (newStream lim)"
| accept: "stream_run lim ws s \<Longrightarrow> d \<noteq> [] \<Longrightarrow> stream_write d ts s = (True, s') \<Longrightarrow> stream_run lim (ws @ [(d, ts)]) s'"
| refuse: "stream_run lim ws s \<Longrightarrow> stream_write d ts s = (False, s') \<Longrightarrow> stream_run lim ws s'"
| read: "stream_run lim ws s \<Longrightarrow> stream_Read n s = (r, s') \<Longrightarrow> stream_run lim ws s'"
| close: "stream_run lim ws s \<Longrightarrow> stream_run lim ws (stream_close s)"

definition start_of :: "(bytes \<times> u64) list \<Rightarrow> nat \<Rightarrow> nat" where
  "start_of ws i = length (concat (map fst (take i ws)))"

definition all_marks :: "(bytes \<times> u64) list \<Rightarrow> mark list" where
  "all_marks ws = map (\<lambda>i. \<lparr>moff = of_nat (start_of ws i), mts = snd (ws ! i)\<rparr>) [0..<length ws]"

lemma all_marks_snoc:
  "all_marks (ws @ [(d, ts)]) = all_marks ws @ [\<lparr>moff = of_nat (length (concat (map fst ws))), mts = ts\<rparr>]"
  by (simp add: all_marks_def start_of_def nth_append)

lemma length_all_marks [simp]: "length (all_marks ws) = length ws"
  by (simp add: all_marks_def)

lemma all_marks_nth [simp]: "i < length ws \<Longrightarrow> all_marks ws ! i = \<lparr>moff = of_nat (start_of ws i), mts = snd (ws ! i)\<rparr>"
  by (simp add: all_marks_def)

text \<open>The marks are those of the last chunks: all of them, or more than half of \<open>maxMarks\<close>.\<close>

lemma run_marks:
  assumes "stream_run lim ws s"
  shows "writeOff s = of_nat (length (concat (map fst ws))) \<and> [] \<notin> set (map fst ws) \<and>
    (\<exists>k. marks s = drop k (all_marks ws) \<and> k \<le> length ws \<and> (k = 0 \<or> maxMarks div 2 < length ws - k))"
  using assms
proof (induction rule: stream_run.induct)
  case new
  then show ?case by (simp add: newStream_def all_marks_def)
next
  case (accept ws s d ts s')
  then obtain k where k: "marks s = drop k (all_marks ws)" "k \<le> length ws"
    "k = 0 \<or> maxMarks div 2 < length ws - k" by blast
  let ?m = "all_marks (ws @ [(d, ts)])"
  have w: "writeOff s = of_nat (length (concat (map fst ws)))" using accept.IH by blast
  have "\<exists>k. marks s' = drop k ?m \<and> k \<le> length (ws @ [(d, ts)]) \<and>
    (k = 0 \<or> maxMarks div 2 < length (ws @ [(d, ts)]) - k)"
  proof (cases "length (marks s) \<ge> maxMarks")
    case True
    then have "k + maxMarks \<le> length ws" using k by (simp add: maxMarks_def)
    then have "marks s' = drop (k + maxMarks div 2) ?m \<and> k + maxMarks div 2 \<le> length (ws @ [(d, ts)]) \<and>
      maxMarks div 2 < length (ws @ [(d, ts)]) - (k + maxMarks div 2)"
      using accept.hyps w k True
      by (auto simp: stream_write_def Let_def all_marks_snoc maxMarks_def add.commute split: if_splits)
    then show ?thesis by blast
  next
    case False
    then show ?thesis
      using accept.hyps w k
      by (intro exI [of _ k]) (auto simp: stream_write_def Let_def all_marks_snoc split: if_splits)
  qed
  with accept show ?case by (auto simp: stream_write_def Let_def split: if_splits)
next
  case (refuse ws s d ts s')
  then have "marks s' = marks s" "writeOff s' = writeOff s"
    by (auto simp: stream_write_def Let_def split: if_splits)
  with refuse.IH show ?case by simp
next
  case (read ws s n r s')
  then have "marks s' = marks s" "writeOff s' = writeOff s"
    by (auto simp: stream_Read_def Let_def split: list.splits)
  with read.IH show ?case by simp
qed (simp add: stream_close_def)

lemma search_loop_spec:
  assumes "\<And>a b. f a \<Longrightarrow> a \<le> b \<Longrightarrow> b < n \<Longrightarrow> f b" "i \<le> j" "j \<le> n"
    "\<And>a. a < i \<Longrightarrow> \<not> f a" "\<And>b. j \<le> b \<Longrightarrow> b < n \<Longrightarrow> f b"
  shows "search_loop f i j \<le> n \<and> (\<forall>a < search_loop f i j. \<not> f a) \<and> (\<forall>b. search_loop f i j \<le> b \<longrightarrow> b < n \<longrightarrow> f b)"
  using assms
proof (induction f i j rule: search_loop.induct)
  case (1 f i j)
  let ?h = "(i + j) div 2"
  show ?case
  proof (cases "i < j")
    case True
    then have h: "i \<le> ?h" "?h < j" by auto
    show ?thesis
    proof (cases "f ?h")
      case True
      have "search_loop f i ?h \<le> n \<and> (\<forall>a < search_loop f i ?h. \<not> f a) \<and> (\<forall>b. search_loop f i ?h \<le> b \<longrightarrow> b < n \<longrightarrow> f b)"
        using True h 1(3-7) \<open>i < j\<close> by (intro 1(2)) auto
      with True \<open>i < j\<close> show ?thesis by (subst (1 2 3) search_loop.simps) (simp add: Let_def)
    next
      case False
      have below: "\<not> f a" if "a < Suc ?h" for a
        using False 1(3) [of a ?h] that h 1(5) by auto
      have "search_loop f (Suc ?h) j \<le> n \<and> (\<forall>a < search_loop f (Suc ?h) j. \<not> f a) \<and>
          (\<forall>b. search_loop f (Suc ?h) j \<le> b \<longrightarrow> b < n \<longrightarrow> f b)"
        using False h below 1(3,5,7) \<open>i < j\<close> by (intro 1(1)) auto
      with False \<open>i < j\<close> show ?thesis by (subst (1 2 3) search_loop.simps) (simp add: Let_def)
    qed
  next
    case False
    with 1(3-7) show ?thesis by (subst (1 2 3) search_loop.simps) auto
  qed
qed

lemma sort_Search_at:
  assumes "\<And>a b. f a \<Longrightarrow> a \<le> b \<Longrightarrow> b < n \<Longrightarrow> f b" "m < n" "\<not> f m" "Suc m < n \<Longrightarrow> f (Suc m)"
  shows "sort_Search n f = Suc m"
proof -
  let ?r = "sort_Search n f"
  have r: "?r \<le> n" "\<And>a. a < ?r \<Longrightarrow> \<not> f a" "\<And>b. ?r \<le> b \<Longrightarrow> b < n \<Longrightarrow> f b"
    using search_loop_spec [of f n 0 n] assms(1) unfolding sort_Search_def by auto
  have "m < ?r" using r(3) [of m] assms(2,3) by (cases "m < ?r") auto
  moreover have "\<not> Suc m < ?r" using r(1) r(2) [of "Suc m"] assms(4) by auto
  ultimately show ?thesis by simp
qed

lemma start_of_mono: "a \<le> b \<Longrightarrow> start_of ws a \<le> start_of ws b"
proof -
  assume "a \<le> b"
  then have "take b ws = take a ws @ take (b - a) (drop a ws)" by (metis le_add_diff_inverse take_add)
  then show ?thesis by (simp add: start_of_def)
qed

lemma start_of_total: "start_of ws i \<le> length (concat (map fst ws))"
proof -
  have "ws = take i ws @ drop i ws" by simp
  then have "length (concat (map fst ws)) = start_of ws i + length (concat (map fst (drop i ws)))"
    unfolding start_of_def by (metis concat_append length_append map_append)
  then show ?thesis by simp
qed

section \<open>Properties\<close>

text \<open>
  C26. Captured bytes reach the parser in order, none lost and none repeated: whatever the sequence of
  writes, reads and closes, the bytes accepted are the bytes read followed by those held, never more
  than the limit; and a reader that blocks or is told the end has been given every accepted byte.
\<close>

theorem stream_fifo:
  assumes "llm_queue.exec ops ([], [], newStream lim) = (given, taken, s)"
  shows "given = taken @ concat (pending s) \<and> length (concat (pending s)) \<le> lim \<and>
    (fst (stream_Read n s) \<in> {Blocks, EndOfFile} \<longrightarrow> taken = given)"
proof -
  have new: "stream_ok lim (newStream lim)" "concat (pending (newStream lim)) = []"
    by (simp_all add: stream_ok_def newStream_def)
  have "stream_ok lim s" "given = taken @ concat (pending s)"
    using llm_queue.exec_fifo [OF assms new(1)] new(2) by simp_all
  then show ?thesis
    using llm_queue.exec_drained [OF assms new(1), of n] new(2)
    by (simp add: stream_ok_def)
qed

theorem stream_fifo_witness:
  "llm_queue.exec [Put ([1, 2, 3], 7), Get 2, Shut, Put ([4], 8), Get 9, Get 9] ([], [], newStream 100) =
      ([1, 2, 3], [1, 2, 3], stream_close ((newStream 100)\<lparr>readOff := 3, writeOff := 3, marks := [\<lparr>moff = 0, mts = 7\<rparr>]\<rparr>)) \<and>
    [1, 2, 3] = [1, 2, 3 :: u8] @ concat (pending (newStream 100))"
proof -
  let ?s = "stream_close ((newStream 100)\<lparr>readOff := 3, writeOff := 3, marks := [\<lparr>moff = 0, mts = 7\<rparr>]\<rparr>)"
  have "llm_queue.exec [Put ([1, 2, 3], 7), Get 2, Shut, Put ([4], 8), Get 9, Get 9] ([], [], newStream 100) =
      ([1, 2, 3], [1, 2, 3], ?s)"
    by (simp add: stream_put_def stream_write_def stream_Read_def stream_close_def newStream_def maxMarks_def Let_def)
  with stream_fifo [OF this, of 1] show ?thesis by (simp add: stream_close_def)
qed

text \<open>
  C27. \<open>tsAt\<close> gives the kernel's time of the chunk that carried a byte, for every byte of the 2048 most
  recent chunks, up to \<open>2 ^ 64\<close> bytes.
\<close>

theorem tsAt_correct:
  assumes "stream_run lim ws s" "i < length ws" "length ws \<le> i + maxMarks div 2"
    "start_of ws i \<le> off" "off < start_of ws (Suc i)" "length (concat (map fst ws)) < 2 ^ 64"
  shows "tsAt (of_nat off) s = snd (ws ! i)"
proof -
  from run_marks [OF assms(1)] obtain k where k: "marks s = drop k (all_marks ws)" "k \<le> length ws"
    "k = 0 \<or> maxMarks div 2 < length ws - k" by blast
  then have ki: "k \<le> i" using assms(3) by auto
  have small: "start_of ws a < 2 ^ 64" for a
    using start_of_total [of ws a] assms(6) by linarith
  have off: "off < 2 ^ 64" using assms(5) small [of "Suc i"] by linarith
  let ?f = "\<lambda>j. moff (marks s ! j) > (of_nat off :: u64)"
  have f: "?f j \<longleftrightarrow> off < start_of ws (k + j)" if "j < length (marks s)" for j
    using that k small [of "k + j"] off by (simp add: word_less_nat_alt unat_of_nat)
  have len: "length (marks s) = length ws - k" using k by simp
  have "sort_Search (length (marks s)) ?f = Suc (i - k)"
  proof (rule sort_Search_at)
    show "i - k < length (marks s)" using len ki assms(2) by simp
    then show "\<not> ?f (i - k)" using f [of "i - k"] ki assms(4) by simp
    show "?f (Suc (i - k))" if "Suc (i - k) < length (marks s)"
      using f [OF that] ki assms(5) by simp
    show "?f b" if "?f a" "a \<le> b" "b < length (marks s)" for a b
      using that f [of a] f [of b] start_of_mono [of "k + a" "k + b" ws] by simp
  qed
  then show ?thesis using k ki assms(2) len by (auto simp: tsAt_def Let_def)
qed

theorem tsAt_correct_witness:
  "tsAt 4 (snd (stream_write [4, 5] 9 (snd (stream_write [1, 2, 3] 7 (newStream 100))))) = 9"
proof -
  let ?s1 = "snd (stream_write [1, 2, 3] 7 (newStream 100))"
  let ?s2 = "snd (stream_write [4, 5] 9 ?s1)"
  have w: "stream_write [1, 2, 3] 7 (newStream 100) = (True, ?s1)" "stream_write [4, 5] 9 ?s1 = (True, ?s2)"
    by (simp_all add: stream_write_def newStream_def maxMarks_def Let_def)
  have "stream_run 100 [([1, 2, 3], 7)] ?s1"
    using stream_run.accept [OF stream_run.new _ w(1)] by simp
  then have "stream_run 100 [([1, 2, 3], 7), ([4, 5], 9)] ?s2"
    using stream_run.accept [OF _ _ w(2), of 100 "[([1, 2, 3], 7)]"] by simp
  from tsAt_correct [OF this, of 1 4] show ?thesis by (simp add: start_of_def maxMarks_def)
qed

end
