(* ===== verification/Llm_Provider.thy ===== *)
theory Llm_Provider
  imports Url Key_Value
begin

text \<open>
  How LLM endpoints are recognised, \<open>src/llm/provider.go\<close>: providers by host name, API calls by path,
  and the target and host of the first bytes of a request. A slice expression out of range is a panic,
  the value \<open>None\<close>; \<open>uniLower\<close> stands for the Unicode tables of \<open>strings.ToLower\<close>.
\<close>

section \<open>Providers\<close>

type_synonym Provider = string

definition ProviderOpenAI :: Provider where "ProviderOpenAI = ''openai''"
definition ProviderAzure :: Provider where "ProviderAzure = ''azure.ai.openai''"
definition ProviderAnthropic :: Provider where "ProviderAnthropic = ''anthropic''"
definition ProviderGemini :: Provider where "ProviderGemini = ''gcp.gemini''"
definition ProviderVertexAI :: Provider where "ProviderVertexAI = ''gcp.vertex_ai''"
definition ProviderBedrock :: Provider where "ProviderBedrock = ''aws.bedrock''"
definition ProviderCohere :: Provider where "ProviderCohere = ''cohere''"
definition ProviderDeepSeek :: Provider where "ProviderDeepSeek = ''deepseek''"
definition ProviderGroq :: Provider where "ProviderGroq = ''groq''"
definition ProviderMistral :: Provider where "ProviderMistral = ''mistral_ai''"
definition ProviderPerplexity :: Provider where "ProviderPerplexity = ''perplexity''"
definition ProviderXAI :: Provider where "ProviderXAI = ''x_ai''"
definition ProviderCompatible :: Provider where "ProviderCompatible = ''openai_compatible''"

datatype Operation = NoOperation | OperationChat | OperationTextCompletion | OperationEmbeddings | OperationGenerate

datatype family = familyUnknown | familyOpenAI | familyAnthropic | familyGemini | familyBedrock | familyCohere

definition hostProviders :: "(string \<times> Provider) list" where
  "hostProviders =
     [(''api.openai.com'', ProviderOpenAI), (''api.anthropic.com'', ProviderAnthropic),
      (''generativelanguage.googleapis.com'', ProviderGemini), (''aiplatform.googleapis.com'', ProviderVertexAI),
      (''api.cohere.ai'', ProviderCohere), (''api.cohere.com'', ProviderCohere),
      (''api.deepseek.com'', ProviderDeepSeek), (''api.groq.com'', ProviderGroq),
      (''api.mistral.ai'', ProviderMistral), (''api.perplexity.ai'', ProviderPerplexity),
      (''api.x.ai'', ProviderXAI), (''api.together.xyz'', ProviderCompatible),
      (''api.fireworks.ai'', ProviderCompatible)]"

text \<open>
  The regular expressions are anchored and their only repetition is over a class without the dot that
  follows it, so a match is a prefix, a non-empty run of the class and a suffix.
\<close>

definition host_class :: "char \<Rightarrow> bool" where
  "host_class c \<longleftrightarrow> is_lower c \<or> is_digit c \<or> c = CHR ''-''"

definition between_ok :: "string \<Rightarrow> string \<Rightarrow> string \<Rightarrow> bool" where
  "between_ok pre suf s \<longleftrightarrow>
     prefix pre s \<and> suffix suf s \<and> length pre + length suf < length s \<and>
     list_all host_class (take (length s - length pre - length suf) (drop (length pre) s))"

definition reBedrockHost :: "string \<Rightarrow> bool" where
  "reBedrockHost s \<longleftrightarrow>
     between_ok ''bedrock-runtime.'' ''.amazonaws.com'' s \<or> between_ok ''bedrock-runtime-fips.'' ''.amazonaws.com'' s"

definition reAzureHost :: "string \<Rightarrow> bool" where
  "reAzureHost s \<longleftrightarrow>
     between_ok [] ''.openai.azure.com'' s \<or> between_ok [] ''.services.ai.azure.com'' s \<or>
     between_ok [] ''.cognitiveservices.azure.com'' s"

definition reVertexHost :: "string \<Rightarrow> bool" where
  "reVertexHost s \<longleftrightarrow> between_ok [] ''-aiplatform.googleapis.com'' s"

definition ProviderForHost :: "(string \<Rightarrow> string) \<Rightarrow> string \<Rightarrow> Provider option" where
  "ProviderForHost uniLower host0 =
     (let lower = ToLower uniLower host0;
          host = (case SplitHostPort lower of Some (h, _) \<Rightarrow> h | None \<Rightarrow> lower) in
      case map_of hostProviders host of
        Some p \<Rightarrow> Some p
      | None \<Rightarrow>
          if reBedrockHost host then Some ProviderBedrock
          else if reAzureHost host then Some ProviderAzure
          else if reVertexHost host then Some ProviderVertexAI
          else None)"

section \<open>Paths\<close>

record route =
  rFamily :: family
  rOperation :: Operation
  rModel :: string
  rStreaming :: bool

definition mk_route :: "family \<Rightarrow> Operation \<Rightarrow> string \<Rightarrow> bool \<Rightarrow> route" where
  "mk_route f oper m st = \<lparr>rFamily = f, rOperation = oper, rModel = m, rStreaming = st\<rparr>"

definition bedrockModel :: "string \<Rightarrow> string" where
  "bedrockModel segment0 =
     (let segment = (case path_unescape segment0 of Some s \<Rightarrow> s | None \<Rightarrow> segment0) in
      if prefix ''arn:'' segment then
        (case last_index ''/'' segment of Some i \<Rightarrow> drop (Suc i) segment | None \<Rightarrow> segment)
      else segment)"

text \<open>Gemini and Vertex AI: the model between \<open>/models/\<close> and the last colon.\<close>

definition gemini_route :: "string \<Rightarrow> string \<Rightarrow> route option option" where
  "gemini_route path lower =
     (case last_index ''/models/'' lower of
        None \<Rightarrow> Some None
      | Some i \<Rightarrow>
          (case last_index '':'' lower of
             None \<Rightarrow> Some None
           | Some j \<Rightarrow>
               if j > i then
                 do {
                   model \<leftarrow> slice path (i + length ''/models/'') j;
                   let method = drop (Suc j) lower;
                   Some
                     (if method = ''generatecontent'' then Some (mk_route familyGemini OperationGenerate model False)
                      else if method = ''streamgeneratecontent'' then Some (mk_route familyGemini OperationGenerate model True)
                      else if method \<in> {''embedcontent'', ''batchembedcontents'', ''predict''}
                      then Some (mk_route familyGemini OperationEmbeddings model False)
                      else None)
                 }
               else Some None))"

definition bedrock_route :: "(string \<Rightarrow> string) \<Rightarrow> string \<Rightarrow> string \<Rightarrow> route option option" where
  "bedrock_route uniLower path lower =
     (if prefix ''/model/'' lower then
        do {
          rest \<leftarrow> slice path (length ''/model/'') (length path);
          (case last_index ''/'' rest of
             None \<Rightarrow> Some None
           | Some j \<Rightarrow>
               if j > 0 then
                 (let model = bedrockModel (take j rest);
                      action = ToLower uniLower (drop (Suc j) rest);
                      oper = (if str_contains ''embed'' (ToLower uniLower model)
                              then OperationEmbeddings else OperationChat) in
                  Some
                    (if action \<in> {''converse'', ''invoke''} then Some (mk_route familyBedrock oper model False)
                     else if action \<in> {''converse-stream'', ''invoke-with-response-stream''}
                     then Some (mk_route familyBedrock oper model True)
                     else None))
               else Some None)
        }
      else Some None)"

definition openai_route :: "string \<Rightarrow> route option" where
  "openai_route lower =
     (if suffix ''/chat/completions'' lower then Some (mk_route familyOpenAI OperationChat [] False)
      else if suffix ''/v1/responses'' lower \<or> suffix ''/openai/responses'' lower
      then Some (mk_route familyOpenAI OperationChat [] False)
      else if suffix ''/v1/completions'' lower \<or> suffix ''/completions'' lower \<and> str_contains ''/deployments/'' lower
      then Some (mk_route familyOpenAI OperationTextCompletion [] False)
      else if suffix ''/embeddings'' lower then Some (mk_route familyOpenAI OperationEmbeddings [] False)
      else if suffix ''/v1/messages'' lower then Some (mk_route familyAnthropic OperationChat [] False)
      else if lower = ''/v2/chat'' \<or> lower = ''/v1/chat'' then Some (mk_route familyCohere OperationChat [] False)
      else if lower = ''/v2/embed'' \<or> lower = ''/v1/embed'' then Some (mk_route familyCohere OperationEmbeddings [] False)
      else None)"

text \<open>\<open>classifyPath\<close>: \<open>None\<close> is a panic, \<open>Some None\<close> the result \<open>ok == false\<close>.\<close>

definition classifyPath :: "(string \<Rightarrow> string) \<Rightarrow> string \<Rightarrow> route option option" where
  "classifyPath uniLower rawPath =
     (let path = trim_right_char (CHR ''/'') (takeWhile (\<lambda>c. c \<noteq> CHR ''?'') rawPath);
          lower = ToLower uniLower path in
      do {
        g \<leftarrow> gemini_route path lower;
        (case g of
           Some r \<Rightarrow> Some (Some r)
         | None \<Rightarrow>
             do {
               b \<leftarrow> bedrock_route uniLower path lower;
               (case b of Some r \<Rightarrow> Some (Some r) | None \<Rightarrow> Some (openai_route lower))
             })
      })"

definition IsAPIPath :: "(string \<Rightarrow> string) \<Rightarrow> string \<Rightarrow> bool option" where
  "IsAPIPath uniLower path = do { r \<leftarrow> classifyPath uniLower path; Some (r \<noteq> None) }"

section \<open>The first bytes of a request\<close>

text \<open>
  \<open>strings.EqualFold(k, "host")\<close>: letter case aside, and the long s U+017F folds to the letter s.
\<close>

definition fold_is_host :: "string \<Rightarrow> bool" where
  "fold_is_host k \<longleftrightarrow>
     map lower_char k = ''host'' \<or> map lower_char k = ''ho'' @ [CHR 0xC5, CHR 0xBF] @ ''t''"

fun host_line :: "bytes list \<Rightarrow> string" where
  "host_line [] = []"
| "host_line (line # lines) =
     (if line = [] then []
      else
        (case bytes_cut [0x3a] line of (k, v, ok) \<Rightarrow>
           if ok \<and> fold_is_host (gostr k) then trim_string (gostr v) else host_line lines))"

text \<open>\<open>bytes.SplitN(s, " ", 3)\<close> has three parts exactly when there are two spaces.\<close>

definition RequestPathAndHost :: "bytes \<Rightarrow> string \<times> string" where
  "RequestPathAndHost b =
     (case bytes_cut crlf b of (first, rest, ok) \<Rightarrow>
        if \<not> ok then ([], [])
        else
          (case bytes_cut space first of (_, r1, ok1) \<Rightarrow>
             case bytes_cut space r1 of (uri, _, ok2) \<Rightarrow>
               if \<not> ok1 \<or> \<not> ok2 then ([], [])
               else (gostr uri, host_line (bytes_split crlf rest))))"

section \<open>Properties\<close>

lemma occurs_at_nth:
  assumes "occurs_at sub s i" "k < length sub" "i + length sub \<le> length s"
  shows "s ! (i + k) = sub ! k"
proof -
  from assms(1) obtain r where "drop i s = sub @ r" unfolding occurs_at_def prefix_def by blast
  then have "drop i s ! k = sub ! k" using assms(2) by (simp add: nth_append)
  then show ?thesis using assms(2,3) by simp
qed

text \<open>The colon found after \<open>/models/\<close> is behind all of it.\<close>

lemma colon_after_models:
  assumes "last_index ''/models/'' lower = Some i" "last_index '':'' lower = Some j" "i < j"
  shows "i + length ''/models/'' \<le> j \<and> j < length lower"
proof -
  let ?m = "''/models/''"
  from assms(2) have j: "j + 1 \<le> length lower" "occurs_at '':'' lower j" by (auto dest: index_SomeD(2))
  then have colon: "lower ! j = CHR '':''" using occurs_at_nth [of "'':''" lower j 0] by simp
  have "\<not> j < i + length ?m"
  proof
    assume "j < i + length ?m"
    define k where "k = j - i"
    then have k: "j = i + k" "k < length ?m" using assms(3) \<open>j < i + length ?m\<close> by auto
    from assms(1) have "i + length ?m \<le> length lower" "occurs_at ?m lower i" by (auto dest: index_SomeD(2))
    from occurs_at_nth [OF this(2) k(2) this(1)] colon k(1) have "?m ! k = CHR '':''" by simp
    then have "CHR '':'' \<in> set ?m" using k(2) nth_mem by metis
    then show False by simp
  qed
  with j show ?thesis by simp
qed

lemma gemini_route_total:
  assumes "length path = length lower"
  shows "gemini_route path lower \<noteq> None"
proof -
  have cut: "slice path (i + length ''/models/'') j \<noteq> None"
    if "last_index ''/models/'' lower = Some i" "last_index '':'' lower = Some j" "i < j" for i j
    using colon_after_models [OF that] assms by (simp add: slice_def)
  show ?thesis
  proof (cases "last_index ''/models/'' lower"; cases "last_index '':'' lower")
    fix i j
    assume i: "last_index ''/models/'' lower = Some i" and j: "last_index '':'' lower = Some j"
    obtain m where "i < j \<Longrightarrow> slice path (i + length ''/models/'') j = Some m"
      using cut [OF i j] by auto
    with i j show ?thesis by (simp add: gemini_route_def Let_def del: list.size)
  qed (simp_all add: gemini_route_def)
qed

lemma bedrock_route_total:
  assumes "length path = length lower"
  shows "bedrock_route uniLower path lower \<noteq> None"
proof -
  have "slice path (length ''/model/'') (length path) \<noteq> None" if "prefix ''/model/'' lower"
    using prefix_length_le [OF that] assms by (simp add: slice_def)
  then show ?thesis
    unfolding bedrock_route_def Let_def by (auto simp del: list.size simp: Option.bind_eq_None_conv split: option.splits)
qed

text \<open>On a path of ASCII characters \<open>classifyPath\<close> never panics.\<close>

theorem classifyPath_total:
  assumes "list_all is_ascii path"
  shows "classifyPath uniLower path \<noteq> None"
proof -
  let ?p = "trim_right_char (CHR ''/'') (takeWhile (\<lambda>c. c \<noteq> CHR ''?'') path)"
  have "set ?p \<subseteq> set path"
    unfolding trim_right_char_def using set_takeWhileD set_dropWhileD by fastforce
  then have "list_all is_ascii ?p" using assms by (auto simp: list_all_iff)
  then have len: "length ?p = length (ToLower uniLower ?p)" by (simp add: ToLower_def)
  from gemini_route_total [OF len] bedrock_route_total [OF len, of uniLower] show ?thesis
    unfolding classifyPath_def Let_def by (auto split: option.splits)
qed

theorem classifyPath_total_witness: "classifyPath id ''/V1/Models/Gem:GenerateContent'' \<noteq> None"
  by (rule classifyPath_total) (simp add: is_ascii_def ord_def)

text \<open>
  The letter A with stroke, U+023A, takes two bytes, and its lower case, U+2C65, three: the offsets found
  in the lower-case copy of a path with 17 of them lie outside the path.
\<close>

definition stroke_path :: string where
  "stroke_path = concat (replicate 17 [CHR 0xC8, CHR 0xBA]) @ ''/models/x:generatecontent''"

definition stroke_lower :: string where
  "stroke_lower = concat (replicate 17 [CHR 0xE2, CHR 0xB1, CHR 0xA5]) @ ''/models/x:generatecontent''"

text \<open>
  C32. \<open>classifyPath\<close> indexes the path with offsets found in its lower-case copy, which may be longer: on a
  path with 17 letters U+023A before \<open>/models/\<close> the slice is out of range and the call panics.
\<close>

theorem classifyPath_panics:
  assumes "uniLower stroke_path = stroke_lower"
  shows "classifyPath uniLower stroke_path = None"
proof -
  have path: "trim_right_char (CHR ''/'') (takeWhile (\<lambda>c. c \<noteq> CHR ''?'') stroke_path) = stroke_path"
    by code_simp
  have "\<not> list_all is_ascii stroke_path" by code_simp
  then have low: "ToLower uniLower stroke_path = stroke_lower" using assms by (simp add: ToLower_def)
  have i: "last_index ''/models/'' stroke_lower = Some 51" by code_simp
  have j: "last_index '':'' stroke_lower = Some 60" by code_simp
  have "length stroke_path = 59" by (simp add: stroke_path_def eval_nat_numeral)
  then have "slice stroke_path (51 + length ''/models/'') 60 = None" by (simp add: slice_def)
  then have "gemini_route stroke_path stroke_lower = None"
    unfolding gemini_route_def i j by (simp del: list.size)
  then show ?thesis unfolding classifyPath_def Let_def path low by simp
qed

theorem classifyPath_panics_witness: "classifyPath (\<lambda>s. stroke_lower) stroke_path = None"
  by (rule classifyPath_panics) simp

end
