(* ===== verification/Llm_Body.thy ===== *)
theory Llm_Body
  imports Golib Key_Value
begin

text \<open>
  Response bodies, \<open>src/llm/body.go\<close>: undoing the content encoding, and splitting a body into the JSON
  documents that carry its content. The decompressors are the argument \<open>unz\<close>.
\<close>

section \<open>Content encoding\<close>

definition maxDecodedBody :: nat where "maxDecodedBody = 32 * 2 ^ 20"

datatype codec = Gzip | Zlib | RawDeflate | Zstd

text \<open>
  A decompressor refuses the input when it is created, or gives output that ends cleanly, where the
  input was cut (\<open>io.ErrUnexpectedEOF\<close>), or with another error; the flag says whether the call of
  \<open>Read\<close> that gave the last bytes also returned that end.
\<close>

datatype unz_end = CleanEnd | CutShort | Corrupt
datatype unz_result = NoHeader | Unzipped bytes unz_end bool

datatype decode_error = UnsupportedEncoding | DecompressError

text \<open>
  \<open>io.ReadAll\<close> of the limited reader, and what \<open>decodeBody\<close> makes of its error. At exactly the limit the
  end is seen only if it came with the last bytes.
\<close>

definition read_limited :: "bytes \<Rightarrow> unz_end \<Rightarrow> bool \<Rightarrow> decode_error + bytes" where
  "read_limited out e withLast =
     (if length out > maxDecodedBody \<or> length out = maxDecodedBody \<and> \<not> withLast then Inr (take maxDecodedBody out)
      else if e = CleanEnd then Inr out
      else if e = CutShort \<and> out \<noteq> [] then Inr out
      else Inl DecompressError)"

definition unzip :: "unz_result \<Rightarrow> decode_error + bytes" where
  "unzip res = (case res of NoHeader \<Rightarrow> Inl DecompressError | Unzipped out e withLast \<Rightarrow> read_limited out e withLast)"

definition decodeBody ::
  "(string \<Rightarrow> string) \<Rightarrow> (codec \<Rightarrow> bytes \<Rightarrow> unz_result) \<Rightarrow> string \<Rightarrow> bytes \<Rightarrow> decode_error + bytes" where
  "decodeBody uniLower unz encoding body =
     (let enc = ToLower uniLower (trim_string encoding) in
      if enc = [] \<or> enc = ''identity'' then Inr body
      else if enc = ''gzip'' \<or> enc = ''x-gzip'' then unzip (unz Gzip body)
      else if enc = ''deflate'' then
        (case unz Zlib body of
           NoHeader \<Rightarrow> unzip (unz RawDeflate body)
         | Unzipped out e withLast \<Rightarrow> read_limited out e withLast)
      else if enc = ''zstd'' then unzip (unz Zstd body)
      else Inl UnsupportedEncoding)"

section \<open>Server-sent events\<close>

text \<open>
  The loop over lines. \<open>cur\<close> is a slice that may be \<open>nil\<close>, which Go's \<open>append\<close> of nothing leaves
  \<open>nil\<close>.
\<close>

definition sse_append :: "bytes option \<Rightarrow> bytes \<Rightarrow> bytes option" where
  "sse_append cur v =
     (case cur of
        None \<Rightarrow> (if v = [] then None else Some v)
      | Some c \<Rightarrow> Some (c @ [0x0a] @ v))"

definition done_mark :: bytes where "done_mark = bytes_of ''[DONE]''"

definition sse_flush :: "bytes option \<Rightarrow> bytes list \<Rightarrow> bytes list" where
  "sse_flush cur events =
     (case cur of
        None \<Rightarrow> events
      | Some c \<Rightarrow> if c \<noteq> [] \<and> c \<noteq> done_mark then events @ [c] else events)"

definition data_prefix :: bytes where "data_prefix = bytes_of ''data:''"

fun sse_lines :: "bytes list \<Rightarrow> bytes option \<Rightarrow> bytes list \<Rightarrow> bytes list" where
  "sse_lines [] cur events = sse_flush cur events"
| "sse_lines (l # ls) cur events =
     (let line = trim_right_char 0x0d l in
      if line = [] then sse_lines ls None (sse_flush cur events)
      else if \<not> prefix data_prefix line then sse_lines ls cur events
      else
        (let v = drop (length data_prefix) line;
             v1 = (if prefix space v then drop 1 v else v) in
         sse_lines ls (sse_append cur v1) events))"

definition sseData :: "bytes \<Rightarrow> bytes list" where
  "sseData body = sse_lines (bytes_split [0x0a] body) None []"

section \<open>JSON arrays\<close>

record json_scan =
  jDepth :: int
  jStart :: "nat option"
  jString :: bool
  jEscaped :: bool
  jOut :: "bytes list"

definition json_step :: "bytes \<Rightarrow> nat \<times> u8 \<Rightarrow> json_scan \<Rightarrow> json_scan" where
  "json_step body ic st =
     (case ic of (i, c) \<Rightarrow>
        if jString st then
          (if jEscaped st then st\<lparr>jEscaped := False\<rparr>
           else if c = 0x5c then st\<lparr>jEscaped := True\<rparr>
           else if c = 0x22 then st\<lparr>jString := False\<rparr>
           else st)
        else if c = 0x22 then st\<lparr>jString := True\<rparr>
        else if c = 0x7b then
          st\<lparr>jStart := (if jDepth st = 0 then Some i else jStart st), jDepth := jDepth st + 1\<rparr>
        else if c = 0x7d then
          (let d = jDepth st - 1 in
           case jStart st of
             Some s \<Rightarrow>
               if d = 0 then st\<lparr>jDepth := d, jStart := None, jOut := jOut st @ [take (Suc i - s) (drop s body)]\<rparr>
               else st\<lparr>jDepth := d\<rparr>
           | None \<Rightarrow> st\<lparr>jDepth := d\<rparr>)
        else st)"

definition json_init :: json_scan where
  "json_init = \<lparr>jDepth = 0, jStart = None, jString = False, jEscaped = False, jOut = []\<rparr>"

definition jsonArrayElements :: "bytes \<Rightarrow> bytes list" where
  "jsonArrayElements body = jOut (fold (json_step body) (enumerate 0 body) json_init)"

section \<open>AWS event streams\<close>

text \<open>The size of a header's value, by its type byte, in the bytes behind it; \<open>None\<close> ends the search.\<close>

definition header_value_size :: "u8 \<Rightarrow> bytes \<Rightarrow> nat option" where
  "header_value_size typ h =
     (if typ = 0 \<or> typ = 1 then Some 0
      else if typ = 2 then Some 1
      else if typ = 3 then Some 2
      else if typ = 4 then Some 4
      else if typ = 5 \<or> typ = 8 then Some 8
      else if typ = 9 then Some 16
      else if typ = 6 \<or> typ = 7 then (if length h < 2 then None else map_option (\<lambda>n. 2 + n) (be16 h))
      else None)"

function eventStreamType :: "bytes \<Rightarrow> string" where
  "eventStreamType h =
     (case h of
        [] \<Rightarrow> []
      | b # h1 \<Rightarrow>
          (let n = unat b in
           if n + 1 > length h1 then []
           else
             (let name = gostr (take n h1); typ = h1 ! n; rest = drop (Suc n) h1 in
              case header_value_size typ rest of
                None \<Rightarrow> []
              | Some sz \<Rightarrow>
                  if sz > length rest then []
                  else if name = '':message-type'' \<and> typ = 7 then gostr (take (sz - 2) (drop 2 rest))
                  else eventStreamType (drop sz rest))))"
  by pat_completeness auto
termination by (relation "measure length") auto

declare eventStreamType.simps [simp del]

text \<open>The lengths are 32-bit numbers in a 64-bit \<open>int\<close>, so their sums do not wrap.\<close>

function eventStreamPayloads :: "bytes \<Rightarrow> bytes list" where
  "eventStreamPayloads body =
     (if length body < 16 then []
      else
        (case (be32 body, be32 (drop 4 body)) of
           (Some tot, Some headers) \<Rightarrow>
             if tot < 16 \<or> tot > length body \<or> 12 + headers > tot - 4 then []
             else
               (if eventStreamType (take headers (drop 12 body)) = ''event''
                then [take (tot - 4 - (12 + headers)) (drop (12 + headers) body)] else [])
               @ eventStreamPayloads (drop tot body)
         | _ \<Rightarrow> []))"
  by pat_completeness auto
termination by (relation "measure length") auto

declare eventStreamPayloads.simps [simp del]

section \<open>Payloads\<close>

definition payloads :: "(string \<Rightarrow> string) \<Rightarrow> string \<Rightarrow> bytes \<Rightarrow> bytes list" where
  "payloads uniLower contentType body =
     (let ct = ToLower uniLower contentType in
      if str_contains ''text/event-stream'' ct then sseData body
      else if str_contains ''application/vnd.amazon.eventstream'' ct then eventStreamPayloads body
      else
        (let trimmed = TrimSpace body in
         if prefix [0x5b] trimmed then jsonArrayElements trimmed
         else if prefix data_prefix trimmed then sseData body
         else [trimmed]))"

section \<open>Events are read back\<close>

text \<open>
  An event as a server writes it: lines that end with a newline, or with a carriage return and a newline,
  and a blank line after them. A line holds data or another field, such as \<open>event: ping\<close> or a comment.
  The event stands for its data lines, joined by newlines.
\<close>

datatype sse_line = Data bytes | Field bytes

type_synonym sse_event = "bool \<times> sse_line list"

definition line_end :: "bool \<Rightarrow> bytes" where
  "line_end cr = (if cr then [0x0d] else [])"

fun line_bytes :: "sse_line \<Rightarrow> bytes" where
  "line_bytes (Data l) = data_prefix @ space @ l"
| "line_bytes (Field l) = l"

definition event_lines :: "sse_event \<Rightarrow> bytes list" where
  "event_lines e = map (\<lambda>l. line_bytes l @ line_end (fst e)) (snd e) @ [line_end (fst e)]"

definition enc_event :: "sse_event \<Rightarrow> bytes" where
  "enc_event e = concat (map (\<lambda>l. l @ [0x0a]) (event_lines e))"

fun data_lines :: "sse_line list \<Rightarrow> bytes list" where
  "data_lines [] = []"
| "data_lines (Data l # ls) = l # data_lines ls"
| "data_lines (Field l # ls) = data_lines ls"

fun join_lines :: "bytes list \<Rightarrow> bytes" where
  "join_lines [] = []"
| "join_lines [l] = l"
| "join_lines (l # ls) = l @ [0x0a] @ join_lines ls"

definition event_text :: "sse_event \<Rightarrow> bytes" where
  "event_text e = join_lines (data_lines (snd e))"

fun line_ok :: "sse_line \<Rightarrow> bool" where
  "line_ok (Data l) \<longleftrightarrow> 0x0a \<notin> set l \<and> (l = [] \<or> last l \<noteq> 0x0d)"
| "line_ok (Field l) \<longleftrightarrow> 0x0a \<notin> set l \<and> l \<noteq> [] \<and> last l \<noteq> 0x0d \<and> \<not> prefix data_prefix l"

definition event_ok :: "sse_event \<Rightarrow> bool" where
  "event_ok e \<longleftrightarrow> list_all line_ok (snd e) \<and> (data_lines (snd e) = [] \<or> hd (data_lines (snd e)) \<noteq> [])"

lemma trim_line_end: "s = [] \<or> last s \<noteq> 0x0d \<Longrightarrow> trim_right_char 0x0d (s @ line_end cr) = s"
  by (cases s rule: rev_cases) (auto simp: trim_right_char_def line_end_def)

definition append_line :: "sse_line \<Rightarrow> bytes option \<Rightarrow> bytes option" where
  "append_line l cur = (case l of Data d \<Rightarrow> sse_append cur d | Field _ \<Rightarrow> cur)"

lemma sse_line_step:
  "line_ok l \<Longrightarrow> sse_lines ((line_bytes l @ line_end cr) # ls) cur events = sse_lines ls (append_line l cur) events"
proof (cases l)
  case (Data d)
  assume "line_ok l"
  with Data have "trim_right_char 0x0d (line_bytes l @ line_end cr) = line_bytes l"
    by (intro trim_line_end) (auto simp: space_def)
  moreover have "line_bytes l \<noteq> []" "prefix data_prefix (line_bytes l)" "drop (length data_prefix) (line_bytes l) = space @ d"
    using Data by (simp_all add: space_def)
  ultimately show ?thesis using Data by (simp add: space_def append_line_def)
next
  case (Field d)
  assume "line_ok l"
  with Field show ?thesis using trim_line_end [of d cr] by (simp add: append_line_def)
qed

lemma sse_blank: "sse_lines (line_end cr # ls) cur events = sse_lines ls None (sse_flush cur events)"
  using trim_line_end [of "[]" cr] by simp

declare sse_lines.simps(2) [simp del]

lemma sse_body:
  "list_all line_ok ls \<Longrightarrow>
     sse_lines (map (\<lambda>l. line_bytes l @ line_end cr) ls @ rest) cur events = sse_lines rest (fold append_line ls cur) events"
  by (induction ls arbitrary: cur) (simp_all add: sse_line_step)

lemma append_lines_more: "fold append_line ls (Some c) = Some (join_lines (c # data_lines ls))"
proof (induction ls arbitrary: c rule: data_lines.induct)
  case (2 l ls)
  have "join_lines ((c @ [0x0a] @ l) # data_lines ls) = join_lines (c # l # data_lines ls)"
    by (cases "data_lines ls") simp_all
  with 2 show ?case by (simp add: append_line_def sse_append_def)
qed (simp_all add: append_line_def)

lemma append_lines_first:
  "data_lines ls = [] \<or> hd (data_lines ls) \<noteq> [] \<Longrightarrow>
     fold append_line ls None = (if data_lines ls = [] then None else Some (join_lines (data_lines ls)))"
  by (induction ls rule: data_lines.induct) (simp_all add: append_line_def sse_append_def append_lines_more)

lemma event_text_Nil: "event_ok e \<Longrightarrow> event_text e = [] \<longleftrightarrow> data_lines (snd e) = []"
  by (cases "data_lines (snd e)" rule: join_lines.cases) (auto simp: event_ok_def event_text_def)

definition delivered :: "sse_event list \<Rightarrow> bytes list" where
  "delivered es = filter (\<lambda>t. t \<noteq> [] \<and> t \<noteq> done_mark) (map event_text es)"

lemma sse_events:
  "list_all event_ok es \<Longrightarrow>
     sse_lines (concat (map event_lines es) @ rest) None events = sse_lines rest None (events @ delivered es)"
proof (induction es arbitrary: events)
  case (Cons e es)
  have "sse_lines (event_lines e @ r) None events =
      sse_lines r None (sse_flush (if data_lines (snd e) = [] then None else Some (event_text e)) events)" for r
    using Cons.prems sse_body [of "snd e" "fst e" "line_end (fst e) # r" None events]
    by (simp add: event_lines_def event_ok_def append_lines_first event_text_def sse_blank)
  then show ?case using Cons event_text_Nil [of e] by (auto simp: sse_flush_def delivered_def)
qed (simp add: delivered_def)

lemma split_terminated:
  "\<forall>l \<in> set ls. x \<notin> set l \<Longrightarrow> bytes_split [x] (concat (map (\<lambda>l. l @ [x]) ls)) = ls @ [[]]"
  using split_join [of "ls @ [[]]" x] by simp

lemma line_no_newline: "line_ok l \<Longrightarrow> 0x0a \<notin> set (line_bytes l)"
  by (cases l) (auto simp: data_prefix_def space_def bytes_of_def)

lemma enc_event_lines: "concat (map enc_event es) = concat (map (\<lambda>l. l @ [0x0a]) (concat (map event_lines es)))"
  by (induction es) (simp_all add: enc_event_def)

lemma split_lines_of_events:
  assumes "list_all (\<lambda>e. list_all line_ok (snd e)) es"
  shows "bytes_split [0x0a] (concat (map enc_event es)) = concat (map event_lines es) @ [[]]"
  unfolding enc_event_lines
proof (intro split_terminated ballI)
  fix l
  assume "l \<in> set (concat (map event_lines es))"
  then obtain e where e: "e \<in> set es" "l \<in> set (event_lines e)" by auto
  have "0x0a \<notin> set (line_end (fst e))" by (simp add: line_end_def)
  then show "0x0a \<notin> set l" using e assms line_no_newline by (fastforce simp: event_lines_def list_all_iff)
qed

text \<open>
  Every event of a server-sent stream that has data is delivered, in order, with its data lines joined,
  except the end marker \<open>[DONE]\<close>.
\<close>

lemma sse_all:
  assumes "list_all event_ok es"
  shows "sseData (concat (map enc_event es)) = delivered es"
proof -
  have "list_all (\<lambda>e. list_all line_ok (snd e)) es" using assms by (simp add: list_all_iff event_ok_def)
  with sse_events [OF assms, of "[[]]" "[]"] sse_blank [of False "[]" None] show ?thesis
    by (simp add: sseData_def split_lines_of_events line_end_def sse_flush_def)
qed

text \<open>
  A first data line that is empty is lost: the event \<open>data:\<close>, \<open>data: x\<close> stands for a line end and x in the
  SSE standard.
\<close>

lemma sse_empty_first_line: "sseData (enc_event (False, [Data [], Data [0x78]])) = [[0x78]]"
  by code_simp

section \<open>Event-stream messages are read back\<close>

text \<open>
  A header is a name and a value of one of the ten types of the AWS event-stream encoding. \<open>value_bytes\<close> is
  the number of the type and the encoded value; numbers are given by their bytes.
\<close>

datatype es_value =
    EsTrue | EsFalse | EsByte u8 | EsShort u8 u8 | EsInteger u8 u8 u8 u8 | EsLong bytes
  | EsByteArray bytes | EsString string | EsTimestamp bytes | EsUuid bytes

fun value_bytes :: "es_value \<Rightarrow> u8 \<times> bytes" where
  "value_bytes EsTrue = (0, [])"
| "value_bytes EsFalse = (1, [])"
| "value_bytes (EsByte a) = (2, [a])"
| "value_bytes (EsShort a b) = (3, [a, b])"
| "value_bytes (EsInteger a b c d) = (4, [a, b, c, d])"
| "value_bytes (EsLong w) = (5, w)"
| "value_bytes (EsByteArray w) = (6, put16 (length w) @ w)"
| "value_bytes (EsString s) = (7, put16 (length s) @ bytes_of s)"
| "value_bytes (EsTimestamp w) = (8, w)"
| "value_bytes (EsUuid w) = (9, w)"

fun value_ok :: "es_value \<Rightarrow> bool" where
  "value_ok (EsLong w) \<longleftrightarrow> length w = 8"
| "value_ok (EsTimestamp w) \<longleftrightarrow> length w = 8"
| "value_ok (EsUuid w) \<longleftrightarrow> length w = 16"
| "value_ok (EsByteArray w) \<longleftrightarrow> length w < 65536"
| "value_ok (EsString s) \<longleftrightarrow> length s < 65536"
| "value_ok _ \<longleftrightarrow> True"

definition hdr_ok :: "string \<times> es_value \<Rightarrow> bool" where
  "hdr_ok h \<longleftrightarrow> length (fst h) < 256 \<and> value_ok (snd h)"

definition enc_hdr :: "string \<times> es_value \<Rightarrow> bytes" where
  "enc_hdr h = (case value_bytes (snd h) of (typ, raw) \<Rightarrow> of_nat (length (fst h)) # bytes_of (fst h) @ [typ] @ raw)"

text \<open>The type of a message: the first header of that name whose value is a string.\<close>

fun msg_type :: "(string \<times> es_value) list \<Rightarrow> string" where
  "msg_type [] = []"
| "msg_type ((name, v) # hs) =
     (case v of EsString s \<Rightarrow> if name = '':message-type'' then s else msg_type hs | _ \<Rightarrow> msg_type hs)"

record es_message =
  esHeaders :: "(string \<times> es_value) list"
  esPayload :: bytes
  esPreludeCRC :: bytes
  esCRC :: bytes

definition enc_hdrs :: "es_message \<Rightarrow> bytes" where
  "enc_hdrs m = concat (map enc_hdr (esHeaders m))"

definition enc_message :: "es_message \<Rightarrow> bytes" where
  "enc_message m =
     put32 (16 + length (enc_hdrs m) + length (esPayload m)) @ put32 (length (enc_hdrs m)) @
     esPreludeCRC m @ enc_hdrs m @ esPayload m @ esCRC m"

definition message_ok :: "es_message \<Rightarrow> bool" where
  "message_ok m \<longleftrightarrow>
     list_all hdr_ok (esHeaders m) \<and> length (esPreludeCRC m) = 4 \<and> length (esCRC m) = 4 \<and>
     16 + length (enc_hdrs m) + length (esPayload m) < 2 ^ 32"

lemma header_value_size_enc:
  "value_ok v \<Longrightarrow> value_bytes v = (typ, raw) \<Longrightarrow> header_value_size typ (raw @ r) = Some (length raw)"
  by (cases v) (auto simp: header_value_size_def)

lemma string_value: "value_bytes v = (7, raw) \<Longrightarrow> \<exists>s. v = EsString s \<and> raw = put16 (length s) @ bytes_of s"
  by (cases v) auto

lemma other_value: "value_bytes v = (typ, raw) \<Longrightarrow> typ \<noteq> 7 \<Longrightarrow> msg_type ((name, v) # hs) = msg_type hs"
  by (cases v) auto

lemma eventStreamType_enc: "list_all hdr_ok hs \<Longrightarrow> eventStreamType (concat (map enc_hdr hs)) = msg_type hs"
proof (induction hs)
  case Nil
  then show ?case by (simp add: eventStreamType.simps)
next
  case (Cons h hs)
  obtain name v where h: "h = (name, v)" by (rule prod.exhaust)
  obtain ty raw where v: "value_bytes v = (ty, raw)" by (rule prod.exhaust)
  let ?r = "concat (map enc_hdr hs)"
  have ok: "length name < 256" "value_ok v" using Cons.prems h by (simp_all add: hdr_ok_def)
  then have n: "unat (of_nat (length name) :: u8) = length name" by simp
  have enc: "concat (map enc_hdr (h # hs)) = of_nat (length name) # bytes_of name @ [ty] @ raw @ ?r"
    by (simp add: h v enc_hdr_def)
  have step: "eventStreamType (concat (map enc_hdr (h # hs))) =
      (if name = '':message-type'' \<and> ty = 7 then gostr (take (length raw - 2) (drop 2 (raw @ ?r))) else eventStreamType ?r)"
    unfolding enc using n header_value_size_enc [OF ok(2) v, of ?r]
    by (subst eventStreamType.simps) (simp add: Let_def nth_append)
  show ?case
  proof (cases "ty = 7")
    case True
    then obtain s where s: "v = EsString s" "raw = put16 (length s) @ bytes_of s" using string_value v by blast
    have "gostr (take (length raw - 2) (drop 2 (raw @ ?r))) = s" using s(2) by simp
    with step True Cons s(1) h show ?thesis by simp
  next
    case False
    with step Cons other_value [OF v] h show ?thesis by simp
  qed
qed

lemma enc_message_first:
  assumes "message_ok m"
  shows "eventStreamPayloads (enc_message m @ rest) =
    (if msg_type (esHeaders m) = ''event'' then [esPayload m] else []) @ eventStreamPayloads rest"
proof -
  let ?h = "enc_hdrs m" and ?b = "enc_message m @ rest"
  let ?t = "16 + length ?h + length (esPayload m)"
  have len: "length (enc_message m) = ?t" using assms by (simp add: enc_message_def message_ok_def)
  have t: "be32 ?b = Some ?t" using assms by (simp add: enc_message_def message_ok_def)
  have "drop 4 ?b = put32 (length ?h) @ esPreludeCRC m @ ?h @ esPayload m @ esCRC m @ rest"
    by (simp add: enc_message_def)
  then have h: "be32 (drop 4 ?b) = Some (length ?h)" using assms by (simp add: message_ok_def)
  have body: "drop 12 ?b = ?h @ esPayload m @ esCRC m @ rest"
    using assms by (simp add: enc_message_def message_ok_def)
  have pay: "drop (12 + length ?h) ?b = esPayload m @ esCRC m @ rest"
    using assms by (simp add: enc_message_def message_ok_def)
  have "eventStreamType (take (length ?h) (drop 12 ?b)) = msg_type (esHeaders m)"
    using assms unfolding body by (simp add: eventStreamType_enc enc_hdrs_def message_ok_def)
  moreover have "take (?t - 4 - (12 + length ?h)) (drop (12 + length ?h) ?b) = esPayload m"
    unfolding pay by simp
  moreover have "drop ?t ?b = rest" using len by simp
  moreover have "\<not> length ?b < 16" "\<not> (?t < 16 \<or> ?t > length ?b \<or> 12 + length ?h > ?t - 4)"
    using len by simp_all
  ultimately show ?thesis
    unfolding eventStreamPayloads.simps [of ?b] t h by (simp only: if_False prod.case option.case)
qed

lemma eventStream_all:
  assumes "list_all message_ok ms" "length short < 16"
  shows "eventStreamPayloads (concat (map enc_message ms) @ short) =
    map esPayload (filter (\<lambda>m. msg_type (esHeaders m) = ''event'') ms)"
  using assms(1)
proof (induction ms)
  case Nil
  then show ?case using assms(2) by (simp add: eventStreamPayloads.simps)
next
  case (Cons m ms)
  then show ?case by (simp add: enc_message_first)
qed

text \<open>
  C33. The payloads of an AWS event stream are those of its messages of type \<open>event\<close>, in order, whatever
  other headers of the ten value types they carry and in whatever order; fewer than sixteen bytes of a
  further message end the list. Names are shorter than 256 bytes, strings and byte arrays shorter than
  65536 and a message shorter than 4 GiB, as their length fields require.
\<close>

theorem eventStream_round_trip:
  assumes "list_all message_ok ms" "length short < 16"
  shows "eventStreamPayloads (concat (map enc_message ms) @ short) =
    map esPayload (filter (\<lambda>m. msg_type (esHeaders m) = ''event'') ms)"
  using assms by (rule eventStream_all)

theorem eventStream_round_trip_witness:
  "eventStreamPayloads (concat (map enc_message
     [\<lparr>esHeaders = [(''id'', EsUuid (replicate 16 7)), ('':message-type'', EsString ''event'')],
       esPayload = [0x7b, 0x7d], esPreludeCRC = [0, 0, 0, 0], esCRC = [0, 0, 0, 0]\<rparr>]) @ [1]) = [[0x7b, 0x7d]]"
  using eventStream_round_trip [of
     "[\<lparr>esHeaders = [(''id'', EsUuid (replicate 16 7)), ('':message-type'', EsString ''event'')],
       esPayload = [0x7b, 0x7d], esPreludeCRC = [0, 0, 0, 0], esCRC = [0, 0, 0, 0]\<rparr>]" "[1]"]
  by (simp add: message_ok_def hdr_ok_def enc_hdrs_def enc_hdr_def)

end
