(* ===== verification/Llm_Usage.thy ===== *)
theory Llm_Usage
  imports Llm_Provider Llm_Body
begin

text \<open>
  Token accounting, \<open>src/llm/usage.go\<close>: the counts of every provider's responses are gathered in a
  tally and normalised into disjoint fields. The JSON decoder, which fills a \<open>document\<close> by the tags of
  its fields, is the argument \<open>unmarshal\<close>. A pointer to an integer is an option; every decoded number has
  its own address, so comparing the pointers of a tally before and after tells whether one was set.
\<close>

record Usage =
  Input :: int
  CachedInput :: int
  CacheWrite :: int
  Output :: int
  Reasoning :: int

definition Usage_Total :: "Usage \<Rightarrow> int" where
  "Usage_Total u = wrap64 (Input u + CachedInput u + CacheWrite u + Output u + Reasoning u)"

text \<open>
  The details structs, with one field each, are options of that field: absent, or its value, 0 where
  the JSON leaves it out.
\<close>

datatype counts = Counts
  (PromptTokens: "int option") (CompletionTokens: "int option")
  (PromptCached: "int option") (CompletionReasoning: "int option")
  (InputTokens: "int option") (OutputTokens: "int option")
  (InputCached: "int option") (OutputReasoning: "int option")
  (CacheReadInputTokens: "int option") (CacheCreationInputTokens: "int option")
  (BedrockInputTokens: "int option") (BedrockOutputTokens: "int option")
  (BedrockCacheRead: "int option") (BedrockCacheWrite: "int option")
  (Tokens: "counts option") (BilledUnits: "counts option")

record geminiUsage =
  PromptTokenCount :: "int option"
  CandidatesTokenCount :: "int option"
  CachedContentTokenCount :: "int option"
  ThoughtsTokenCount :: "int option"
  ToolUsePromptTokenCount :: "int option"

record bedrockMetrics =
  InputTokenCount :: "int option"
  OutputTokenCount :: "int option"
  CacheReadInputTokenCount :: "int option"
  CacheWriteInputTokenCount :: "int option"

text \<open>The inner structs \<open>Message\<close> and \<open>Response\<close> are pairs of model and usage.\<close>

record document =
  dModel :: string
  dModelVersion :: string
  dUsage :: "counts option"
  dUsageMetadata :: "geminiUsage option"
  dMessage :: "(string \<times> counts option) option"
  dResponse :: "(string \<times> counts option) option"
  dMeta :: "counts option option"
  dInvocationMetrics :: "bedrockMetrics option"
  dInputTextTokenCount :: "int option"
  dBytes :: bytes

record tally =
  tModel :: string
  tFound :: bool
  tInput :: "int option"
  tCached :: "int option"
  tCacheWrite :: "int option"
  tOutput :: "int option"
  tReasoning :: "int option"
  inputIncludesCached :: bool
  outputIncludesReason :: bool

definition tally_zero :: tally where
  "tally_zero = \<lparr>tModel = [], tFound = False, tInput = None, tCached = None, tCacheWrite = None, tOutput = None,
     tReasoning = None, inputIncludesCached = False, outputIncludesReason = False\<rparr>"

text \<open>\<open>set\<close> and \<open>setV\<close>.\<close>

definition set_opt :: "int option \<Rightarrow> int option \<Rightarrow> int option" where
  "set_opt v dst = (if v \<noteq> None then v else dst)"

definition effective :: "counts \<Rightarrow> counts" where
  "effective c =
     (case Tokens c of
        Some t \<Rightarrow> t
      | None \<Rightarrow>
          (case BilledUnits c of
             Some b \<Rightarrow> if InputTokens c = None \<and> PromptTokens c = None then b else c
           | None \<Rightarrow> c))"

definition tally_counts :: "family \<Rightarrow> counts option \<Rightarrow> tally \<Rightarrow> tally" where
  "tally_counts f co t =
     (case co of
        None \<Rightarrow> t
      | Some c0 \<Rightarrow>
          (let c = effective c0 in
           if PromptTokens c \<noteq> None then
             t\<lparr>tInput := PromptTokens c, tOutput := set_opt (CompletionTokens c) (tOutput t),
               tCached := set_opt (PromptCached c) (tCached t),
               tReasoning := set_opt (CompletionReasoning c) (tReasoning t),
               inputIncludesCached := True, outputIncludesReason := True, tFound := True\<rparr>
           else if InputTokens c \<noteq> None \<or> OutputTokens c \<noteq> None then
             (let t1 = t\<lparr>tInput := set_opt (InputTokens c) (tInput t),
                         tOutput := set_opt (OutputTokens c) (tOutput t), tFound := True\<rparr> in
              if f = familyAnthropic \<or> CacheReadInputTokens c \<noteq> None \<or> CacheCreationInputTokens c \<noteq> None then
                t1\<lparr>tCached := set_opt (CacheReadInputTokens c) (tCached t),
                   tCacheWrite := set_opt (CacheCreationInputTokens c) (tCacheWrite t)\<rparr>
              else
                t1\<lparr>tCached := set_opt (InputCached c) (tCached t),
                   inputIncludesCached := inputIncludesCached t \<or> InputCached c \<noteq> None,
                   tReasoning := set_opt (OutputReasoning c) (tReasoning t),
                   outputIncludesReason := outputIncludesReason t \<or> OutputReasoning c \<noteq> None\<rparr>)
           else if BedrockInputTokens c \<noteq> None \<or> BedrockOutputTokens c \<noteq> None then
             t\<lparr>tInput := set_opt (BedrockInputTokens c) (tInput t),
               tOutput := set_opt (BedrockOutputTokens c) (tOutput t),
               tCached := set_opt (BedrockCacheRead c) (tCached t),
               tCacheWrite := set_opt (BedrockCacheWrite c) (tCacheWrite t), tFound := True\<rparr>
           else t))"

definition named :: "(string \<times> counts option) option \<Rightarrow> string" where
  "named m = (case m of Some (model, _) \<Rightarrow> model | None \<Rightarrow> [])"

definition tally_model :: "document \<Rightarrow> tally \<Rightarrow> tally" where
  "tally_model d t =
     (if named (dMessage d) \<noteq> [] then t\<lparr>tModel := named (dMessage d)\<rparr>
      else if named (dResponse d) \<noteq> [] then t\<lparr>tModel := named (dResponse d)\<rparr>
      else if dModelVersion d \<noteq> [] then t\<lparr>tModel := dModelVersion d\<rparr>
      else if dModel d \<noteq> [] then t\<lparr>tModel := dModel d\<rparr>
      else t)"

definition tally_gemini :: "geminiUsage option \<Rightarrow> tally \<Rightarrow> tally" where
  "tally_gemini go t =
     (case go of
        None \<Rightarrow> t
      | Some g \<Rightarrow>
          if PromptTokenCount g \<noteq> None \<or> CandidatesTokenCount g \<noteq> None then
            (let inp = (case (PromptTokenCount g, ToolUsePromptTokenCount g) of
                          (Some i, Some tu) \<Rightarrow> Some (wrap64 (i + tu))
                        | (i, _) \<Rightarrow> i) in
             t\<lparr>tInput := set_opt inp (tInput t), tOutput := set_opt (CandidatesTokenCount g) (tOutput t),
               tCached := set_opt (CachedContentTokenCount g) (tCached t),
               tReasoning := set_opt (ThoughtsTokenCount g) (tReasoning t),
               inputIncludesCached := True, tFound := True\<rparr>)
          else t)"

definition tally_metrics :: "bedrockMetrics option \<Rightarrow> tally \<Rightarrow> tally" where
  "tally_metrics mo t =
     (case mo of
        None \<Rightarrow> t
      | Some m \<Rightarrow>
          if InputTokenCount m \<noteq> None \<or> OutputTokenCount m \<noteq> None then
            t\<lparr>tInput := set_opt (InputTokenCount m) (tInput t), tOutput := set_opt (OutputTokenCount m) (tOutput t),
              tCached := set_opt (CacheReadInputTokenCount m) (tCached t),
              tCacheWrite := set_opt (CacheWriteInputTokenCount m) (tCacheWrite t), tFound := True\<rparr>
          else t)"

definition tally_flat :: "family \<Rightarrow> document \<Rightarrow> tally \<Rightarrow> tally" where
  "tally_flat f d t0 =
     (let t = tally_model d t0;
          t = tally_counts f (dUsage d) t;
          t = (case dMessage d of Some (_, u) \<Rightarrow> tally_counts f u t | None \<Rightarrow> t);
          t = (case dResponse d of Some (_, u) \<Rightarrow> tally_counts f u t | None \<Rightarrow> t);
          t = (case dMeta d of Some b \<Rightarrow> tally_counts f b t | None \<Rightarrow> t);
          t = tally_gemini (dUsageMetadata d) t;
          t = tally_metrics (dInvocationMetrics d) t in
      (case dInputTextTokenCount d of Some n \<Rightarrow> t\<lparr>tInput := Some n, tFound := True\<rparr> | None \<Rightarrow> t))"

text \<open>
  \<open>document\<close> calls itself on the JSON in \<open>Bytes\<close>. The fuel bounds the nesting: \<open>Bytes\<close> is decoded from
  base64 inside the document's text, so it is shorter, and the length of the text is fuel enough.
\<close>

fun tally_document :: "(bytes \<Rightarrow> document option) \<Rightarrow> nat \<Rightarrow> family \<Rightarrow> document \<Rightarrow> tally \<Rightarrow> tally" where
  "tally_document unmarshal 0 f d t = tally_flat f d t"
| "tally_document unmarshal (Suc n) f d t =
     (let t = tally_flat f d t in
      if dBytes d \<noteq> [] then
        (case unmarshal (dBytes d) of Some inner \<Rightarrow> tally_document unmarshal n f inner t | None \<Rightarrow> t)
      else t)"

definition or0 :: "int option \<Rightarrow> int" where
  "or0 p = (case p of None \<Rightarrow> 0 | Some v \<Rightarrow> v)"

definition tally_usage :: "tally \<Rightarrow> Usage" where
  "tally_usage t =
     (let inp = (if inputIncludesCached t then wrap64 (or0 (tInput t) - or0 (tCached t)) else or0 (tInput t));
          out = (if outputIncludesReason t then wrap64 (or0 (tOutput t) - or0 (tReasoning t)) else or0 (tOutput t)) in
      \<lparr>Input = (if inp < 0 then 0 else inp), CachedInput = or0 (tCached t), CacheWrite = or0 (tCacheWrite t),
       Output = (if out < 0 then 0 else out), Reasoning = or0 (tReasoning t)\<rparr>)"

definition bedrockHeaderUsage :: "Header \<Rightarrow> Usage option" where
  "bedrockHeaderUsage h =
     (case atoi (header_get h ''X-Amzn-Bedrock-Input-Token-Count'') of (inp, errIn) \<Rightarrow>
        case atoi (header_get h ''X-Amzn-Bedrock-Output-Token-Count'') of (out, errOut) \<Rightarrow>
          if errIn \<noteq> None \<and> errOut \<noteq> None then None
          else Some
            \<lparr>Input = inp,
             CachedInput = (case parse_int (header_get h ''X-Amzn-Bedrock-Cache-Read-Input-Token-Count'') of
                              Some v \<Rightarrow> v | None \<Rightarrow> 0),
             CacheWrite = (case parse_int (header_get h ''X-Amzn-Bedrock-Cache-Write-Input-Token-Count'') of
                              Some v \<Rightarrow> v | None \<Rightarrow> 0),
             Output = out, Reasoning = 0\<rparr>)"

definition tally_payload :: "(bytes \<Rightarrow> document option) \<Rightarrow> family \<Rightarrow> bytes \<Rightarrow> tally \<Rightarrow> tally" where
  "tally_payload unmarshal f p t =
     (case unmarshal p of None \<Rightarrow> t | Some d \<Rightarrow> tally_document unmarshal (length p) f d t)"

definition extractUsage ::
  "(string \<Rightarrow> string) \<Rightarrow> (bytes \<Rightarrow> document option) \<Rightarrow> family \<Rightarrow> Header \<Rightarrow> bytes \<Rightarrow> string \<times> Usage \<times> bool" where
  "extractUsage uniLower unmarshal f header body =
     (let t = fold (tally_payload unmarshal f) (payloads uniLower (header_get header ''Content-Type'') body) tally_zero in
      case (if f = familyBedrock then bedrockHeaderUsage header else None) of
        Some hu \<Rightarrow> (tModel t, hu, True)
      | None \<Rightarrow> (tModel t, tally_usage t, tFound t))"

section \<open>What providers report\<close>

text \<open>
  A usage report, from a complete response or an event of a stream: the counts it has, by what they count.
  The formats differ in where a document holds the counts, which counts exist, and in what the input and
  the output include.
\<close>

datatype format = OpenAIChat | OpenAIResponses | AnthropicMessages | BedrockConverse | GeminiGenerate

record report =
  rInput :: "int option"
  rTool :: "int option"
  rCached :: "int option"
  rCacheWrite :: "int option"
  rOutput :: "int option"
  rReasoning :: "int option"

definition no_report :: report where
  "no_report = \<lparr>rInput = None, rTool = None, rCached = None, rCacheWrite = None, rOutput = None, rReasoning = None\<rparr>"

fun format_family :: "format \<Rightarrow> family" where
  "format_family OpenAIChat = familyOpenAI"
| "format_family OpenAIResponses = familyOpenAI"
| "format_family AnthropicMessages = familyAnthropic"
| "format_family BedrockConverse = familyBedrock"
| "format_family GeminiGenerate = familyGemini"

definition no_counts :: counts where
  "no_counts = Counts None None None None None None None None None None None None None None None None"

text \<open>
  What a document says of usage, apart from the names of models; an absent object and one without counts
  say the same.
\<close>

record usage_parts =
  uUsage :: "counts option"
  uMessage :: "counts option"
  uResponse :: "counts option"
  uMeta :: "counts option"
  uMetadata :: "geminiUsage option"
  uMetrics :: "bedrockMetrics option"
  uTextCount :: "int option"
  uBytes :: bytes

definition said :: "counts option \<Rightarrow> counts option" where
  "said u = (if u = Some no_counts then None else u)"

definition inner :: "(string \<times> counts option) option \<Rightarrow> counts option" where
  "inner m = (case m of None \<Rightarrow> None | Some (_, u) \<Rightarrow> u)"

definition usage_parts :: "document \<Rightarrow> usage_parts" where
  "usage_parts d =
     \<lparr>uUsage = said (dUsage d), uMessage = said (inner (dMessage d)), uResponse = said (inner (dResponse d)),
      uMeta = said (case dMeta d of None \<Rightarrow> None | Some u \<Rightarrow> u), uMetadata = dUsageMetadata d,
      uMetrics = dInvocationMetrics d, uTextCount = dInputTextTokenCount d, uBytes = dBytes d\<rparr>"

definition no_parts :: usage_parts where
  "no_parts = \<lparr>uUsage = None, uMessage = None, uResponse = None, uMeta = None, uMetadata = None, uMetrics = None,
     uTextCount = None, uBytes = []\<rparr>"

text \<open>
  The places of a report in each format: the field \<open>usage\<close>, that of the inner \<open>response\<close> or \<open>message\<close>, or
  \<open>usageMetadata\<close>.
\<close>

fun places :: "format \<Rightarrow> report \<Rightarrow> usage_parts list" where
  "places OpenAIChat r =
     [no_parts\<lparr>uUsage := Some (Counts (rInput r) (rOutput r) (rCached r) (rReasoning r) None None None None None None None None None None None None)\<rparr>]"
| "places OpenAIResponses r =
     (let c = Some (Counts None None None None (rInput r) (rOutput r) (rCached r) (rReasoning r) None None None None None None None None) in
      [no_parts\<lparr>uResponse := c\<rparr>, no_parts\<lparr>uUsage := c\<rparr>])"
| "places AnthropicMessages r =
     (let c = Some (Counts None None None None (rInput r) (rOutput r) None None (rCached r) (rCacheWrite r) None None None None None None) in
      [no_parts\<lparr>uMessage := c\<rparr>, no_parts\<lparr>uUsage := c\<rparr>])"
| "places BedrockConverse r =
     [no_parts\<lparr>uUsage := Some (Counts None None None None None None None None None None (rInput r) (rOutput r) (rCached r) (rCacheWrite r) None None)\<rparr>]"
| "places GeminiGenerate r =
     [no_parts\<lparr>uMetadata := Some \<lparr>PromptTokenCount = rInput r, CandidatesTokenCount = rOutput r,
       CachedContentTokenCount = rCached r, ThoughtsTokenCount = rReasoning r, ToolUsePromptTokenCount = rTool r\<rparr>\<rparr>]"

text \<open>The counts a format has, one of the input and the output among them; a chat report has the prompt.\<close>

fun report_of :: "format \<Rightarrow> report \<Rightarrow> bool" where
  "report_of OpenAIChat r \<longleftrightarrow> rInput r \<noteq> None \<and> rTool r = None \<and> rCacheWrite r = None"
| "report_of OpenAIResponses r \<longleftrightarrow> (rInput r \<noteq> None \<or> rOutput r \<noteq> None) \<and> rTool r = None \<and> rCacheWrite r = None"
| "report_of AnthropicMessages r \<longleftrightarrow> (rInput r \<noteq> None \<or> rOutput r \<noteq> None) \<and> rTool r = None \<and> rReasoning r = None"
| "report_of BedrockConverse r \<longleftrightarrow> (rInput r \<noteq> None \<or> rOutput r \<noteq> None) \<and> rTool r = None \<and> rReasoning r = None"
| "report_of GeminiGenerate r \<longleftrightarrow> (rInput r \<noteq> None \<or> rOutput r \<noteq> None) \<and> rCacheWrite r = None"

text \<open>
  Counts of a stream are cumulative, so the latest value of each count holds. The tool-use prompt goes with
  the prompt it was reported with.
\<close>

definition newer :: "int option \<Rightarrow> int option \<Rightarrow> int option" where
  "newer new old = (case new of None \<Rightarrow> old | Some n \<Rightarrow> Some n)"

definition update_report :: "report \<Rightarrow> report \<Rightarrow> report" where
  "update_report new old =
     \<lparr>rInput = newer (rInput new) (rInput old), rTool = (if rInput new = None then rTool old else rTool new),
      rCached = newer (rCached new) (rCached old), rCacheWrite = newer (rCacheWrite new) (rCacheWrite old),
      rOutput = newer (rOutput new) (rOutput old), rReasoning = newer (rReasoning new) (rReasoning old)\<rparr>"

definition latest :: "report option list \<Rightarrow> report" where
  "latest ros = fold (\<lambda>ro r. case ro of None \<Rightarrow> r | Some new \<Rightarrow> update_report new r) ros no_report"

text \<open>
  What is billed: OpenAI's input includes the cached part and its output the reasoning; Anthropic and
  Bedrock count the input, the cache reads and the cache writes apart; Gemini's prompt includes the cached
  part and its candidates leave out the thoughts.
\<close>

fun billed :: "format \<Rightarrow> report \<Rightarrow> int" where
  "billed OpenAIChat r = or0 (rInput r) + or0 (rOutput r)"
| "billed OpenAIResponses r = or0 (rInput r) + or0 (rOutput r)"
| "billed AnthropicMessages r = or0 (rInput r) + or0 (rCached r) + or0 (rCacheWrite r) + or0 (rOutput r)"
| "billed BedrockConverse r = or0 (rInput r) + or0 (rCached r) + or0 (rCacheWrite r) + or0 (rOutput r)"
| "billed GeminiGenerate r = or0 (rInput r) + or0 (rTool r) + or0 (rOutput r) + or0 (rReasoning r)"

text \<open>Counts a provider can report: not negative, parts within their whole, and far from overflow.\<close>

definition count_ok :: "int option \<Rightarrow> bool" where
  "count_ok n \<longleftrightarrow> 0 \<le> or0 n \<and> or0 n < 2 ^ 60"

definition counts_ok :: "format \<Rightarrow> report \<Rightarrow> bool" where
  "counts_ok fmt r \<longleftrightarrow>
     list_all count_ok [rInput r, rTool r, rCached r, rCacheWrite r, rOutput r, rReasoning r] \<and>
     (if fmt = OpenAIChat \<or> fmt = OpenAIResponses then or0 (rCached r) \<le> or0 (rInput r) \<and> or0 (rReasoning r) \<le> or0 (rOutput r)
      else if fmt = GeminiGenerate then or0 (rCached r) \<le> or0 (rInput r) + or0 (rTool r)
      else True)"

section \<open>The tally holds the latest counts\<close>

definition with_tool :: "report \<Rightarrow> int option" where
  "with_tool r = (case (rInput r, rTool r) of (Some i, Some tu) \<Rightarrow> Some (wrap64 (i + tu)) | (i, _) \<Rightarrow> i)"

definition reported :: "report \<Rightarrow> bool" where
  "reported r \<longleftrightarrow> rInput r \<noteq> None \<or> rOutput r \<noteq> None"

definition tally_is :: "format \<Rightarrow> report \<Rightarrow> tally \<Rightarrow> bool" where
  "tally_is fmt r t \<longleftrightarrow>
     tInput t = with_tool r \<and> tCached t = rCached r \<and> tCacheWrite t = rCacheWrite r \<and> tOutput t = rOutput r \<and>
     tReasoning t = rReasoning r \<and> tFound t = reported r \<and>
     inputIncludesCached t =
       (case fmt of OpenAIChat \<Rightarrow> reported r | GeminiGenerate \<Rightarrow> reported r | OpenAIResponses \<Rightarrow> rCached r \<noteq> None | _ \<Rightarrow> False) \<and>
     outputIncludesReason t =
       (case fmt of OpenAIChat \<Rightarrow> reported r | OpenAIResponses \<Rightarrow> rReasoning r \<noteq> None | _ \<Rightarrow> False)"

lemmas tally_defs = tally_counts_def tally_gemini_def tally_metrics_def effective_def set_opt_def newer_def Let_def

definition tally_parts :: "family \<Rightarrow> usage_parts \<Rightarrow> tally \<Rightarrow> tally" where
  "tally_parts f u t0 =
     (let t = tally_counts f (uMeta u) (tally_counts f (uResponse u) (tally_counts f (uMessage u) (tally_counts f (uUsage u) t0)));
          t = tally_metrics (uMetrics u) (tally_gemini (uMetadata u) t) in
      (case uTextCount u of Some n \<Rightarrow> t\<lparr>tInput := Some n, tFound := True\<rparr> | None \<Rightarrow> t))"

lemma tally_said: "tally_counts f (said u) t = tally_counts f u t"
  by (simp add: said_def tally_counts_def no_counts_def effective_def)

lemma tally_inner: "(case m of Some (_, u) \<Rightarrow> tally_counts f u t | None \<Rightarrow> t) = tally_counts f (inner m) t"
  by (simp add: inner_def tally_counts_def split: option.splits)

lemma tally_meta: "(case m of Some u \<Rightarrow> tally_counts f u t | None \<Rightarrow> t) = tally_counts f (case m of None \<Rightarrow> None | Some u \<Rightarrow> u) t"
  by (simp add: tally_counts_def split: option.splits)

lemma tally_flat_parts: "tally_flat f d t = tally_parts f (usage_parts d) (tally_model d t)"
  unfolding tally_flat_def tally_parts_def Let_def tally_inner tally_meta
  by (simp add: usage_parts_def tally_said split: option.splits)

lemma tally_model_keeps: "tally_is fmt r (tally_model d t) = tally_is fmt r t"
  by (simp add: tally_model_def tally_is_def)

lemma tally_zero_is: "tally_is fmt no_report tally_zero"
  by (cases fmt) (simp_all add: tally_is_def no_report_def tally_zero_def with_tool_def reported_def)

lemma set_opt_newer: "set_opt v dst = newer v dst"
  by (simp add: set_opt_def newer_def split: option.splits)

lemma newer_None [simp]: "newer None old = old" "newer (Some n) old = Some n" "newer new old = None \<longleftrightarrow> new = None \<and> old = None"
  by (simp_all add: newer_def split: option.splits)

text \<open>The counts a latest report may have in a format.\<close>

definition fits :: "format \<Rightarrow> report \<Rightarrow> bool" where
  "fits fmt r \<longleftrightarrow>
     (if fmt = GeminiGenerate then rInput r = None \<longrightarrow> rTool r = None else rTool r = None) \<and>
     (if fmt = AnthropicMessages \<or> fmt = BedrockConverse then rReasoning r = None else rCacheWrite r = None)"

lemma fits_no_report: "fits fmt no_report"
  by (simp add: fits_def no_report_def)

lemma fits_update: "fits fmt old \<Longrightarrow> report_of fmt r \<Longrightarrow> fits fmt (update_report r old)"
  by (cases fmt) (auto simp: fits_def update_report_def)

lemma update_report_sel [simp]:
  "rInput (update_report new old) = newer (rInput new) (rInput old)"
  "rCached (update_report new old) = newer (rCached new) (rCached old)"
  "rCacheWrite (update_report new old) = newer (rCacheWrite new) (rCacheWrite old)"
  "rOutput (update_report new old) = newer (rOutput new) (rOutput old)"
  "rReasoning (update_report new old) = newer (rReasoning new) (rReasoning old)"
  by (simp_all add: update_report_def)

lemma with_tool_update: "with_tool (update_report new old) = newer (with_tool new) (with_tool old)"
  by (cases "rInput new") (simp_all add: with_tool_def update_report_def split: option.splits)

lemma with_tool_none: "rTool r = None \<Longrightarrow> with_tool r = rInput r"
  by (simp add: with_tool_def split: option.splits)

text \<open>The counts of each format, as \<open>counts\<close> takes them in.\<close>

lemma counts_none [simp]: "tally_counts f None t = t"
  by (simp add: tally_counts_def)

lemma gemini_none [simp]: "tally_gemini None t = t" "tally_metrics None t = t"
  by (simp_all add: tally_gemini_def tally_metrics_def)

lemma counts_chat:
  "tally_counts f (Some (Counts (Some p) k c g None None None None None None None None None None None None)) t =
     t\<lparr>tInput := Some p, tOutput := newer k (tOutput t), tCached := newer c (tCached t), tReasoning := newer g (tReasoning t),
       inputIncludesCached := True, outputIncludesReason := True, tFound := True\<rparr>"
  by (simp add: tally_counts_def effective_def set_opt_newer Let_def)

lemma counts_responses:
  "i \<noteq> None \<or> k \<noteq> None \<Longrightarrow>
   tally_counts familyOpenAI (Some (Counts None None None None i k c g None None None None None None None None)) t =
     t\<lparr>tInput := newer i (tInput t), tOutput := newer k (tOutput t), tFound := True, tCached := newer c (tCached t),
       inputIncludesCached := inputIncludesCached t \<or> c \<noteq> None, tReasoning := newer g (tReasoning t),
       outputIncludesReason := outputIncludesReason t \<or> g \<noteq> None\<rparr>"
  by (simp add: tally_counts_def effective_def set_opt_newer Let_def)

lemma counts_anthropic:
  "i \<noteq> None \<or> k \<noteq> None \<Longrightarrow>
   tally_counts familyAnthropic (Some (Counts None None None None i k None None c w None None None None None None)) t =
     t\<lparr>tInput := newer i (tInput t), tOutput := newer k (tOutput t), tFound := True, tCached := newer c (tCached t),
       tCacheWrite := newer w (tCacheWrite t)\<rparr>"
  by (simp add: tally_counts_def effective_def set_opt_newer Let_def)

lemma counts_bedrock:
  "i \<noteq> None \<or> k \<noteq> None \<Longrightarrow>
   tally_counts f (Some (Counts None None None None None None None None None None i k c w None None)) t =
     t\<lparr>tInput := newer i (tInput t), tOutput := newer k (tOutput t), tCached := newer c (tCached t),
       tCacheWrite := newer w (tCacheWrite t), tFound := True\<rparr>"
  by (simp add: tally_counts_def effective_def set_opt_newer Let_def)

lemma counts_gemini:
  "rInput r \<noteq> None \<or> rOutput r \<noteq> None \<Longrightarrow>
   tally_gemini (Some \<lparr>PromptTokenCount = rInput r, CandidatesTokenCount = rOutput r, CachedContentTokenCount = rCached r,
       ThoughtsTokenCount = rReasoning r, ToolUsePromptTokenCount = rTool r\<rparr>) t =
     t\<lparr>tInput := newer (with_tool r) (tInput t), tOutput := newer (rOutput r) (tOutput t), tCached := newer (rCached r) (tCached t),
       tReasoning := newer (rReasoning r) (tReasoning t), inputIncludesCached := True, tFound := True\<rparr>"
  by (simp add: tally_gemini_def set_opt_newer with_tool_def Let_def)

lemma tally_report:
  assumes "report_of fmt r" "u \<in> set (places fmt r)" "tally_is fmt old t"
  shows "tally_is fmt (update_report r old) (tally_parts (format_family fmt) u t)"
proof (cases fmt)
  case OpenAIChat
  then obtain p where "rInput r = Some p" "rTool r = None" "rCacheWrite r = None" using assms(1) by auto
  with assms OpenAIChat show ?thesis
    by (simp add: tally_parts_def no_parts_def counts_chat tally_is_def reported_def with_tool_update with_tool_none)
next
  case OpenAIResponses
  then have "tally_parts familyOpenAI u t = tally_counts familyOpenAI
      (Some (Counts None None None None (rInput r) (rOutput r) (rCached r) (rReasoning r) None None None None None None None None)) t"
    using assms(2) by (auto simp: tally_parts_def no_parts_def Let_def)
  with assms OpenAIResponses show ?thesis
    by (auto simp: counts_responses tally_is_def reported_def with_tool_update with_tool_none)
next
  case AnthropicMessages
  then have "tally_parts familyAnthropic u t = tally_counts familyAnthropic
      (Some (Counts None None None None (rInput r) (rOutput r) None None (rCached r) (rCacheWrite r) None None None None None None)) t"
    using assms(2) by (auto simp: tally_parts_def no_parts_def Let_def)
  with assms AnthropicMessages show ?thesis
    by (auto simp: counts_anthropic tally_is_def reported_def with_tool_update with_tool_none)
next
  case BedrockConverse
  with assms show ?thesis
    by (auto simp: tally_parts_def no_parts_def counts_bedrock tally_is_def reported_def with_tool_update with_tool_none)
next
  case GeminiGenerate
  with assms show ?thesis
    by (auto simp: tally_parts_def no_parts_def counts_gemini tally_is_def reported_def with_tool_update)
qed

section \<open>Streams\<close>

text \<open>
  The documents of a streamed response: one report each, in one format and with or without the name of a
  model, and documents that say nothing of usage or are not decoded.
\<close>

definition carries :: "(bytes \<Rightarrow> document option) \<Rightarrow> format \<Rightarrow> bytes \<Rightarrow> report option \<Rightarrow> bool" where
  "carries unmarshal fmt p ro \<longleftrightarrow>
     (case unmarshal p of
        None \<Rightarrow> ro = None
      | Some d \<Rightarrow>
          (case ro of
             None \<Rightarrow> usage_parts d = no_parts
           | Some r \<Rightarrow> report_of fmt r \<and> usage_parts d \<in> set (places fmt r)))"

lemma places_bytes: "u \<in> set (places fmt r) \<Longrightarrow> uBytes u = []"
  by (cases fmt) (auto simp: no_parts_def Let_def)

lemma tally_document_no_bytes: "dBytes d = [] \<Longrightarrow> tally_document unmarshal n f d t = tally_flat f d t"
  by (cases n) simp_all

lemma tally_no_parts: "tally_parts f no_parts t = t"
  by (simp add: tally_parts_def no_parts_def tally_defs)

lemma bytes_of_parts: "uBytes (usage_parts d) = dBytes d"
  by (simp add: usage_parts_def)

lemma tally_payload_step:
  assumes "carries unmarshal fmt p ro" "tally_is fmt old t"
  shows "tally_is fmt (case ro of None \<Rightarrow> old | Some new \<Rightarrow> update_report new old) (tally_payload unmarshal (format_family fmt) p t)"
proof (cases "unmarshal p")
  case None
  with assms show ?thesis by (simp add: carries_def tally_payload_def)
next
  case (Some d)
  show ?thesis
  proof (cases ro)
    case None
    with Some assms(1) have "usage_parts d = no_parts" by (simp add: carries_def)
    moreover from this have "dBytes d = []" using bytes_of_parts [of d] by (simp add: no_parts_def)
    ultimately show ?thesis
      using Some None assms(2) by (simp add: tally_payload_def tally_document_no_bytes tally_flat_parts tally_no_parts tally_model_keeps)
  next
    case (Some r)
    with \<open>unmarshal p = Some d\<close> assms(1) have r: "report_of fmt r" "usage_parts d \<in> set (places fmt r)" by (simp_all add: carries_def)
    then have "dBytes d = []" using places_bytes bytes_of_parts by metis
    moreover have "tally_is fmt old (tally_model d t)" using assms(2) by (simp add: tally_model_keeps)
    ultimately show ?thesis
      using tally_report [OF r] Some \<open>unmarshal p = Some d\<close>
      by (simp add: tally_payload_def tally_document_no_bytes tally_flat_parts)
  qed
qed

definition update_by :: "report option \<Rightarrow> report \<Rightarrow> report" where
  "update_by ro r = (case ro of None \<Rightarrow> r | Some new \<Rightarrow> update_report new r)"

lemma fits_update_by: "carries unmarshal fmt p ro \<Longrightarrow> fits fmt old \<Longrightarrow> fits fmt (update_by ro old)"
  by (auto simp: carries_def update_by_def fits_update split: option.splits)

lemma tally_payloads:
  assumes "list_all2 (carries unmarshal fmt) ps ros" "tally_is fmt old t" "fits fmt old"
  shows "tally_is fmt (fold update_by ros old) (fold (tally_payload unmarshal (format_family fmt)) ps t) \<and> fits fmt (fold update_by ros old)"
  using assms
proof (induction arbitrary: old t rule: list_all2_induct)
  case (Cons p ps ro ros)
  show ?case
    using Cons.IH [OF tally_payload_step [OF Cons.hyps(1) Cons.prems(1), folded update_by_def] fits_update_by [OF Cons.hyps(1) Cons.prems(2)]]
    by simp
qed simp

lemma tally_latest:
  assumes "list_all2 (carries unmarshal fmt) ps ros"
  shows "tally_is fmt (latest ros) (fold (tally_payload unmarshal (format_family fmt)) ps tally_zero) \<and> fits fmt (latest ros)"
  using tally_payloads [OF assms tally_zero_is fits_no_report] by (simp add: latest_def update_by_def [abs_def])

lemma tally_usage_billed:
  assumes "tally_is fmt r t" "counts_ok fmt r" "reported r" "fits fmt r"
  shows "Usage_Total (tally_usage t) = billed fmt r \<and>
    list_all (\<lambda>n. 0 \<le> n) [Input (tally_usage t), CachedInput (tally_usage t), CacheWrite (tally_usage t), Output (tally_usage t), Reasoning (tally_usage t)]"
proof -
  have "rInput r = None \<Longrightarrow> rTool r = None" using assms(4) by (simp add: fits_def split: if_splits)
  then have tool: "or0 (with_tool r) = or0 (rInput r) + or0 (rTool r)"
    using assms(2) by (cases "rInput r"; cases "rTool r") (simp_all add: with_tool_def or0_def counts_ok_def count_ok_def)
  have none: "or0 None = 0" by (simp add: or0_def)
  have bounds: "0 \<le> or0 (rInput r)" "or0 (rInput r) < 2 ^ 60" "0 \<le> or0 (rTool r)" "or0 (rTool r) < 2 ^ 60"
    "0 \<le> or0 (rCached r)" "or0 (rCached r) < 2 ^ 60" "0 \<le> or0 (rCacheWrite r)" "or0 (rCacheWrite r) < 2 ^ 60"
    "0 \<le> or0 (rOutput r)" "or0 (rOutput r) < 2 ^ 60" "0 \<le> or0 (rReasoning r)" "or0 (rReasoning r) < 2 ^ 60"
    using assms(2) by (simp_all add: counts_ok_def count_ok_def)
  show ?thesis
  proof (cases fmt)
    case OpenAIChat
    then show ?thesis using assms none tool bounds
      by (simp add: tally_is_def tally_usage_def Usage_Total_def counts_ok_def fits_def Let_def)
  next
    case OpenAIResponses
    then show ?thesis using assms none tool bounds
      by (cases "rCached r"; cases "rReasoning r") (simp_all add: tally_is_def tally_usage_def Usage_Total_def counts_ok_def fits_def Let_def)
  next
    case AnthropicMessages
    then show ?thesis using assms none tool bounds
      by (simp add: tally_is_def tally_usage_def Usage_Total_def counts_ok_def fits_def Let_def)
  next
    case BedrockConverse
    then show ?thesis using assms none tool bounds
      by (simp add: tally_is_def tally_usage_def Usage_Total_def counts_ok_def fits_def Let_def)
  next
    case GeminiGenerate
    then show ?thesis using assms none tool bounds
      by (simp add: tally_is_def tally_usage_def Usage_Total_def counts_ok_def fits_def Let_def)
  qed
qed

text \<open>How the documents travel: as server-sent events, or as the payloads of AWS event-stream messages.\<close>

datatype framing = SSE "sse_event list" | AWS "es_message list" bytes

fun body_of :: "framing \<Rightarrow> bytes" where
  "body_of (SSE es) = concat (map enc_event es)"
| "body_of (AWS ms short) = concat (map enc_message ms) @ short"

fun texts_of :: "framing \<Rightarrow> bytes list" where
  "texts_of (SSE es) = delivered es"
| "texts_of (AWS ms short) = map esPayload (filter (\<lambda>m. msg_type (esHeaders m) = ''event'') ms)"

fun framing_ok :: "string \<Rightarrow> framing \<Rightarrow> bool" where
  "framing_ok ct (SSE es) \<longleftrightarrow> str_contains ''text/event-stream'' ct \<and> list_all event_ok es"
| "framing_ok ct (AWS ms short) \<longleftrightarrow>
     \<not> str_contains ''text/event-stream'' ct \<and> str_contains ''application/vnd.amazon.eventstream'' ct \<and>
     list_all message_ok ms \<and> length short < 16"

lemma payloads_framed: "framing_ok (ToLower uniLower ct) fr \<Longrightarrow> payloads uniLower ct (body_of fr) = texts_of fr"
  by (cases fr) (simp_all add: payloads_def sse_all eventStream_all Let_def)

text \<open>
  The tokens recorded for a streamed response are those the provider bills: whatever documents the stream
  has, the latest counts, made disjoint and never negative, add up to the total.
\<close>

lemma extractUsage_billed:
  assumes "framing_ok (ToLower uniLower (header_get header ''Content-Type'')) fr" "list_all2 (carries unmarshal fmt) (texts_of fr) ros"
    "reported (latest ros)" "counts_ok fmt (latest ros)" "fmt = BedrockConverse \<longrightarrow> bedrockHeaderUsage header = None"
  shows "\<exists>model u. extractUsage uniLower unmarshal (format_family fmt) header (body_of fr) = (model, u, True) \<and>
    Usage_Total u = billed fmt (latest ros) \<and>
    list_all (\<lambda>n. 0 \<le> n) [Input u, CachedInput u, CacheWrite u, Output u, Reasoning u]"
proof -
  let ?t = "fold (tally_payload unmarshal (format_family fmt)) (texts_of fr) tally_zero"
  have t: "tally_is fmt (latest ros) ?t" "fits fmt (latest ros)" using tally_latest [OF assms(2)] by simp_all
  have "tFound ?t" using t(1) assms(3) by (simp add: tally_is_def)
  moreover have "(if format_family fmt = familyBedrock then bedrockHeaderUsage header else None) = None"
    using assms(5) by (cases fmt) simp_all
  ultimately have "extractUsage uniLower unmarshal (format_family fmt) header (body_of fr) = (tModel ?t, tally_usage ?t, True)"
    by (simp add: extractUsage_def payloads_framed [OF assms(1)] Let_def)
  with tally_usage_billed [OF t(1) assms(4,3) t(2)] show ?thesis by simp
qed

end
