(* ===== verification/Llm_Conn.thy ===== *)
theory Llm_Conn
  imports Llm_Stream Llm_Usage
begin

text \<open>
  A captured connection, \<open>src/llm/conn.go\<close>: chunks are fed to the stream of their direction, two parser
  goroutines read the streams, and completed requests are handed to \<open>onExchange\<close>. The parsers work on
  what \<open>net/http\<close> and the HTTP/2 framer of \<open>golang.org/x/net\<close> read off the streams; here they take these
  messages and frames one at a time. Every handler holds the connection's mutex while it touches the
  state, so an execution is an interleaving of their steps.
\<close>

section \<open>Data\<close>

datatype Direction = Egress | Ingress

datatype Outcome =
    OutcomeNone | OutcomeCompleted | OutcomeNoUsage | OutcomeUndecodable | OutcomeTruncated
  | OutcomeMissedStart | OutcomeUnrecoverable | OutcomeOverflow | OutcomeAbandoned

definition maxBody :: nat where "maxBody = 8 * 2 ^ 20"
definition maxBuffered :: nat where "maxBuffered = 16 * 2 ^ 20"
definition maxSkip :: nat where "maxSkip = 64 * 2 ^ 20"

record Tag =
  tagProvider :: Provider
  tagHost :: string

record Exchange =
  eLLM :: bool
  eProvider :: Provider
  eServerAddress :: string
  eMethod :: string
  ePath :: string
  eStatusCode :: int
  eOperation :: Operation
  eModel :: string
  eStreaming :: bool
  eUsage :: Usage
  eOutcome :: Outcome
  eTraceParent :: string
  RequestStart :: u64
  FirstData :: u64
  ResponseEnd :: u64

text \<open>Durations are \<open>time.Duration\<close>, a signed 64-bit number of nanoseconds.\<close>

definition Exchange_Duration :: "Exchange \<Rightarrow> int" where
  "Exchange_Duration e =
     (if ResponseEnd e < RequestStart e \<or> RequestStart e = 0 then 0 else sint (ResponseEnd e - RequestStart e))"

definition TimeToFirstToken :: "Exchange \<Rightarrow> int" where
  "TimeToFirstToken e =
     (if \<not> eStreaming e \<or> FirstData e < RequestStart e \<or> RequestStart e = 0 then 0
      else sint (FirstData e - RequestStart e))"

datatype connState = stateNew | stateHTTP1 | stateHTTP2 | stateDead

record llm_request =
  lrMethod :: string
  lrPath :: string
  lrHost :: string
  lrTraceParent :: string
  lrStart :: u64

record h2stream =
  hReq :: "llm_request option"
  hStatus :: int
  hHeader :: Header
  hBody :: bytes
  hTruncated :: bool
  hFirstData :: u64
  hEnd :: u64
  hDone :: bool

text \<open>
  The connection; \<open>outcomes\<close> are the calls of \<open>onOutcome\<close> so far, oldest first.
\<close>

record Conn =
  cTag :: Tag
  cState :: connState
  missedStart :: bool
  egress :: stream
  ingress :: stream
  requests :: "llm_request list"
  streams :: "(u32 \<times> h2stream) list"
  firstIngress :: bool
  bytesFed :: "Direction \<Rightarrow> nat"
  heads :: "Direction \<Rightarrow> bytes"
  exchanges :: nat
  outcomes :: "Outcome list"

fun state_name :: "connState \<Rightarrow> string" where
  "state_name stateNew = ''new''"
| "state_name stateHTTP1 = ''http1''"
| "state_name stateHTTP2 = ''http2''"
| "state_name stateDead = ''dead''"

definition statsHeadLen :: nat where "statsHeadLen = 96"

definition NewConn :: "Tag \<Rightarrow> Conn" where
  "NewConn tag =
     \<lparr>cTag = tag, cState = stateNew, missedStart = False, egress = newStream maxBuffered,
      ingress = newStream maxBuffered, requests = [], streams = [], firstIngress = False,
      bytesFed = (\<lambda>_. 0), heads = (\<lambda>_. []), exchanges = 0, outcomes = []\<rparr>"

section \<open>Feeding\<close>

definition requestMethods :: "string list" where
  "requestMethods = [''POST '', ''GET '', ''PUT '', ''DELETE '', ''PATCH '', ''HEAD '', ''OPTIONS '']"

definition looksLikeRequestLine :: "bytes \<Rightarrow> bool" where
  "looksLikeRequestLine b = list_ex (\<lambda>m. prefix (bytes_of m) b) requestMethods"

definition ClientPreface :: bytes where
  "ClientPreface = bytes_of (''PRI * HTTP/2.0'' @ [CHR 0x0D, CHR 0x0A, CHR 0x0D, CHR 0x0A] @ ''SM'' @
     [CHR 0x0D, CHR 0x0A, CHR 0x0D, CHR 0x0A])"

definition conn_report :: "Outcome \<Rightarrow> Conn \<Rightarrow> Conn" where
  "conn_report out c = c\<lparr>outcomes := outcomes c @ [out]\<rparr>"

definition failLocked :: "Outcome \<Rightarrow> Conn \<Rightarrow> Conn" where
  "failLocked out c =
     (if cState c = stateDead then c
      else conn_report out (c\<lparr>cState := stateDead, egress := stream_close (egress c), ingress := stream_close (ingress c)\<rparr>))"

definition feed_first :: "Direction \<Rightarrow> bytes \<Rightarrow> Conn \<Rightarrow> Conn" where
  "feed_first dir data c =
     (if bytesFed c Egress = 0 \<and> bytesFed c Ingress = 0 \<and> data \<noteq> [] then c\<lparr>firstIngress := (dir = Ingress)\<rparr> else c)"

definition feed_head :: "Direction \<Rightarrow> bytes \<Rightarrow> Conn \<Rightarrow> Conn" where
  "feed_head dir data c =
     (let n = statsHeadLen - length (heads c dir) in
      if n > 0 \<and> data \<noteq> [] then c\<lparr>heads := (heads c)(dir := heads c dir @ take n data)\<rparr> else c)"

definition feed_stats :: "Direction \<Rightarrow> bytes \<Rightarrow> Conn \<Rightarrow> Conn" where
  "feed_stats dir data c =
     (let c1 = feed_first dir data c in
      feed_head dir data (c1\<lparr>bytesFed := (bytesFed c1)(dir := bytesFed c1 dir + length data)\<rparr>))"

text \<open>The first chunks: the protocol is recognised, or the chunk is dropped (\<open>None\<close>).\<close>

definition is_tls_record :: "bytes \<Rightarrow> bool" where
  "is_tls_record data = (case data of a # b # _ \<Rightarrow> a \<ge> 0x14 \<and> a \<le> 0x17 \<and> b = 0x03 | _ \<Rightarrow> False)"

definition feed_new :: "Direction \<Rightarrow> bytes \<Rightarrow> u64 \<Rightarrow> Conn \<Rightarrow> Conn \<times> bool" where
  "feed_new dir data skipped c =
     (if dir \<noteq> Egress then (c, False)
      else if skipped = 0 \<and> prefix ClientPreface data then (c\<lparr>cState := stateHTTP2, streams := []\<rparr>, True)
      else if skipped = 0 \<and> looksLikeRequestLine data then (c\<lparr>cState := stateHTTP1, requests := []\<rparr>, True)
      else if is_tls_record data then (c, False)
      else if \<not> missedStart c then (conn_report OutcomeMissedStart (c\<lparr>missedStart := True\<rparr>), False)
      else (c, False))"

definition stream_of :: "Direction \<Rightarrow> Conn \<Rightarrow> stream" where
  "stream_of dir c = (if dir = Ingress then ingress c else egress c)"

definition set_stream :: "Direction \<Rightarrow> stream \<Rightarrow> Conn \<Rightarrow> Conn" where
  "set_stream dir s c = (if dir = Ingress then c\<lparr>ingress := s\<rparr> else c\<lparr>egress := s\<rparr>)"

definition feed_write :: "Direction \<Rightarrow> bytes \<Rightarrow> u64 \<Rightarrow> Conn \<Rightarrow> bool \<times> Conn" where
  "feed_write dir data ts c =
     (case stream_write data ts (stream_of dir c) of (ok, s) \<Rightarrow>
        let c1 = set_stream dir s c in if ok then (True, c1) else (False, failLocked OutcomeOverflow c1))"

definition Feed :: "Direction \<Rightarrow> bytes \<Rightarrow> u64 \<Rightarrow> u64 \<Rightarrow> Conn \<Rightarrow> Conn" where
  "Feed dir data ts skipped c0 =
     (let c = feed_stats dir data c0 in
      case (case cState c of
              stateDead \<Rightarrow> (c, False)
            | stateNew \<Rightarrow> feed_new dir data skipped c
            | _ \<Rightarrow> (c, True)) of
        (c, go) \<Rightarrow>
          if \<not> go then c
          else if skipped > 0 \<and> unat skipped > maxSkip then failLocked OutcomeUnrecoverable c
          else
            (case (if skipped > 0 then feed_write dir (replicate (unat skipped) 0) ts c else (True, c)) of
               (ok, c) \<Rightarrow> if \<not> ok then c else snd (feed_write dir data ts c)))"

section \<open>Completion\<close>




definition count_exchange :: "Conn \<Rightarrow> Conn" where
  "count_exchange c = c\<lparr>exchanges := Suc (exchanges c)\<rparr>"

section \<open>HTTP/1.1\<close>

text \<open>One round of \<open>h1Requests\<close>: the request that was read, on a channel of 64.\<close>

definition h1_request :: "llm_request \<Rightarrow> Conn \<Rightarrow> Conn" where
  "h1_request r c = (if length (requests c) < 64 then c\<lparr>requests := requests c @ [r]\<rparr> else c)"

record h1body =
  bFirst :: u64
  bBody :: bytes
  bTruncated :: bool

definition h1_chunk :: "bytes \<times> u64 \<Rightarrow> h1body \<Rightarrow> h1body" where
  "h1_chunk ch b =
     (case ch of (data, ts) \<Rightarrow>
        if data = [] then b
        else
          (let b1 = (if bFirst b = 0 then b\<lparr>bFirst := ts\<rparr> else b) in
           if length (bBody b1) + length data > maxBody then b1\<lparr>bTruncated := True\<rparr>
           else b1\<lparr>bBody := bBody b1 @ data\<rparr>))"

datatype body_end = BodyEOF | BodyCut | BodyError

text \<open>
  One round of \<open>h1Responses\<close>: the response that was read, what the reads of its body returned, and the
  time at its end. The result is what \<open>finish\<close> is called with, and whether the loop goes on. A response
  that finds no request within a second is paired with an empty one.
\<close>

record h1_finish =
  fReq :: llm_request
  fStatus :: int
  fHeader :: Header
  fBody :: h1body
  fEnd :: u64

definition no_request :: llm_request where
  "no_request = \<lparr>lrMethod = [], lrPath = [], lrHost = [], lrTraceParent = [], lrStart = 0\<rparr>"

definition h1_response ::
  "int \<Rightarrow> Header \<Rightarrow> (bytes \<times> u64) list \<Rightarrow> body_end \<Rightarrow> u64 \<Rightarrow> Conn \<Rightarrow> h1_finish option \<times> bool \<times> Conn" where
  "h1_response status header chunks how endTs c =
     (if 100 \<le> status \<and> status < 200 then (None, True, c)
      else
        (let req = (case requests c of [] \<Rightarrow> no_request | r # _ \<Rightarrow> r);
             b = fold h1_chunk chunks \<lparr>bFirst = 0, bBody = [], bTruncated = False\<rparr>;
             c1 = count_exchange (c\<lparr>requests := drop 1 (requests c)\<rparr>) in
         (Some \<lparr>fReq = req, fStatus = status, fHeader = header, fBody = b, fEnd = endTs\<rparr>,
          how = BodyEOF,
          if how = BodyError then failLocked OutcomeUnrecoverable c1 else c1)))"

section \<open>HTTP/2 streams\<close>

definition empty_h2stream :: h2stream where
  "empty_h2stream = \<lparr>hReq = None, hStatus = 0, hHeader = [], hBody = [], hTruncated = False, hFirstData = 0, hEnd = 0,
     hDone = False\<rparr>"

text \<open>
  What the framers return: meta-header frames with their pseudo-headers and regular fields, data and
  reset frames, each with its time; the other frames are skipped.
\<close>

datatype h2_frame =
    ReqHeaders u32 string string string "(string \<times> string) list" u64
  | ReqReset u32 u64
  | RespHeaders u32 string "(string \<times> string) list" bool u64
  | RespData u32 bytes bool u64
  | RespReset u32 u64

fun frame_id :: "h2_frame \<Rightarrow> u32" where
  "frame_id (ReqHeaders i _ _ _ _ _) = i"
| "frame_id (ReqReset i _) = i"
| "frame_id (RespHeaders i _ _ _ _) = i"
| "frame_id (RespData i _ _ _) = i"
| "frame_id (RespReset i _) = i"

definition streamLocked :: "u32 \<Rightarrow> (u32 \<times> h2stream) list \<Rightarrow> h2stream" where
  "streamLocked i ss = (case map_of ss i of Some s \<Rightarrow> s | None \<Rightarrow> empty_h2stream)"

definition statusOf :: "string \<Rightarrow> int" where
  "statusOf v =
     (if list_all is_digit v then fold (\<lambda>ch n. wrap64 (n * 10 + int (ord ch - 48))) v 0 else 0)"

definition headerValue :: "(string \<times> string) list \<Rightarrow> string \<Rightarrow> string" where
  "headerValue hfs name = (case map_of hfs name of Some v \<Rightarrow> v | None \<Rightarrow> [])"

definition on_resp_headers :: "string \<Rightarrow> (string \<times> string) list \<Rightarrow> bool \<Rightarrow> u64 \<Rightarrow> h2stream \<Rightarrow> h2stream" where
  "on_resp_headers status hfs ended ts s =
     (let s1 = (if hStatus s = 0
                then s\<lparr>hStatus := statusOf status, hHeader := fold (\<lambda>(n, v). header_add n v) hfs []\<rparr> else s) in
      if ended then s1\<lparr>hDone := True, hEnd := ts\<rparr> else s1)"

definition on_resp_data :: "bytes \<Rightarrow> bool \<Rightarrow> u64 \<Rightarrow> h2stream \<Rightarrow> h2stream" where
  "on_resp_data data ended ts s =
     (let s1 = (if data \<noteq> [] then
                  (let s0 = (if hFirstData s = 0 then s\<lparr>hFirstData := ts\<rparr> else s) in
                   if length (hBody s0) + length data > maxBody then s0\<lparr>hTruncated := True\<rparr>
                   else s0\<lparr>hBody := hBody s0 @ data\<rparr>)
                else s) in
      if ended then s1\<lparr>hDone := True, hEnd := ts\<rparr> else s1)"

text \<open>
  What the loops of \<open>h2Egress\<close> and \<open>h2Ingress\<close> do with a frame of a stream, under the mutex; a reset by
  the client is only recorded for a stream that exists.
\<close>

fun on_frame :: "h2_frame \<Rightarrow> h2stream \<Rightarrow> h2stream" where
  "on_frame (ReqHeaders i m p a hfs start) s =
     s\<lparr>hReq := Some \<lparr>lrMethod = m, lrPath = p, lrHost = a, lrTraceParent = headerValue hfs ''traceparent'', lrStart = start\<rparr>\<rparr>"
| "on_frame (ReqReset i ts) s = (if hDone s then s else s\<lparr>hDone := True, hEnd := ts\<rparr>)"
| "on_frame (RespHeaders i st hfs ended ts) s = on_resp_headers st hfs ended ts s"
| "on_frame (RespData i d ended ts) s = on_resp_data d ended ts s"
| "on_frame (RespReset i ts) s = s\<lparr>hDone := True, hEnd := ts\<rparr>"

definition h2_touch :: "h2_frame \<Rightarrow> (u32 \<times> h2stream) list \<Rightarrow> (u32 \<times> h2stream) list" where
  "h2_touch f ss =
     (case f of
        ReqReset i ts \<Rightarrow> (case map_of ss i of None \<Rightarrow> ss | Some s \<Rightarrow> AList.update i (on_frame f s) ss)
      | _ \<Rightarrow> AList.update (frame_id f) (on_frame f (streamLocked (frame_id f) ss)) ss)"

text \<open>\<open>h2MaybeFinish\<close>: the stream to finish, if it is complete, and the streams without it.\<close>

definition h2MaybeFinish :: "u32 \<Rightarrow> (u32 \<times> h2stream) list \<Rightarrow> h2stream option \<times> (u32 \<times> h2stream) list" where
  "h2MaybeFinish i ss =
     (case map_of ss i of
        None \<Rightarrow> (None, ss)
      | Some s \<Rightarrow> if \<not> hDone s \<or> hReq s = None then (None, ss) else (Some s, AList.delete i ss))"

text \<open>
  The critical sections of the two goroutines: for every frame the update, then \<open>h2MaybeFinish\<close>; and the
  streams finished by a sequence of them.
\<close>

datatype h2_step = Touch h2_frame | Check u32

definition frame_steps :: "h2_frame \<Rightarrow> h2_step list" where
  "frame_steps f = [Touch f, Check (frame_id f)]"

fun h2_run :: "h2_step list \<Rightarrow> (u32 \<times> h2stream) list \<Rightarrow> (u32 \<times> h2stream) list \<times> (u32 \<times> h2stream) list" where
  "h2_run [] ss = ([], ss)"
| "h2_run (Touch f # xs) ss = h2_run xs (h2_touch f ss)"
| "h2_run (Check i # xs) ss =
     (case h2MaybeFinish i ss of (fin, ss1) \<Rightarrow>
        case h2_run xs ss1 of (out, ss2) \<Rightarrow> ((case fin of None \<Rightarrow> [] | Some s \<Rightarrow> [(i, s)]) @ out, ss2))"

text \<open>\<open>h2ReadError\<close>: whether reading goes on, after the errors of the framer.\<close>

datatype h2_error = StreamError | EndOfStream | FramingError

definition h2ReadError :: "h2_error \<Rightarrow> Conn \<Rightarrow> bool \<times> Conn" where
  "h2ReadError err c =
     (case err of
        StreamError \<Rightarrow> (True, c)
      | EndOfStream \<Rightarrow> (False, c)
      | FramingError \<Rightarrow> (False, failLocked OutcomeUnrecoverable c))"

section \<open>Closing\<close>

text \<open>The part of \<open>Close\<close> that runs at once, and the goroutine that waits for the parsers.\<close>

definition Close :: "Conn \<Rightarrow> bool \<times> Conn" where
  "Close c =
     (cState c = stateHTTP1 \<or> cState c = stateHTTP2,
      c\<lparr>cState := stateDead, egress := stream_close (egress c), ingress := stream_close (ingress c)\<rparr>)"

definition started :: "h2stream \<Rightarrow> bool" where
  "started s \<longleftrightarrow> hReq s \<noteq> None \<and> hStatus s \<noteq> 0"

definition pending_end :: "h2stream \<Rightarrow> h2stream" where
  "pending_end s = (if hEnd s = 0 then s\<lparr>hEnd := hFirstData s\<rparr> else s)"

definition close_pending :: "Conn \<Rightarrow> h2stream list \<times> Conn" where
  "close_pending c =
     (map (pending_end \<circ> snd) (filter (started \<circ> snd) (streams c)),
      c\<lparr>streams := filter (Not \<circ> started \<circ> snd) (streams c)\<rparr>)"

definition close_judge :: "Conn \<Rightarrow> Conn" where
  "close_judge c = (if exchanges c = 0 \<and> bytesFed c Egress > 0 then conn_report OutcomeAbandoned c else c)"

section \<open>One stream at a time\<close>

text \<open>The steps of one stream, on its entry in the map.\<close>

fun step_id :: "h2_step \<Rightarrow> u32" where
  "step_id (Touch f) = frame_id f"
| "step_id (Check i) = i"

definition touch1 :: "h2_frame \<Rightarrow> h2stream option \<Rightarrow> h2stream option" where
  "touch1 f so =
     (case f of
        ReqReset i ts \<Rightarrow> map_option (on_frame f) so
      | _ \<Rightarrow> Some (on_frame f (case so of None \<Rightarrow> empty_h2stream | Some s \<Rightarrow> s)))"

definition ready :: "h2stream option \<Rightarrow> bool" where
  "ready so = (case so of None \<Rightarrow> False | Some s \<Rightarrow> hDone s \<and> hReq s \<noteq> None)"

fun run1 :: "h2_step list \<Rightarrow> h2stream option \<Rightarrow> h2stream list \<times> h2stream option" where
  "run1 [] so = ([], so)"
| "run1 (Touch f # xs) so = run1 xs (touch1 f so)"
| "run1 (Check i # xs) so =
     (if ready so then (the so # fst (run1 xs None), snd (run1 xs None)) else run1 xs so)"

lemma touch_entry: "map_of (h2_touch f ss) i = (if frame_id f = i then touch1 f (map_of ss i) else map_of ss i)"
  by (auto simp: h2_touch_def touch1_def streamLocked_def update_conv' split: h2_frame.splits option.splits)

lemma check_entry:
  "h2MaybeFinish j ss = (fin, ss1) \<Longrightarrow>
     fin = (if ready (map_of ss j) then map_of ss j else None) \<and>
     map_of ss1 i = (if i = j \<and> ready (map_of ss j) then None else map_of ss i)"
  by (auto simp: h2MaybeFinish_def ready_def delete_conv' split: option.splits if_splits)

lemma run_entry:
  "h2_run xs ss = (out, ss') \<Longrightarrow>
     run1 (filter (\<lambda>x. step_id x = i) xs) (map_of ss i) = (map snd (filter (\<lambda>p. fst p = i) out), map_of ss' i)"
proof (induction xs ss arbitrary: out rule: h2_run.induct)
  case (3 j xs ss)
  obtain fin ss1 where m: "h2MaybeFinish j ss = (fin, ss1)" by force
  obtain out1 where r: "h2_run xs ss1 = (out1, ss')" using 3(2) m by (auto split: prod.splits)
  have o: "out = (case fin of None \<Rightarrow> [] | Some s \<Rightarrow> [(j, s)]) @ out1" using 3(2) m r by simp
  have IH: "run1 (filter (\<lambda>x. step_id x = i) xs) (map_of ss1 i) = (map snd (filter (\<lambda>p. fst p = i) out1), map_of ss' i)"
    using 3(1) [OF m [symmetric] r] .
  show ?case
    using IH o check_entry [OF m, of i] by (auto simp: ready_def split: if_splits option.splits)
qed (auto simp: touch_entry)

text \<open>Frames of a response, those that end it, and the data they carry.\<close>

fun is_resp :: "h2_frame \<Rightarrow> bool" where
  "is_resp (RespHeaders _ _ _ _ _) = True"
| "is_resp (RespData _ _ _ _) = True"
| "is_resp (RespReset _ _) = True"
| "is_resp _ = False"

fun ends :: "h2_frame \<Rightarrow> bool" where
  "ends (RespHeaders _ _ _ e _) = e"
| "ends (RespData _ _ e _) = e"
| "ends (RespReset _ _) = True"
| "ends _ = False"

fun frame_data :: "h2_frame \<Rightarrow> bytes" where
  "frame_data (RespData _ d _ _) = d"
| "frame_data _ = []"

lemma resp_req: "is_resp f \<Longrightarrow> on_frame f (s\<lparr>hReq := r\<rparr>) = (on_frame f s)\<lparr>hReq := r\<rparr>"
  by (cases f) (simp_all add: on_resp_headers_def on_resp_data_def Let_def)

lemma resp_frame:
  "is_resp f \<Longrightarrow> hReq (on_frame f s) = hReq s \<and> hDone (on_frame f s) = (hDone s \<or> ends f)"
  by (cases f) (auto simp: on_resp_headers_def on_resp_data_def Let_def)

lemma resp_fold:
  "list_all is_resp fs \<Longrightarrow> hReq (fold on_frame fs s) = hReq s \<and> hDone (fold on_frame fs s) = (hDone s \<or> list_ex ends fs)"
  by (induction fs arbitrary: s) (auto simp: resp_frame)

lemma resp_fold_req: "list_all is_resp fs \<Longrightarrow> fold on_frame fs (s\<lparr>hReq := r\<rparr>) = (fold on_frame fs s)\<lparr>hReq := r\<rparr>"
  by (induction fs arbitrary: s) (simp_all add: resp_req)

definition body_is :: "bytes \<Rightarrow> h2stream \<Rightarrow> bool" where
  "body_is d s \<longleftrightarrow> hTruncated s = (length d > maxBody) \<and> (\<not> hTruncated s \<longrightarrow> hBody s = d)"

lemma resp_body_data:
  assumes "body_is d s"
  shows "body_is (d @ x) (on_resp_data x e ts s)"
proof (cases "hTruncated s")
  case True
  with assms show ?thesis by (simp add: body_is_def on_resp_data_def Let_def)
next
  case False
  then have "hBody s = d" "length d \<le> maxBody" using assms by (auto simp: body_is_def)
  with False show ?thesis by (simp add: body_is_def on_resp_data_def Let_def)
qed

lemma resp_body_step: "is_resp f \<Longrightarrow> body_is d s \<Longrightarrow> body_is (d @ frame_data f) (on_frame f s)"
  by (cases f) (simp_all add: resp_body_data, simp_all add: body_is_def on_resp_headers_def Let_def)

lemma resp_body: "list_all is_resp fs \<Longrightarrow> body_is d s \<Longrightarrow> body_is (d @ concat (map frame_data fs)) (fold on_frame fs s)"
proof (induction fs arbitrary: d s)
  case (Cons f fs)
  then have "body_is (d @ frame_data f) (on_frame f s)" by (simp add: resp_body_step)
  with Cons.IH [of "d @ frame_data f"] Cons.prems(1) show ?case by simp
qed simp

lemma touch1_resp: "is_resp f \<Longrightarrow> touch1 f (Some s) = Some (on_frame f s)" "is_resp f \<Longrightarrow> touch1 f None = Some (on_frame f empty_h2stream)"
  by (cases f; simp add: touch1_def)+

lemma fold_touch1: "list_all is_resp fs \<Longrightarrow> fold touch1 fs (Some s) = Some (fold on_frame fs s)"
  by (induction fs arbitrary: s) (simp_all add: touch1_resp)

lemma fold_touch1_None:
  "list_all is_resp fs \<Longrightarrow> fold touch1 fs None = (if fs = [] then None else Some (fold on_frame fs empty_h2stream))"
  by (cases fs) (simp_all add: touch1_resp fold_touch1)

section \<open>Interleavings\<close>

fun frame_of :: "h2_step \<Rightarrow> h2_frame list" where
  "frame_of (Touch f) = [f]"
| "frame_of (Check _) = []"

definition touches :: "h2_step list \<Rightarrow> h2_frame list" where
  "touches xs = concat (map frame_of xs)"

lemma touches_simps [simp]:
  "touches [] = []" "touches (x # xs) = frame_of x @ touches xs" "touches (xs @ ys) = touches xs @ touches ys"
  by (simp_all add: touches_def)

lemma run1_quiet:
  "(\<And>ts us. touches xs = ts @ us \<Longrightarrow> \<not> ready (fold touch1 ts so)) \<Longrightarrow> run1 (xs @ ys) so = run1 ys (fold touch1 (touches xs) so)"
proof (induction xs arbitrary: so)
  case (Cons x xs)
  show ?case
  proof (cases x)
    case (Touch f)
    have "\<not> ready (fold touch1 ts (touch1 f so))" if "touches xs = ts @ us" for ts us
      using Cons.prems [of "f # ts" us] that Touch by simp
    then show ?thesis using Touch Cons.IH by simp
  next
    case (Check i)
    have "\<not> ready so" using Cons.prems [of "[]" "touches xs"] Check by simp
    moreover have "\<not> ready (fold touch1 ts so)" if "touches xs = ts @ us" for ts us
      using Cons.prems [of ts us] that Check by simp
    ultimately show ?thesis using Check Cons.IH by simp
  qed
qed simp

lemma run1_checks: "touches xs = [] \<Longrightarrow> \<not> ready so \<Longrightarrow> run1 xs so = ([], so)"
  by (induction xs so rule: run1.induct) simp_all

lemma run1_once:
  assumes "touches xs = ts @ [f]" "xs \<noteq> []" "frame_of (last xs) = []" "ready (fold touch1 (ts @ [f]) so)"
    "\<And>us vs. ts = us @ vs \<Longrightarrow> \<not> ready (fold touch1 us so)"
  shows "run1 xs so = ([the (fold touch1 (ts @ [f]) so)], None)"
proof -
  have "\<exists>x\<in>set xs. frame_of x \<noteq> []"
  proof (rule ccontr)
    assume "\<not> (\<exists>x\<in>set xs. frame_of x \<noteq> [])"
    then have "touches xs = []" by (simp add: touches_def)
    with assms(1) show False by simp
  qed
  then obtain ys x zs where xs: "xs = ys @ x # zs" and x: "frame_of x \<noteq> []" and zs: "\<forall>z\<in>set zs. frame_of z = []"
    using split_list_last_prop [of xs "\<lambda>x. frame_of x \<noteq> []"] by blast
  have tz: "touches zs = []" using zs by (simp add: touches_def)
  obtain g where g: "x = Touch g" using x by (cases x) simp_all
  have ty: "touches ys = ts" and gf: "g = f" using assms(1) xs g tz by simp_all
  have "zs \<noteq> []" using assms(3) xs x by auto
  then obtain i zs' where zs': "zs = Check i # zs'" using zs by (metis frame_of.elims list.set_intros(1) neq_Nil_conv not_Cons_self2)
  have "run1 xs so = run1 (x # zs) (fold touch1 ts so)"
    unfolding xs using run1_quiet [of ys so "x # zs"] assms(5) ty by simp
  also have "\<dots> = ([the (fold touch1 (ts @ [f]) so)], None)"
    using assms(4) tz g gf zs' by (simp add: run1_checks ready_def)
  finally show ?thesis .
qed

lemma shuffle_one: "ts \<in> shuffles [x] ys \<Longrightarrow> \<exists>us vs. ys = us @ vs \<and> ts = us @ x # vs"
proof (induction ts arbitrary: ys)
  case (Cons t ts)
  from Cons.prems consider "t = x" "ts = ys" | ys' where "ys = t # ys'" "ts \<in> shuffles [x] ys'"
    by (auto simp: Cons_in_shuffles_iff neq_Nil_conv)
  then show ?case
  proof cases
    case 1
    then show ?thesis by (intro exI [of _ "[]"] exI [of _ ys]) simp
  next
    case (2 ys')
    then obtain us vs where "ys' = us @ vs" "ts = us @ x # vs" using Cons.IH by blast
    with 2 show ?thesis by (intro exI [of _ "t # us"] exI [of _ vs]) simp
  qed
qed simp

lemma shuffle_last: "xs \<in> shuffles as bs \<Longrightarrow> P (last as) \<Longrightarrow> P (last bs) \<Longrightarrow> as \<noteq> [] \<Longrightarrow> bs \<noteq> [] \<Longrightarrow> P (last xs)"
proof (induction as bs arbitrary: xs rule: shuffles.induct)
  case (3 a as b bs)
  from 3(3) consider xs' where "xs = a # xs'" "xs' \<in> shuffles as (b # bs)" | xs' where "xs = b # xs'" "xs' \<in> shuffles (a # as) bs"
    by (auto simp: shuffles.simps)
  then show ?case
  proof cases
    case (1 xs')
    then show ?thesis using 3(1) [OF 1(2)] 3(4-) by (cases "as = []") auto
  next
    case (2 xs')
    then show ?thesis using 3(2) [OF 2(2)] 3(4-) by (cases "bs = []") auto
  qed
qed simp_all


lemma shuffle_touches: "xs \<in> shuffles as bs \<Longrightarrow> touches xs \<in> shuffles (touches as) (touches bs)"
proof (induction as bs arbitrary: xs rule: shuffles.induct)
  case (3 a as b bs)
  from 3(3) consider xs' where "xs = a # xs'" "xs' \<in> shuffles as (b # bs)" | xs' where "xs = b # xs'" "xs' \<in> shuffles (a # as) bs"
    by (auto simp: shuffles.simps)
  then show ?case
  proof cases
    case (1 xs')
    have "touches xs' \<in> shuffles (touches as) (touches (b # bs))" using 3(1) [OF 1(2)] .
    with 1(1) show ?thesis by (cases a) (simp_all only: touches_simps frame_of.simps append.simps Cons_in_shuffles_leftI)
  next
    case (2 xs')
    have "touches xs' \<in> shuffles (touches (a # as)) (touches bs)" using 3(2) [OF 2(2)] .
    with 2(1) show ?thesis by (cases b) (simp_all only: touches_simps frame_of.simps append.simps Cons_in_shuffles_rightI)
  qed
qed simp_all

lemma steps_of_id:
  "filter (\<lambda>x. step_id x = i) (concat (map frame_steps fs)) = concat (map frame_steps (filter (\<lambda>f. frame_id f = i) fs))"
  by (induction fs) (auto simp: frame_steps_def)

lemma touches_steps: "touches (concat (map frame_steps fs)) = fs"
  by (induction fs) (simp_all add: frame_steps_def)

lemma last_steps: "fs \<noteq> [] \<Longrightarrow> frame_of (last (concat (map frame_steps fs))) = []"
  by (induction fs rule: rev_induct) (simp_all add: frame_steps_def)

lemma steps_nonempty: "concat (map frame_steps fs) = [] \<longleftrightarrow> fs = []"
  by (cases fs) (simp_all add: frame_steps_def)

text \<open>A request and a response, in any order in which their frames can be handled.\<close>

definition complete :: "h2_frame list \<Rightarrow> bool" where
  "complete rs \<longleftrightarrow> rs \<noteq> [] \<and> list_all is_resp rs \<and> ends (last rs) \<and> \<not> list_ex ends (butlast rs)"

lemma request_response:
  assumes rs: "complete rs" and req: "q = ReqHeaders i m p a hfs start"
    and ts: "rs = us @ vs" "ts = us @ q # vs"
  shows "fold touch1 ts None = Some ((fold on_frame rs empty_h2stream)\<lparr>hReq := hReq (on_frame q empty_h2stream)\<rparr>)"
    and "ready (fold touch1 ts None)"
    and "\<And>xs ys. ts = xs @ ys \<Longrightarrow> ys \<noteq> [] \<Longrightarrow> \<not> ready (fold touch1 xs None)"
proof -
  have all: "list_all is_resp us" "list_all is_resp vs" using rs ts by (simp_all add: complete_def)
  have before: "fold touch1 us None = (if us = [] then None else Some (fold on_frame us empty_h2stream))"
    using all by (simp add: fold_touch1_None)
  have mid: "fold touch1 (us @ [q]) None = Some ((fold on_frame us empty_h2stream)\<lparr>hReq := hReq (on_frame q empty_h2stream)\<rparr>)"
    using before by (cases "us = []") (simp_all add: touch1_def req)
  have after: "fold touch1 (us @ q # ws) None =
      Some ((fold on_frame (us @ ws) empty_h2stream)\<lparr>hReq := hReq (on_frame q empty_h2stream)\<rparr>)" if "list_all is_resp ws" for ws
    using mid that by (simp add: fold_touch1 resp_fold_req)
  show whole: "fold touch1 ts None = Some ((fold on_frame rs empty_h2stream)\<lparr>hReq := hReq (on_frame q empty_h2stream)\<rparr>)"
    using after [OF all(2)] ts by simp
  have "list_ex ends rs" using rs by (auto simp: complete_def list_ex_iff intro: bexI [of _ "last rs"])
  then show "ready (fold touch1 ts None)"
    using whole rs resp_fold [of rs empty_h2stream] by (simp add: ready_def complete_def req)
  show "\<not> ready (fold touch1 xs None)" if "ts = xs @ ys" "ys \<noteq> []" for xs ys
  proof -
    from that(1) ts(2) have "us @ q # vs = xs @ ys" by simp
    then consider us' where "us = xs @ us'" | zs where "xs = us @ zs" "zs @ ys = q # vs" "zs \<noteq> []"
      unfolding append_eq_append_conv2 by (metis append.right_neutral)
    then show ?thesis
    proof cases
      case (1 us')
      then have "list_all is_resp xs" using all by simp
      then show ?thesis
        using resp_fold [of xs empty_h2stream] by (simp add: fold_touch1_None ready_def empty_h2stream_def)
    next
      case (2 zs)
      then obtain ws where xs: "xs = us @ q # ws" and vs: "vs = ws @ ys" by (auto simp: append_eq_Cons_conv)
      have bl: "butlast rs = us @ ws @ butlast ys" using ts vs that(2) by (simp add: butlast_append)
      then have "\<not> list_ex ends (us @ ws)" using rs by (simp add: complete_def)
      moreover have "list_all is_resp (us @ ws)" using all vs by simp
      ultimately show ?thesis
        using after [of ws] resp_fold [of "us @ ws" empty_h2stream] xs
        by (simp add: ready_def empty_h2stream_def)
    qed
  qed
qed

lemma h2_pairing:
  assumes "steps \<in> shuffles (concat (map frame_steps es)) (concat (map frame_steps ins))"
    and es: "filter (\<lambda>f. frame_id f = i) es = [ReqHeaders i m p a hfs start]"
    and rs: "complete (filter (\<lambda>f. frame_id f = i) ins)"
    and run: "h2_run steps [] = (out, ss)"
  shows "map snd (filter (\<lambda>x. fst x = i) out) =
      [(fold on_frame (filter (\<lambda>f. frame_id f = i) ins) empty_h2stream)\<lparr>hReq := Some \<lparr>lrMethod = m, lrPath = p, lrHost = a,
         lrTraceParent = headerValue hfs ''traceparent'', lrStart = start\<rparr>\<rparr>]"
    and "map_of ss i = None"
proof -
  let ?rs = "filter (\<lambda>f. frame_id f = i) ins" and ?q = "ReqHeaders i m p a hfs start"
  let ?xs = "filter (\<lambda>x. step_id x = i) steps"
  have sh: "?xs \<in> shuffles (concat (map frame_steps [?q])) (concat (map frame_steps ?rs))"
    using imageI [OF assms(1), of "filter (\<lambda>x. step_id x = i)"]
    unfolding filter_shuffles steps_of_id es .
  have ne: "?rs \<noteq> []" using rs by (simp add: complete_def)
  have t: "touches ?xs \<in> shuffles [?q] ?rs"
    using shuffle_touches [OF sh] unfolding touches_steps .
  obtain us vs where uv: "?rs = us @ vs" "touches ?xs = us @ ?q # vs" using shuffle_one [OF t] by (elim exE conjE)
  have last: "frame_of (last ?xs) = []"
    by (rule shuffle_last [OF sh, of "\<lambda>x. frame_of x = []"]) (simp_all only: last_steps steps_nonempty ne not_False_eq_True, simp_all add: frame_steps_def)
  have xs: "?xs \<noteq> []"
  proof
    assume "?xs = []"
    then have "touches ?xs = []" by (simp only: touches_simps)
    with uv(2) show False by simp
  qed
  obtain ts f where tf: "touches ?xs = ts @ [f]" using uv(2) by (metis append_butlast_last_id append_is_Nil_conv list.distinct(1))
  note rr = request_response [OF rs refl uv]
  have "run1 ?xs None = ([the (fold touch1 (ts @ [f]) None)], None)"
  proof (rule run1_once [OF tf xs last])
    show "ready (fold touch1 (ts @ [f]) None)" using rr(2) tf by simp
    show "\<not> ready (fold touch1 us' None)" if "ts = us' @ vs'" for us' vs' using rr(3) [of us' "vs' @ [f]"] that tf by simp
  qed
  then have *: "run1 ?xs None = ([(fold on_frame ?rs empty_h2stream)\<lparr>hReq := Some \<lparr>lrMethod = m, lrPath = p, lrHost = a,
         lrTraceParent = headerValue hfs ''traceparent'', lrStart = start\<rparr>\<rparr>], None)"
    using rr(1) tf by simp
  show "map snd (filter (\<lambda>x. fst x = i) out) =
      [(fold on_frame ?rs empty_h2stream)\<lparr>hReq := Some \<lparr>lrMethod = m, lrPath = p, lrHost = a,
         lrTraceParent = headerValue hfs ''traceparent'', lrStart = start\<rparr>\<rparr>]" "map_of ss i = None"
    using run_entry [OF run, of i] * by simp_all
qed

section \<open>Connections\<close>

text \<open>
  The steps of a connection: the capture feeds it, a parser gives up, handles a request, a response or a
  frame, or reads a stream, and the capture closes it. After the close the goroutine it started takes the
  streams whose response had begun, which finish as exchanges, and judges whether the connection was
  abandoned.
\<close>

inductive conn_step :: "Conn \<Rightarrow> Conn \<Rightarrow> bool" where
  fed: "conn_step c (Feed dir data ts skipped c)"
| gave_up: "conn_step c (failLocked OutcomeUnrecoverable c)"
| request_read: "conn_step c (h1_request r c)"
| response_read: "conn_step c (snd (snd (h1_response status header chunks how endTs c)))"
| frame_read: "conn_step c (c\<lparr>streams := h2_touch f (streams c)\<rparr>)"
| frame_checked: "conn_step c (c\<lparr>streams := snd (h2MaybeFinish i (streams c))\<rparr>)"
| finished: "conn_step c (count_exchange c)"
| bytes_read: "conn_step c (set_stream dir (snd (stream_Read n (stream_of dir c))) c)"
| shut: "conn_step c (snd (Close c))"
| pending_taken: "cState c = stateDead \<Longrightarrow> conn_step c (snd (close_pending c))"
| judged: "cState c = stateDead \<Longrightarrow> conn_step c (close_judge c)"

inductive conn_reach :: "Tag \<Rightarrow> Conn \<Rightarrow> bool" for tag where
  initially: "conn_reach tag (NewConn tag)"
| stepped: "conn_reach tag c \<Longrightarrow> conn_step c c' \<Longrightarrow> conn_reach tag c'"

definition failures :: "Outcome list \<Rightarrow> nat" where
  "failures os = length (filter (\<lambda>x. x = OutcomeUnrecoverable \<or> x = OutcomeOverflow) os)"

definition conn_ok :: "Conn \<Rightarrow> bool" where
  "conn_ok c \<longleftrightarrow>
     stream_ok maxBuffered (egress c) \<and> stream_ok maxBuffered (ingress c) \<and>
     failures (outcomes c) \<le> (if cState c = stateDead then 1 else 0) \<and>
     length (filter (\<lambda>x. x = OutcomeMissedStart) (outcomes c)) = (if missedStart c then 1 else 0) \<and>
     (cState c = stateDead \<longrightarrow> closed (egress c) \<and> closed (ingress c)) \<and>
     (cState c = stateNew \<longrightarrow> egress c = newStream maxBuffered \<and> ingress c = newStream maxBuffered) \<and>
     length (requests c) \<le> 64 \<and> (\<forall>dir. length (heads c dir) \<le> statsHeadLen)"

lemma stream_write_refused: "d \<noteq> [] \<Longrightarrow> length d > limit s \<Longrightarrow> \<not> fst (stream_write d ts s)"
  by (simp add: stream_write_def)

lemma stream_write_closed: "closed s \<Longrightarrow> closed (snd (stream_write d ts s))"
  by (simp add: stream_write_def)

lemma stream_Read_closed: "closed s \<Longrightarrow> closed (snd (stream_Read n s))"
  by (simp add: stream_Read_def Let_def split: list.splits)

lemma stream_Read_new: "snd (stream_Read n (newStream lim)) = newStream lim"
  by (simp add: stream_Read_def newStream_def)

lemma closed_close: "closed (stream_close s)"
  by (simp add: stream_close_def)

lemma failLocked_ok: "conn_ok c \<Longrightarrow> out = OutcomeUnrecoverable \<or> out = OutcomeOverflow \<Longrightarrow> conn_ok (failLocked out c)"
  using closed_close [of "egress c"] closed_close [of "ingress c"] stream_close_ok [of maxBuffered "egress c"]
    stream_close_ok [of maxBuffered "ingress c"]
  by (cases "cState c = stateDead"; elim disjE) (simp_all add: failLocked_def conn_ok_def conn_report_def failures_def)

lemma set_stream_ok:
  assumes "conn_ok c" "stream_ok maxBuffered s" "cState c = stateDead \<Longrightarrow> closed s" "cState c = stateNew \<Longrightarrow> s = newStream maxBuffered"
  shows "conn_ok (set_stream dir s c)"
  using assms by (auto simp: set_stream_def conn_ok_def)

lemma stream_of_ok: "conn_ok c \<Longrightarrow> stream_ok maxBuffered (stream_of dir c)"
  "conn_ok c \<Longrightarrow> cState c = stateDead \<Longrightarrow> closed (stream_of dir c)"
  "conn_ok c \<Longrightarrow> cState c = stateNew \<Longrightarrow> stream_of dir c = newStream maxBuffered"
  by (simp_all add: stream_of_def conn_ok_def)

lemma feed_write_ok:
  assumes "conn_ok c" "cState c \<noteq> stateNew"
  shows "conn_ok (snd (feed_write dir data ts c))"
proof -
  obtain ok s where w: "stream_write data ts (stream_of dir c) = (ok, s)" by force
  have "conn_ok (set_stream dir s c)"
    using assms stream_of_ok [OF assms(1), of dir] w stream_write_ok [of maxBuffered "stream_of dir c" data ts]
      stream_write_closed [of "stream_of dir c" data ts]
    by (intro set_stream_ok) simp_all
  then show ?thesis by (simp add: feed_write_def w Let_def failLocked_ok)
qed

lemma feed_write_state: "fst (feed_write dir data ts c) \<Longrightarrow> cState (snd (feed_write dir data ts c)) = cState c"
  by (auto simp: feed_write_def Let_def set_stream_def split: prod.splits if_splits)

lemma feed_first_fields [simp]:
  "egress (feed_first dir data c) = egress c" "ingress (feed_first dir data c) = ingress c"
  "outcomes (feed_first dir data c) = outcomes c" "cState (feed_first dir data c) = cState c"
  "missedStart (feed_first dir data c) = missedStart c" "requests (feed_first dir data c) = requests c"
  "heads (feed_first dir data c) = heads c"
  by (simp_all add: feed_first_def)

lemma feed_stats_fields [simp]:
  "egress (feed_stats dir data c) = egress c" "ingress (feed_stats dir data c) = ingress c"
  "outcomes (feed_stats dir data c) = outcomes c" "cState (feed_stats dir data c) = cState c"
  "missedStart (feed_stats dir data c) = missedStart c" "requests (feed_stats dir data c) = requests c"
  by (simp_all add: feed_stats_def feed_head_def Let_def)

lemma feed_stats_heads:
  "heads (feed_stats dir data c) = (heads c)(dir := heads c dir @ take (statsHeadLen - length (heads c dir)) data)"
  by (cases "data = []"; cases "length (heads c dir) < statsHeadLen") (simp_all add: feed_stats_def feed_head_def Let_def)

lemma feed_stats_ok:
  assumes "conn_ok c"
  shows "conn_ok (feed_stats dir data c)"
proof -
  have "length (heads c dir) \<le> statsHeadLen" using assms by (simp add: conn_ok_def)
  then have "length (heads c dir) + min (length data) (statsHeadLen - length (heads c dir)) \<le> statsHeadLen" by arith
  with assms show ?thesis by (simp add: conn_ok_def feed_stats_heads)
qed

lemma newStream_ok: "stream_ok lim (newStream lim)"
  by (simp add: stream_ok_def newStream_def)

lemma feed_new_ok:
  assumes "conn_ok c" "cState c = stateNew"
  shows "conn_ok (fst (feed_new dir data skipped c))"
proof -
  have "conn_ok (c\<lparr>cState := stateHTTP2, streams := []\<rparr>)" "conn_ok (c\<lparr>cState := stateHTTP1, requests := []\<rparr>)"
    using assms by (simp_all add: conn_ok_def newStream_ok)
  moreover have "conn_ok (conn_report OutcomeMissedStart (c\<lparr>missedStart := True\<rparr>))" if "\<not> missedStart c"
    using assms that by (simp add: conn_ok_def conn_report_def failures_def newStream_ok)
  ultimately show ?thesis using assms(1) by (simp add: feed_new_def)
qed

lemma feed_new_started: "snd (feed_new dir data skipped c) \<Longrightarrow> cState (fst (feed_new dir data skipped c)) \<noteq> stateNew"
  by (simp add: feed_new_def split: if_splits)

definition feed_bytes :: "Direction \<Rightarrow> bytes \<Rightarrow> u64 \<Rightarrow> u64 \<Rightarrow> Conn \<Rightarrow> Conn" where
  "feed_bytes dir data ts skipped c =
     (if skipped > 0 \<and> unat skipped > maxSkip then failLocked OutcomeUnrecoverable c
      else
        (case (if skipped > 0 then feed_write dir (replicate (unat skipped) 0) ts c else (True, c)) of
           (ok, c) \<Rightarrow> if \<not> ok then c else snd (feed_write dir data ts c)))"

lemma feed_bytes_ok:
  assumes "conn_ok c" "cState c \<noteq> stateNew"
  shows "conn_ok (feed_bytes dir data ts skipped c)"
proof -
  obtain ok c1 where w: "feed_write dir (replicate (unat skipped) 0) ts c = (ok, c1)" by force
  have "conn_ok c1" "ok \<Longrightarrow> cState c1 = cState c"
    using feed_write_ok [OF assms, of dir "replicate (unat skipped) 0" ts]
      feed_write_state [of dir "replicate (unat skipped) 0" ts c] w by simp_all
  with assms w show ?thesis by (simp add: feed_bytes_def failLocked_ok feed_write_ok)
qed

lemma Feed_phases:
  "Feed dir data ts skipped c =
     (let c = feed_stats dir data c in
      case cState c of
        stateDead \<Rightarrow> c
      | stateNew \<Rightarrow>
          (let r = feed_new dir data skipped c in if snd r then feed_bytes dir data ts skipped (fst r) else fst r)
      | _ \<Rightarrow> feed_bytes dir data ts skipped c)"
  by (simp add: Feed_def feed_bytes_def Let_def split: connState.splits prod.splits)

lemma Feed_ok: "conn_ok c \<Longrightarrow> conn_ok (Feed dir data ts skipped c)"
  using feed_stats_ok [of c dir data] feed_new_ok [of "feed_stats dir data c" dir data skipped]
    feed_new_started [of dir data skipped "feed_stats dir data c"]
  by (simp add: Feed_phases Let_def feed_bytes_ok split: connState.splits)

lemma conn_step_ok: "conn_step c c' \<Longrightarrow> conn_ok c \<Longrightarrow> conn_ok c'"
proof (induction rule: conn_step.induct)
  case (response_read c status header chunks how endTs)
  let ?c = "count_exchange (c\<lparr>requests := drop 1 (requests c)\<rparr>)"
  have "conn_ok ?c" using response_read by (auto simp: conn_ok_def count_exchange_def)
  then show ?case using response_read by (simp add: h1_response_def Let_def failLocked_ok)
next
  case (bytes_read c dir n)
  then show ?case
    using stream_of_ok [OF bytes_read, of dir] by (intro set_stream_ok) (simp_all add: stream_Read_ok stream_Read_closed stream_Read_new)
next
  case (shut c)
  then show ?case by (simp add: Close_def conn_ok_def stream_close_ok split: if_splits) (simp_all add: stream_close_def)
next
  case (judged c)
  then show ?case by (simp add: close_judge_def conn_report_def conn_ok_def failures_def)
qed (simp_all add: Feed_ok failLocked_ok, simp_all add: conn_ok_def h1_request_def count_exchange_def close_pending_def)

lemma conn_reach_ok: "conn_reach tag c \<Longrightarrow> conn_ok c"
proof (induction rule: conn_reach.induct)
  case initially
  show ?case by (simp add: conn_ok_def NewConn_def newStream_def stream_ok_def failures_def)
qed (rule conn_step_ok)

lemma dead_Feed: "cState c = stateDead \<Longrightarrow> Feed dir data ts skipped c = feed_stats dir data c"
  by (simp add: Feed_phases Let_def)

lemma conn_step_dead: "conn_step c c' \<Longrightarrow> cState c = stateDead \<Longrightarrow> cState c' = stateDead \<and> failures (outcomes c') = failures (outcomes c)"
proof (induction rule: conn_step.induct)
  case (response_read c status header chunks how endTs)
  then show ?case by (simp add: h1_response_def Let_def failLocked_def count_exchange_def)
next
  case (bytes_read c dir n)
  then show ?case by (simp add: set_stream_def)
qed (simp_all add: dead_Feed failLocked_def h1_request_def count_exchange_def Close_def close_pending_def close_judge_def
    conn_report_def failures_def)

lemma h2_finished_once:
  assumes "steps \<in> shuffles (concat (map frame_steps es)) (concat (map frame_steps ins))"
    and "filter (\<lambda>f. frame_id f = i) es = [ReqHeaders i m p a hfs start]"
    and "complete (filter (\<lambda>f. frame_id f = i) ins)"
    and "h2_run steps [] = (out, ss)"
  defines "s \<equiv> (fold on_frame (filter (\<lambda>f. frame_id f = i) ins) empty_h2stream)\<lparr>hReq := Some \<lparr>lrMethod = m, lrPath = p,
         lrHost = a, lrTraceParent = headerValue hfs ''traceparent'', lrStart = start\<rparr>\<rparr>"
  shows "filter (\<lambda>x. fst x = i) out = [(i, s)]" "map_of ss i = None"
    "let d = concat (map frame_data (filter (\<lambda>f. frame_id f = i) ins)) in
     if length d \<le> maxBody then hBody s = d \<and> \<not> hTruncated s else hTruncated s"
proof -
  let ?rs = "filter (\<lambda>f. frame_id f = i) ins"
  have f: "map snd (filter (\<lambda>x. fst x = i) out) = [s]" by (rule h2_pairing(1) [OF assms(1-4), folded s_def])
  obtain x where x: "filter (\<lambda>x. fst x = i) out = [x]" "snd x = s" using f unfolding map_eq_Cons_conv by blast
  have "x \<in> set (filter (\<lambda>x. fst x = i) out)" unfolding x(1) by simp
  then have "x = (i, s)" using x(2) by (simp add: prod_eq_iff)
  with x(1) show "filter (\<lambda>x. fst x = i) out = [(i, s)]" by (simp only:)
  have "list_all is_resp ?rs" using assms(3) unfolding complete_def by blast
  then have "body_is (concat (map frame_data ?rs)) (fold on_frame ?rs empty_h2stream)"
    using resp_body [of ?rs "[]" empty_h2stream] by (simp add: body_is_def empty_h2stream_def)
  then show "let d = concat (map frame_data ?rs) in
      if length d \<le> maxBody then hBody s = d \<and> \<not> hTruncated s else hTruncated s"
    by (simp add: body_is_def Let_def s_def)
  show "map_of ss i = None" by (rule h2_pairing(2) [OF assms(1-4)])
qed

section \<open>Properties\<close>

text \<open>
  C29. A request and its response on an HTTP/2 connection are reported exactly once, whichever of the two
  parsers gets there first: for every interleaving of the critical sections of the two goroutines, over any
  frames of other streams, a stream with one request and one complete response is finished once, with what
  the response's frames add up to and its own request, and its entry is gone; the body is all the data,
  unless it is marked truncated because the data exceed \<open>maxBody\<close>.
\<close>

theorem h2_pairs_once:
  assumes "steps \<in> shuffles (concat (map frame_steps es)) (concat (map frame_steps ins))"
    and "filter (\<lambda>f. frame_id f = i) es = [ReqHeaders i m p a hfs start]"
    and "complete (filter (\<lambda>f. frame_id f = i) ins)"
    and "h2_run steps [] = (out, ss)"
  shows "\<exists>s. filter (\<lambda>x. fst x = i) out = [(i, s)] \<and> map_of ss i = None \<and>
    s = (fold on_frame (filter (\<lambda>f. frame_id f = i) ins) empty_h2stream)\<lparr>hReq := Some \<lparr>lrMethod = m, lrPath = p, lrHost = a,
         lrTraceParent = headerValue hfs ''traceparent'', lrStart = start\<rparr>\<rparr> \<and>
    (let d = concat (map frame_data (filter (\<lambda>f. frame_id f = i) ins)) in
     if length d \<le> maxBody then hBody s = d \<and> \<not> hTruncated s else hTruncated s)"
  using h2_finished_once [OF assms] by (intro exI conjI) (assumption | rule refl)+

theorem h2_pairs_once_witness:
  "\<exists>s. filter (\<lambda>x. fst x = 1) (fst (h2_run [Touch (RespHeaders 1 ''200'' [] False 5), Touch (ReqHeaders 3 ''GET'' ''/x'' ''h'' [] 2),
        Check 3, Check 1, Touch (RespData 1 [7] True 6), Touch (ReqHeaders 1 ''POST'' ''/v1/chat/completions'' ''h'' [] 4),
        Check 1, Check 1] [])) = [(1, s)] \<and> hStatus s = 200 \<and> hBody s = [7]"
proof -
  let ?es = "[ReqHeaders 3 ''GET'' ''/x'' ''h'' [] 2, ReqHeaders 1 ''POST'' ''/v1/chat/completions'' ''h'' [] 4]"
  let ?ins = "[RespHeaders 1 ''200'' [] False 5, RespData 1 [7] True 6]"
  let ?steps = "[Touch (RespHeaders 1 ''200'' [] False 5), Touch (ReqHeaders 3 ''GET'' ''/x'' ''h'' [] 2),
        Check 3, Check 1, Touch (RespData 1 [7] True 6), Touch (ReqHeaders 1 ''POST'' ''/v1/chat/completions'' ''h'' [] 4),
        Check 1, Check 1]"
  have sh: "?steps \<in> shuffles (concat (map frame_steps ?es)) (concat (map frame_steps ?ins))"
    by (simp add: frame_steps_def Cons_in_shuffles_iff del: shuffles.simps)
  have c: "complete (filter (\<lambda>f. frame_id f = 1) ?ins)" by (simp add: complete_def)
  have e: "filter (\<lambda>f. frame_id f = 1) ?es = [ReqHeaders 1 ''POST'' ''/v1/chat/completions'' ''h'' [] 4]" by simp
  from h2_pairs_once [OF sh e c surjective_pairing]
  obtain s where s: "filter (\<lambda>x. fst x = 1) (fst (h2_run ?steps [])) = [(1, s)]"
    "s = (fold on_frame (filter (\<lambda>f. frame_id f = 1) ?ins) empty_h2stream)\<lparr>hReq := Some \<lparr>lrMethod = ''POST'',
       lrPath = ''/v1/chat/completions'', lrHost = ''h'', lrTraceParent = headerValue [] ''traceparent'', lrStart = 4\<rparr>\<rparr>"
    by (auto simp only:)
  have "statusOf ''200'' = 200" by code_simp
  then have "hStatus s = 200" "hBody s = [7]"
    by (simp_all add: s(2) on_resp_headers_def on_resp_data_def empty_h2stream_def maxBody_def)
  with s(1) show ?thesis by blast
qed









text \<open>
  C30. Whatever the capture feeds and the parsers do, a connection keeps its bounds: at most 16 MiB of
  unparsed bytes per direction, 64 waiting requests and 96 bytes of each head; its failure is reported at
  most once, as is a missed start; and when it is dead both streams are closed, so the parsers end.
\<close>

theorem conn_invariant:
  assumes "conn_reach tag c"
  shows "length (concat (pending (egress c))) \<le> maxBuffered \<and> length (concat (pending (ingress c))) \<le> maxBuffered \<and>
    length (requests c) \<le> 64 \<and> length (heads c dir) \<le> 96 \<and>
    failures (outcomes c) \<le> 1 \<and> length (filter (\<lambda>x. x = OutcomeMissedStart) (outcomes c)) \<le> 1 \<and>
    (failures (outcomes c) = 1 \<longrightarrow> cState c = stateDead) \<and>
    (cState c = stateDead \<longrightarrow> closed (egress c) \<and> closed (ingress c))"
  using conn_reach_ok [OF assms]
  by (cases "cState c = stateDead"; cases "missedStart c") (simp_all add: conn_ok_def stream_ok_def statsHeadLen_def)

theorem conn_invariant_witness:
  "failures (outcomes (Feed Egress (bytes_of ''xyz'') 1 0 (NewConn \<lparr>tagProvider = [], tagHost = []\<rparr>))) \<le> 1"
  using conn_invariant [OF stepped [OF initially fed]] by blast

text \<open>
  C31. A chunk before which the kernel skipped more than 16 MiB kills a live connection as an overflow: the
  zero-fill alone exceeds what a stream may hold, so the allowance of \<open>maxSkip\<close>, 64 MiB, is never used.
\<close>

theorem Feed_skip_overflows:
  assumes "conn_reach tag c" "cState c = stateHTTP1 \<or> cState c = stateHTTP2"
    "unat skipped > maxBuffered" "unat skipped \<le> maxSkip"
  shows "cState (Feed dir data ts skipped c) = stateDead \<and>
    outcomes (Feed dir data ts skipped c) = outcomes c @ [OutcomeOverflow]"
proof -
  let ?c = "feed_stats dir data c"
  have live: "cState ?c \<noteq> stateNew" "cState ?c \<noteq> stateDead" using assms(2) by auto
  have s: "limit (stream_of dir ?c) = maxBuffered"
    using conn_reach_ok [OF assms(1)] by (simp add: conn_ok_def stream_ok_def stream_of_def)
  have pos: "skipped > 0" using assms(3) by (cases "skipped = 0") (simp_all add: word_neq_0_conv)
  obtain st where w: "stream_write (replicate (unat skipped) 0) ts (stream_of dir ?c) = (False, st)"
    using stream_write_refused [of "replicate (unat skipped) 0" "stream_of dir ?c" ts] assms(3) s
    by (cases "stream_write (replicate (unat skipped) 0) ts (stream_of dir ?c)") simp
  have "feed_write dir (replicate (unat skipped) 0) ts ?c = (False, failLocked OutcomeOverflow (set_stream dir st ?c))"
    unfolding feed_write_def w by simp
  then have "feed_bytes dir data ts skipped ?c = failLocked OutcomeOverflow (set_stream dir st ?c)"
    using pos assms(4) by (simp add: feed_bytes_def)
  then have "Feed dir data ts skipped c = failLocked OutcomeOverflow (set_stream dir st ?c)"
    using assms(2) by (elim disjE) (simp_all add: Feed_phases)
  moreover have "cState (set_stream dir st ?c) = cState ?c" "outcomes (set_stream dir st ?c) = outcomes c"
    by (simp_all add: set_stream_def)
  ultimately show ?thesis using live by (simp add: failLocked_def conn_report_def)
qed

theorem Feed_skip_overflows_witness:
  "cState (Feed Egress [] 2 20000000 (Feed Egress (bytes_of ''POST /'') 1 0 (NewConn \<lparr>tagProvider = [], tagHost = []\<rparr>))) = stateDead"
proof -
  let ?c = "Feed Egress (bytes_of ''POST /'') 1 0 (NewConn \<lparr>tagProvider = [], tagHost = []\<rparr>)"
  have "conn_reach \<lparr>tagProvider = [], tagHost = []\<rparr> ?c" by (rule stepped [OF initially fed])
  moreover have "cState ?c = stateHTTP1"
  proof -
    let ?n = "feed_stats Egress (bytes_of ''POST /'') (NewConn \<lparr>tagProvider = [], tagHost = []\<rparr>)"
    have "\<not> prefix ClientPreface (bytes_of ''POST /'')" "looksLikeRequestLine (bytes_of ''POST /'')" by code_simp+
    then have "feed_new Egress (bytes_of ''POST /'') 0 ?n = (?n\<lparr>cState := stateHTTP1, requests := []\<rparr>, True)"
      by (simp add: feed_new_def)
    moreover have "cState ?n = stateNew" "egress ?n = newStream maxBuffered" by (simp_all add: NewConn_def)
    ultimately show ?thesis
      by (simp add: Feed_phases feed_bytes_def feed_write_def stream_of_def stream_write_def newStream_def set_stream_def
          maxBuffered_def bytes_of_def Let_def)
  qed
  ultimately show ?thesis
    using Feed_skip_overflows [of _ ?c 20000000 Egress "[]" 2] by (simp add: maxBuffered_def maxSkip_def)
qed

text \<open>
  An informational response is taken for the final one on HTTP/2: the first status is kept, where the
  HTTP/1.1 parser skips statuses from 100 to 199.
\<close>

lemma h2_informational:
  "hStatus (fold on_frame [RespHeaders 1 ''103'' [] False 1, RespHeaders 1 ''200'' [] False 2, RespData 1 [] True 3] empty_h2stream) = 103"
  by code_simp

text \<open>
  After the client resets a stream it is finished and forgotten, and data still under way opens an entry
  without a request, which no frame of the response finishes.
\<close>

lemma h2_reset_reopens:
  "map_of (snd (h2_run (concat (map frame_steps
     [ReqHeaders 1 ''POST'' ''/'' ''h'' [] 1, RespHeaders 1 ''200'' [] False 2, ReqReset 1 3, RespData 1 [7] True 4])) [])) 1 \<noteq> None"
  by (simp add: frame_steps_def h2_touch_def h2MaybeFinish_def streamLocked_def empty_h2stream_def on_resp_headers_def
      on_resp_data_def Let_def)

end
