(* ===== verification/Fqdn_Cache.thy ===== *)
theory Fqdn_Cache
  imports Prelude "HOL-Library.Multiset"
begin

text \<open>
  The cache of host names by address, \<open>src/common/fqdn_cache.go\<close>. A time is a number of nanoseconds; the
  clock's reading is an argument of every operation. The order in which Go ranges over a map is not
  specified: it is the argument \<open>order\<close>, which rearranges the entries.
\<close>

record Domain =
  FQDN :: string
  SpecifyIP :: bool

definition FQDNCacheMaxEntries :: nat where "FQDNCacheMaxEntries = 10000"

record fqdnCacheEntry =
  fDomain :: Domain
  expires :: int
  lastUsed :: int

type_synonym 'ip entries = "('ip \<times> fqdnCacheEntry) list"

definition expired :: "int \<Rightarrow> fqdnCacheEntry \<Rightarrow> bool" where
  "expired now e \<longleftrightarrow> now > expires e"




definition drop_expired :: "int \<Rightarrow> 'ip entries \<Rightarrow> 'ip entries" where
  "drop_expired now es = filter (\<lambda>(_, e). \<not> expired now e) es"

text \<open>The second loop of \<open>evictLocked\<close>: at most \<open>n\<close> entries not used after the cutoff are deleted.\<close>

fun drop_oldest :: "nat \<Rightarrow> int \<Rightarrow> 'ip entries \<Rightarrow> 'ip entries" where
  "drop_oldest n cutoff [] = []"
| "drop_oldest n cutoff (x # es) =
     (if n = 0 then x # es
      else if \<not> lastUsed (snd x) > cutoff then drop_oldest (n - 1) cutoff es
      else x # drop_oldest n cutoff es)"


definition cutoff_of :: "nat \<Rightarrow> 'ip entries \<Rightarrow> int" where
  "cutoff_of batch es = sort (map (lastUsed \<circ> snd) es) ! (batch - 1)"




text \<open>What \<open>ForEach\<close> visits.\<close>

definition cache_ForEach :: "int \<Rightarrow> 'ip entries \<Rightarrow> ('ip \<times> Domain) list" where
  "cache_ForEach now es = map (\<lambda>(ip, e). (ip, fDomain e)) (drop_expired now es)"


section \<open>Sorted lists\<close>






section \<open>Eviction\<close>














section \<open>Runs\<close>

















section \<open>Properties\<close>



text \<open>
  Ties at the cutoff are broken by the order of the map, so an older entry may survive a newer one that is
  evicted: here the entry used at time 1 stays and those used at time 2 go.
\<close>

definition tie_entries :: "nat entries" where
  "tie_entries = map (\<lambda>(i, t). (i, \<lparr>fDomain = \<lparr>FQDN = ''a'', SpecifyIP = False\<rparr>, expires = 9, lastUsed = t\<rparr>)) [(3, 2), (2, 2), (1, 1)]"

lemma tie_keeps_older: "map (lastUsed \<circ> snd) (drop_oldest 2 (cutoff_of 2 tie_entries) tie_entries) = [1]"
  by code_simp

end
