(* ===== verification/Destination.thy ===== *)
theory Destination
  imports Golib Fqdn_Cache
begin

text \<open>
  Destinations of connections and their labels, \<open>src/common/net.go\<close>, \<open>src/common/fqdn.go\<close> and
  \<open>src/common/vm_resolver.go\<close>. The address package is the argument \<open>na\<close>, the list of public top-level
  domains \<open>isPublicTLD\<close>, the glob package \<open>compile\<close> and \<open>matches\<close>, the flag
  \<open>collapse-internal-destinations\<close> the argument \<open>collapse\<close>.
\<close>

unbundle bit_operations_syntax

section \<open>Addresses\<close>

record ('ip, 'pfx) netaddr =
  isZero :: "'ip \<Rightarrow> bool"
  ip_String :: "'ip \<Rightarrow> string"
  isPrivate :: "'ip \<Rightarrow> bool"
  is4 :: "'ip \<Rightarrow> bool"
  as4 :: "'ip \<Rightarrow> u8 \<times> u8 \<times> u8 \<times> u8"
  is6 :: "'ip \<Rightarrow> bool"
  isLoopback :: "'ip \<Rightarrow> bool"
  isLinkLocalUnicast :: "'ip \<Rightarrow> bool"
  prefixFrom :: "'ip \<Rightarrow> nat \<Rightarrow> 'pfx"
  pfx_String :: "'pfx \<Rightarrow> string"
  contains :: "'pfx \<Rightarrow> 'ip \<Rightarrow> bool"
  parseIP :: "string \<Rightarrow> 'ip option"

definition IsIpPrivate :: "('ip, 'pfx) netaddr \<Rightarrow> 'ip \<Rightarrow> bool" where
  "IsIpPrivate na ip =
     (if isPrivate na ip then True
      else if is4 na ip then (case as4 na ip of (a, b, _, _) \<Rightarrow> a = 100 \<and> b AND 0xc0 = 64)
      else False)"

definition IsIpExternal :: "('ip, 'pfx) netaddr \<Rightarrow> 'ip \<Rightarrow> bool" where
  "IsIpExternal na ip \<longleftrightarrow> \<not> isLoopback na ip \<and> \<not> IsIpPrivate na ip"

section \<open>Filters\<close>

type_synonym 'pfx whitelist = "(string \<times> 'pfx) list"

definition WhitelistPrefix :: "('ip, 'pfx) netaddr \<Rightarrow> 'pfx \<Rightarrow> 'pfx whitelist \<Rightarrow> 'pfx whitelist" where
  "WhitelistPrefix na p f = (if map_of f (pfx_String na p) \<noteq> None then f else AList.update (pfx_String na p) p f)"

definition WhitelistIP :: "('ip, 'pfx) netaddr \<Rightarrow> 'ip \<Rightarrow> 'pfx whitelist \<Rightarrow> 'pfx whitelist" where
  "WhitelistIP na ip f = WhitelistPrefix na (prefixFrom na ip (if is6 na ip then 128 else 32)) f"

definition connection_ShouldBeSkipped ::
  "('ip, 'pfx) netaddr \<Rightarrow> 'ip \<Rightarrow> 'ip \<Rightarrow> 'pfx whitelist \<Rightarrow> bool \<times> 'pfx whitelist" where
  "connection_ShouldBeSkipped na dst actualDst f =
     (if isLinkLocalUnicast na dst then (True, f)
      else if IsIpPrivate na dst \<or> isLoopback na dst then (False, f)
      else if list_ex (\<lambda>(_, p). contains na p dst) f then (False, f)
      else if IsIpPrivate na actualDst \<or> isLoopback na actualDst then (False, WhitelistIP na dst f)
      else if list_ex (\<lambda>(_, p). contains na p actualDst) f then (False, WhitelistIP na dst f)
      else (True, f))"

text \<open>\<open>strings.Fields\<close>.\<close>

function word_len :: "bytes \<Rightarrow> nat" where
  "word_len p =
     (if p = [] then 0
      else if IsSpace (fst (decode_rune p)) then 0
      else snd (decode_rune p) + word_len (drop (snd (decode_rune p)) p))"
  by pat_completeness auto
termination
proof (relation "measure length", goal_cases)
  case (2 p)
  then show ?case using decode_rune_size [of p "fst (decode_rune p)" "snd (decode_rune p)"] by auto
qed simp

declare word_len.simps [simp del]

function fields_of :: "bytes \<Rightarrow> bytes list" where
  "fields_of p =
     (let q = trim_left p; n = word_len q in
      if q = [] \<or> n = 0 then [] else if length (drop n q) < length p then take n q # fields_of (drop n q) else [])"
  by pat_completeness auto
termination by (relation "measure length") (auto simp: Let_def)

declare fields_of.simps [simp del]

record portRange =
  rangeFrom :: u16
  rangeTo :: u16

fun port_ranges :: "string list \<Rightarrow> portRange list option" where
  "port_ranges [] = Some []"
| "port_ranges (r # rs) =
     (case bytes_cut ''-'' r of (from, to, ok) \<Rightarrow>
        if \<not> ok then None
        else do {
          f1 \<leftarrow> parse_uint 16 from;
          t1 \<leftarrow> parse_uint 16 to;
          (if f1 > t1 then None
           else do { rest \<leftarrow> port_ranges rs; Some (\<lparr>rangeFrom = of_nat f1, rangeTo = of_nat t1\<rparr> # rest) })
        })"

definition newPortFilter :: "string \<Rightarrow> portRange list option" where
  "newPortFilter s =
     (case port_ranges (map gostr (fields_of (bytes_of (map (\<lambda>c. if c = CHR '','' then CHR '' '' else c) s)))) of
        None \<Rightarrow> None
      | Some ranges \<Rightarrow> if ranges = [] then None else Some ranges)"

definition wellKnownPorts :: "u16 list" where "wellKnownPorts = [50051]"

definition port_ShouldBeSkipped :: "portRange list option \<Rightarrow> u16 \<Rightarrow> bool" where
  "port_ShouldBeSkipped f port =
     (case f of
        None \<Rightarrow> False
      | Some ranges \<Rightarrow>
          if port \<in> set wellKnownPorts then False
          else list_ex (\<lambda>r. port \<ge> rangeFrom r \<and> port \<le> rangeTo r) ranges)"

fun newHttpFilter :: "(string \<Rightarrow> 'g option) \<Rightarrow> string list \<Rightarrow> 'g list option" where
  "newHttpFilter compile [] = Some []"
| "newHttpFilter compile (p # ps) = do { g \<leftarrow> compile p; gs \<leftarrow> newHttpFilter compile ps; Some (g # gs) }"

definition http_ShouldBeSkipped :: "('g \<Rightarrow> string \<Rightarrow> bool) \<Rightarrow> 'g list \<Rightarrow> string \<Rightarrow> bool" where
  "http_ShouldBeSkipped matches globs path = list_ex (\<lambda>g. matches g path) globs"

section \<open>Host and port\<close>

record 'ip HostPort =
  hpHost :: string
  hpIP :: 'ip
  hpPort :: u16

definition HostPortFromIPPort :: "'ip \<times> u16 \<Rightarrow> 'ip HostPort" where
  "HostPortFromIPPort ipPort = \<lparr>hpHost = [], hpIP = fst ipPort, hpPort = snd ipPort\<rparr>"

text \<open>\<open>zero\<close> is the zero value of an address.\<close>

definition HostPortWithEmptyIP :: "'ip \<Rightarrow> string \<Rightarrow> u16 \<Rightarrow> 'ip HostPort" where
  "HostPortWithEmptyIP zero host port = \<lparr>hpHost = host, hpIP = zero, hpPort = port\<rparr>"

definition HostPort_Host :: "('ip, 'pfx) netaddr \<Rightarrow> 'ip HostPort \<Rightarrow> string" where
  "HostPort_Host na hp = (if \<not> isZero na (hpIP hp) then ip_String na (hpIP hp) else hpHost hp)"

text \<open>\<open>net.JoinHostPort\<close>.\<close>

definition JoinHostPort :: "string \<Rightarrow> string \<Rightarrow> string" where
  "JoinHostPort host port =
     (if CHR '':'' \<in> set host then ''['' @ host @ '']:'' @ port else host @ '':'' @ port)"

definition HostPort_String :: "('ip, 'pfx) netaddr \<Rightarrow> 'ip HostPort \<Rightarrow> string" where
  "HostPort_String na hp =
     (if hpPort hp = 0 then [] else JoinHostPort (HostPort_Host na hp) (itoa (uint (hpPort hp))))"

definition StripPort :: "string \<Rightarrow> string" where
  "StripPort hostPort =
     (case SplitHostPort hostPort of
        Some (host, _) \<Rightarrow> host
      | None \<Rightarrow>
          if prefix ''['' hostPort \<and> suffix '']'' hostPort then take (length hostPort - 2) (drop 1 hostPort) else hostPort)"

text \<open>\<open>parse\<close> is \<open>net.ParseIP\<close>, of which only the success is looked at.\<close>

definition IsIPAddress :: "(string \<Rightarrow> bool) \<Rightarrow> string \<Rightarrow> bool" where
  "IsIPAddress parse host = parse (StripPort host)"

definition NeedsFQDN :: "(string \<Rightarrow> bool) \<Rightarrow> string \<Rightarrow> bool" where
  "NeedsFQDN parse name \<longleftrightarrow> name = [] \<or> IsIPAddress parse name"

section \<open>Workloads and labels\<close>

record Workload =
  wName :: string
  wNamespace :: string
  wKind :: string
  wRegion :: string
  wZone :: string
  wInstance :: string

definition VMWorkloadKind :: string where "VMWorkloadKind = ''vm''"
definition PrivateWorkloadKind :: string where "PrivateWorkloadKind = ''private''"

record 'ip DestinationKey =
  destination :: "'ip HostPort"
  actualDestination :: "'ip HostPort"
  destinationWorkload :: Workload
  actualDestinationWorkload :: Workload

definition ActualDestinationIfKnown :: "'ip DestinationKey \<Rightarrow> 'ip HostPort" where
  "ActualDestinationIfKnown dk = (if hpPort (actualDestination dk) \<noteq> 0 then actualDestination dk else destination dk)"

definition isHostDestination :: "Workload \<Rightarrow> bool" where
  "isHostDestination wl \<longleftrightarrow> wKind wl = VMWorkloadKind \<or> wKind wl = PrivateWorkloadKind"

definition workload_id :: "Workload \<Rightarrow> string" where
  "workload_id wl = (if wNamespace wl \<noteq> [] then wNamespace wl @ ''/'' @ wName wl else wName wl)"

definition destinationLabelValue :: "('ip, 'pfx) netaddr \<Rightarrow> bool option \<Rightarrow> 'ip HostPort \<Rightarrow> Workload \<Rightarrow> string" where
  "destinationLabelValue na collapse hp wl =
     (if isZero na (hpIP hp) then HostPort_String na hp
      else if collapse = None \<or> collapse = Some False \<or> isHostDestination wl then HostPort_String na hp
      else if wName wl \<noteq> [] \<and> wName wl \<noteq> ip_String na (hpIP hp) then workload_id wl
      else if IsIpPrivate na (hpIP hp) then ip_String na (hpIP hp)
      else HostPort_String na hp)"

definition DestinationIPLabelValue :: "('ip, 'pfx) netaddr \<Rightarrow> bool option \<Rightarrow> 'ip \<Rightarrow> Workload \<Rightarrow> string" where
  "DestinationIPLabelValue na collapse ip wl =
     (if collapse = None \<or> collapse = Some False \<or> isHostDestination wl then ip_String na ip
      else if IsIpPrivate na ip \<and> wName wl \<noteq> [] \<and> wName wl \<noteq> ip_String na ip then workload_id wl
      else ip_String na ip)"

definition DestinationLabelValue :: "('ip, 'pfx) netaddr \<Rightarrow> bool option \<Rightarrow> 'ip DestinationKey \<Rightarrow> string" where
  "DestinationLabelValue na collapse dk = destinationLabelValue na collapse (destination dk) (destinationWorkload dk)"

definition ActualDestinationLabelValue :: "('ip, 'pfx) netaddr \<Rightarrow> bool option \<Rightarrow> 'ip DestinationKey \<Rightarrow> string" where
  "ActualDestinationLabelValue na collapse dk =
     destinationLabelValue na collapse (actualDestination dk) (actualDestinationWorkload dk)"

definition DestinationKey_String :: "('ip, 'pfx) netaddr \<Rightarrow> 'ip DestinationKey \<Rightarrow> string" where
  "DestinationKey_String na dk =
     HostPort_String na (destination dk) @ '' ('' @ HostPort_String na (actualDestination dk) @ '')''"

definition NewDomain :: "string \<Rightarrow> 'ip list \<Rightarrow> Domain" where
  "NewDomain fqdn ips = \<lparr>FQDN = fqdn, SpecifyIP = False\<rparr>"

definition isKubernetesResolved :: "Workload \<Rightarrow> bool" where
  "isKubernetesResolved w \<longleftrightarrow> wKind w \<noteq> [] \<and> wKind w \<noteq> ''external''"

definition named_by :: "string \<Rightarrow> Workload \<Rightarrow> Workload" where
  "named_by fqdn w = (if \<not> isKubernetesResolved w then w\<lparr>wName := fqdn\<rparr> else w)"

definition NewDestinationKey ::
  "('ip, 'pfx) netaddr \<Rightarrow> 'ip \<Rightarrow> 'ip \<times> u16 \<Rightarrow> 'ip \<times> u16 \<Rightarrow> Domain option \<Rightarrow> Workload \<Rightarrow> Workload \<Rightarrow> 'ip DestinationKey" where
  "NewDestinationKey na zero dst actualDst domain dstWorkload actualDestWorkload =
     (case domain of
        Some d \<Rightarrow>
          if IsIpExternal na (fst actualDst) \<and> \<not> SpecifyIP d then
            \<lparr>destination = HostPortWithEmptyIP zero (FQDN d) (snd dst), actualDestination = HostPortFromIPPort actualDst,
             destinationWorkload = named_by (FQDN d) dstWorkload, actualDestinationWorkload = named_by (FQDN d) actualDestWorkload\<rparr>
          else
            \<lparr>destination = HostPortFromIPPort dst, actualDestination = HostPortFromIPPort actualDst,
             destinationWorkload = dstWorkload, actualDestinationWorkload = actualDestWorkload\<rparr>
      | None \<Rightarrow>
          \<lparr>destination = HostPortFromIPPort dst, actualDestination = HostPortFromIPPort actualDst,
           destinationWorkload = dstWorkload, actualDestinationWorkload = actualDestWorkload\<rparr>)"

definition WithResolvedDomain :: "'ip \<Rightarrow> string \<Rightarrow> 'ip DestinationKey \<Rightarrow> 'ip DestinationKey" where
  "WithResolvedDomain zero fqdn dk =
     dk\<lparr>destination := HostPortWithEmptyIP zero fqdn (hpPort (destination dk)),
        destinationWorkload := named_by fqdn (destinationWorkload dk),
        actualDestinationWorkload := named_by fqdn (actualDestinationWorkload dk)\<rparr>"

section \<open>Names in DNS requests\<close>

definition search_path_suffix :: string where "search_path_suffix = ''.search_path_suffix''"

text \<open>
  The loop of \<open>NormalizeFQDN\<close>: \<open>done\<close> is what has been read, \<open>label\<close> the current label. The buffer replaces
  invalid bytes, which does not change whether it is one of the four names.
\<close>

fun normalize_labels :: "string \<Rightarrow> string \<Rightarrow> string \<Rightarrow> nat \<Rightarrow> string option" where
  "normalize_labels read label [] partsCount = None"
| "normalize_labels read label (c # cs) partsCount =
     (if c \<noteq> CHR ''.'' then normalize_labels (read @ [c]) (label @ [c]) cs partsCount
      else if partsCount > 0 \<and> label \<in> {''com'', ''net'', ''org'', ''io''} then Some read
      else normalize_labels (read @ [c]) [] cs (Suc partsCount))"

definition NormalizeFQDN :: "string \<Rightarrow> string \<Rightarrow> string" where
  "NormalizeFQDN fqdn requestType =
     (let rest = (case normalize_labels [] [] fqdn 0 of None \<Rightarrow> fqdn | Some n \<Rightarrow> n @ search_path_suffix) in
      if requestType = ''TypePTR'' then ''IP.in-addr.arpa''
      else if prefix ''ip-'' fqdn then
        (case str_index ''.'' fqdn of
           Some idx \<Rightarrow> if idx > 0 \<and> prefix ''ec2'' (drop (Suc idx) fqdn) then ''IP.ec2'' @ drop (idx + 4) fqdn else rest
         | None \<Rightarrow> rest)
      else rest)"

fun collapse_labels :: "(string \<Rightarrow> bool) \<Rightarrow> string \<Rightarrow> string \<Rightarrow> string \<Rightarrow> nat \<Rightarrow> string option" where
  "collapse_labels isPublicTLD read label [] labels = None"
| "collapse_labels isPublicTLD read label (c # cs) labels =
     (if cs = [] then None
      else if c \<noteq> CHR ''.'' then collapse_labels isPublicTLD (read @ [c]) (label @ [c]) cs labels
      else if Suc labels \<ge> 2 \<and> (label = ''svc'' \<or> isPublicTLD label) then Some read
      else collapse_labels isPublicTLD (read @ [c]) [] cs (Suc labels))"

definition CollapseSearchPath :: "(string \<Rightarrow> bool) \<Rightarrow> string \<Rightarrow> string" where
  "CollapseSearchPath isPublicTLD fqdn =
     (case collapse_labels isPublicTLD [] [] fqdn 0 of None \<Rightarrow> fqdn | Some n \<Rightarrow> n @ search_path_suffix)"

section \<open>The resolver of a standalone host\<close>

text \<open>
  The cache of captured DNS names is a third-party LRU cache; \<open>dns_Get\<close> is its lookup.
\<close>

record 'ip VMIPResolver =
  hostname :: string
  localIPs :: "'ip list"
  shouldResolveDns :: bool

definition mk_workload :: "string \<Rightarrow> string \<Rightarrow> string \<Rightarrow> Workload" where
  "mk_workload name namespace kind =
     \<lparr>wName = name, wNamespace = namespace, wKind = kind, wRegion = [], wZone = [], wInstance = []\<rparr>"

definition LoopbackWorkload :: Workload where
  "LoopbackWorkload = mk_workload ''localhost'' ''localhost'' ''localhost''"

definition hostWorkload :: "'ip VMIPResolver \<Rightarrow> Workload" where
  "hostWorkload r = mk_workload (hostname r) (hostname r) VMWorkloadKind"

definition vm_ResolveIP ::
  "('ip, 'pfx) netaddr \<Rightarrow> (string \<Rightarrow> string option) \<Rightarrow> 'ip VMIPResolver \<Rightarrow> string \<Rightarrow> Workload" where
  "vm_ResolveIP na dns_Get r ip =
     (let parsed = parseIP na (StripPort ip);
          host = (if shouldResolveDns r then (case dns_Get ip of Some v \<Rightarrow> v | None \<Rightarrow> ip) else ip);
          unknown = (if (case parsed of Some p \<Rightarrow> IsIpPrivate na p | None \<Rightarrow> False)
                     then mk_workload host PrivateWorkloadKind PrivateWorkloadKind
                     else mk_workload host ''external'' ''external'') in
      case parsed of
        None \<Rightarrow> unknown
      | Some p \<Rightarrow>
          if isLoopback na p then LoopbackWorkload
          else if p \<in> set (localIPs r) then hostWorkload r
          else unknown)"

definition vm_ResolveSource ::
  "('ip, 'pfx) netaddr \<Rightarrow> (string \<Rightarrow> string option) \<Rightarrow> 'ip VMIPResolver \<Rightarrow> string \<Rightarrow> Workload \<Rightarrow> Workload" where
  "vm_ResolveSource na dns_Get r ip container =
     (if wName container = [] then vm_ResolveIP na dns_Get r ip
      else mk_workload (wName container) (hostname r) (wKind container))"

definition vm_CacheDNS_workload :: "string \<Rightarrow> Workload" where
  "vm_CacheDNS_workload dns = mk_workload dns ''external'' ''external''"

definition vm_ResolvePodOwner :: "string \<Rightarrow> string \<Rightarrow> Workload" where
  "vm_ResolvePodOwner podName podNamespace = mk_workload podName podNamespace ''Pod''"

definition refreshLocalIPs :: "'ip list option \<Rightarrow> 'ip VMIPResolver \<Rightarrow> 'ip VMIPResolver" where
  "refreshLocalIPs listed r = (case listed of None \<Rightarrow> r | Some ips \<Rightarrow> r\<lparr>localIPs := remdups ips\<rparr>)"

section \<open>The whitelist\<close>

definition whitelist_ok :: "('ip, 'pfx) netaddr \<Rightarrow> 'pfx whitelist \<Rightarrow> bool" where
  "whitelist_ok na f \<longleftrightarrow> (\<forall>(k, p) \<in> set f. k = pfx_String na p)"

definition covered_by :: "('ip, 'pfx) netaddr \<Rightarrow> 'ip \<Rightarrow> 'pfx whitelist \<Rightarrow> bool" where
  "covered_by na ip f = list_ex (\<lambda>(_, p). contains na p ip) f"

text \<open>
  What the address package promises of a valid address: the prefix of that one address contains it, and no
  other prefix has the same text. The zero address has neither: no prefix contains it, and invalid prefixes
  share one text.
\<close>

definition prefix_ok :: "('ip, 'pfx) netaddr \<Rightarrow> 'ip \<Rightarrow> bool" where
  "prefix_ok na ip \<longleftrightarrow>
     (let p = prefixFrom na ip (if is6 na ip then 128 else 32) in
      contains na p ip \<and> (\<forall>q. pfx_String na q = pfx_String na p \<longrightarrow> q = p))"

lemma update_absent: "map_of f k = None \<Longrightarrow> AList.update k v f = f @ [(k, v)]"
  by (induction f) (auto split: if_splits)

lemma WhitelistPrefix_keeps: "whitelist_ok na f \<Longrightarrow> whitelist_ok na (WhitelistPrefix na p f)" "set f \<subseteq> set (WhitelistPrefix na p f)"
  by (auto simp: WhitelistPrefix_def whitelist_ok_def update_absent)

lemma covered_mono: "covered_by na ip f \<Longrightarrow> set f \<subseteq> set f' \<Longrightarrow> covered_by na ip f'"
  by (auto simp: covered_by_def list_ex_iff)

lemma WhitelistIP_covers:
  assumes "prefix_ok na ip" "whitelist_ok na f"
  shows "covered_by na ip (WhitelistIP na ip f)"
proof -
  let ?p = "prefixFrom na ip (if is6 na ip then 128 else 32)"
  have c: "contains na ?p ip" using assms(1) by (simp add: prefix_ok_def Let_def)
  show ?thesis
  proof (cases "map_of f (pfx_String na ?p)")
    case None
    then show ?thesis using c by (simp add: WhitelistIP_def WhitelistPrefix_def update_absent covered_by_def)
  next
    case (Some q)
    then have "q = ?p"
      using assms map_of_SomeD [OF Some] by (auto simp: whitelist_ok_def prefix_ok_def Let_def)
    then show ?thesis
      using c map_of_SomeD [OF Some] Some by (auto simp: WhitelistIP_def WhitelistPrefix_def covered_by_def list_ex_iff)
  qed
qed

definition filter_step :: "('ip, 'pfx) netaddr \<Rightarrow> 'ip \<times> 'ip \<Rightarrow> 'pfx whitelist \<Rightarrow> 'pfx whitelist" where
  "filter_step na c f = snd (connection_ShouldBeSkipped na (fst c) (snd c) f)"

lemma filter_step_keeps: "whitelist_ok na f \<Longrightarrow> whitelist_ok na (filter_step na c f)" "set f \<subseteq> set (filter_step na c f)"
  by (simp_all add: filter_step_def connection_ShouldBeSkipped_def WhitelistIP_def WhitelistPrefix_keeps)

lemma filter_run_keeps:
  "whitelist_ok na f \<Longrightarrow> whitelist_ok na (fold (filter_step na) cs f)" "set f \<subseteq> set (fold (filter_step na) cs f)"
proof (induction cs arbitrary: f)
  case (Cons c cs)
  { case 1 then show ?case using Cons.IH(1) by (simp add: filter_step_keeps(1)) }
  { case 2 show ?case using Cons.IH(2) [of "filter_step na c f"] filter_step_keeps(2) [of f na c] by auto }
qed simp_all

lemma whitelist_run_ok: "whitelist_ok na f \<Longrightarrow> whitelist_ok na (fold (WhitelistPrefix na) ps f)"
  by (induction ps arbitrary: f) (simp_all add: WhitelistPrefix_keeps)

lemma ShouldBeSkipped_iff:
  "fst (connection_ShouldBeSkipped na dst actual f) \<longleftrightarrow>
     isLinkLocalUnicast na dst \<or>
     \<not> (IsIpPrivate na dst \<or> isLoopback na dst \<or> covered_by na dst f \<or>
        IsIpPrivate na actual \<or> isLoopback na actual \<or> covered_by na actual f)"
  by (auto simp: connection_ShouldBeSkipped_def covered_by_def)

lemma let_through:
  assumes "prefix_ok na dst" "whitelist_ok na f" "\<not> fst (connection_ShouldBeSkipped na dst actual f)"
  shows "\<not> isLinkLocalUnicast na dst \<and> (IsIpPrivate na dst \<or> isLoopback na dst \<or> covered_by na dst (filter_step na (dst, actual) f))"
  using assms(3) WhitelistIP_covers [OF assms(1,2)]
  by (auto simp: filter_step_def connection_ShouldBeSkipped_def covered_by_def split: if_splits)

section \<open>Separators\<close>

lemma occurs_single: "occurs_at [x] s i \<longleftrightarrow> i < length s \<and> s ! i = x"
proof (cases "i < length s")
  case True
  then have "drop i s = s ! i # drop (Suc i) s" by (simp add: Cons_nth_drop_Suc)
  then show ?thesis using True by (auto simp: occurs_at_def)
next
  case False
  then show ?thesis by (simp add: occurs_at_def)
qed

lemma find_first: "P x \<Longrightarrow> \<forall>y \<in> set xs. \<not> P y \<Longrightarrow> List.find P (xs @ x # ys) = Some x"
  by (induction xs) auto

lemma upt_at: "i < n \<Longrightarrow> [0..<n] = [0..<i] @ i # [Suc i..<n]"
  using upt_add_eq_append [of 0 i "n - i"] by (simp add: upt_conv_Cons)

lemma index_single: "x \<notin> set a \<Longrightarrow> str_index [x] (a @ x # b) = Some (length a)"
proof -
  assume x: "x \<notin> set a"
  have u: "[0..<Suc (length (a @ x # b))] = [0..<length a] @ length a # [Suc (length a)..<Suc (length (a @ x # b))]"
    by (rule upt_at) simp
  have "\<forall>i \<in> set [0..<length a]. \<not> occurs_at [x] (a @ x # b) i"
    using x by (auto simp: occurs_single nth_append)
  moreover have "occurs_at [x] (a @ x # b) (length a)" by (simp add: occurs_single)
  ultimately show ?thesis unfolding str_index_def u by (intro find_first)
qed

lemma last_index_single: "x \<notin> set b \<Longrightarrow> last_index [x] (a @ x # b) = Some (length a)"
proof -
  assume x: "x \<notin> set b"
  have u: "rev [0..<Suc (length (a @ x # b))] = rev [Suc (length a)..<Suc (length (a @ x # b))] @ length a # rev [0..<length a]"
    using upt_at [of "length a" "Suc (length (a @ x # b))"] by (simp del: upt_Suc)
  have "\<forall>i \<in> set (rev [Suc (length a)..<Suc (length (a @ x # b))]). \<not> occurs_at [x] (a @ x # b) i"
  proof (intro ballI notI)
    fix i assume i: "i \<in> set (rev [Suc (length a)..<Suc (length (a @ x # b))])" "occurs_at [x] (a @ x # b) i"
    then have "i < length (a @ x # b)" "(a @ x # b) ! i = x" "length a < i" by (auto simp: occurs_single)
    then have "b ! (i - Suc (length a)) = x" "i - Suc (length a) < length b" by (auto simp: nth_append nth_Cons')
    with x show False by (metis nth_mem)
  qed
  moreover have "occurs_at [x] (a @ x # b) (length a)" by (simp add: occurs_single)
  ultimately show ?thesis unfolding last_index_def u by (intro find_first)
qed

lemma format_nat_digits: "list_all is_digit (format_nat n)"
proof (induction n rule: format_nat.induct)
  case (1 n)
  have d: "is_digit (digit d)" if "d < 10" for d using that of_char_digit [OF that] by (simp add: is_digit_def ord_def)
  show ?case using 1 d by (subst format_nat.simps) simp
qed

lemma SplitHostPort_Join:
  assumes "CHR '':'' \<notin> set port" "CHR ''['' \<notin> set port" "CHR '']'' \<notin> set port" "CHR ''['' \<notin> set host" "CHR '']'' \<notin> set host"
  shows "SplitHostPort (JoinHostPort host port) = Some (host, port)"
proof (cases "CHR '':'' \<in> set host")
  case True
  let ?s = "''['' @ host @ '']:'' @ port"
  have i: "last_index '':'' ?s = Some (length host + 2)"
    using last_index_single [OF assms(1), of "''['' @ host @ '']''"] by simp
  have e: "str_index '']'' ?s = Some (length host + 1)"
    using index_single [of "CHR '']''" "''['' @ host" "'':'' @ port"] assms(5) by simp
  show ?thesis
    using True assms unfolding JoinHostPort_def SplitHostPort_def by (simp add: i [simplified] e [simplified])
next
  case False
  have i: "last_index '':'' (host @ '':'' @ port) = Some (length host)"
    using last_index_single [OF assms(1), of host] by simp
  have p: "\<not> prefix ''['' (host @ '':'' @ port)" using assms(4) by (cases host) auto
  show ?thesis
    using False assms p unfolding JoinHostPort_def SplitHostPort_def by (simp add: i [simplified])
qed

section \<open>Search paths\<close>

definition dots :: "string list \<Rightarrow> string" where
  "dots ls = concat (map (\<lambda>l. l @ ''.'') ls)"

lemma collapse_skip_label:
  "CHR ''.'' \<notin> set l \<Longrightarrow> cs \<noteq> [] \<Longrightarrow>
     collapse_labels tld read label (l @ cs) n = collapse_labels tld (read @ l) (label @ l) cs n"
  by (induction l arbitrary: read label) auto

lemma collapse_labels_skip:
  assumes "cs \<noteq> []"
  shows "list_all (\<lambda>l. CHR ''.'' \<notin> set l) ls \<Longrightarrow> list_all (\<lambda>l. l \<noteq> ''svc'' \<and> \<not> tld l) (if n = 0 then drop 1 ls else ls) \<Longrightarrow>
    collapse_labels tld read [] (dots ls @ cs) n = collapse_labels tld (read @ dots ls) [] cs (n + length ls)"
proof (induction ls arbitrary: read n)
  case (Cons l ls)
  have "collapse_labels tld read [] (dots (l # ls) @ cs) n = collapse_labels tld (read @ l) l (CHR ''.'' # dots ls @ cs) n"
    using Cons.prems(1) collapse_skip_label [of l "CHR ''.'' # dots ls @ cs" tld read "[]" n] by (simp add: dots_def)
  also have "\<dots> = collapse_labels tld (read @ l @ ''.'') [] (dots ls @ cs) (Suc n)"
    using Cons.prems(2) assms by (auto split: if_splits)
  also have "\<dots> = collapse_labels tld ((read @ l @ ''.'') @ dots ls) [] cs (Suc n + length ls)"
    using Cons.prems by (intro Cons.IH) (auto split: if_splits)
  finally show ?case by (simp add: dots_def)
qed (simp add: dots_def)

definition dotted :: "string list \<Rightarrow> string" where
  "dotted labels = dots (butlast labels) @ last labels"

lemma collapse_at:
  assumes "ls \<noteq> []" "list_all (\<lambda>l. CHR ''.'' \<notin> set l) (ls @ [lab])" "list_all (\<lambda>l. l \<noteq> ''svc'' \<and> \<not> tld l) (drop 1 ls)"
    "lab = ''svc'' \<or> tld lab" "search \<noteq> []"
  shows "CollapseSearchPath tld (dots ls @ lab @ ''.'' @ search) = dots ls @ lab @ ''.search_path_suffix''"
proof -
  have "collapse_labels tld [] [] (dots ls @ lab @ ''.'' @ search) 0 = collapse_labels tld (dots ls) [] (lab @ ''.'' @ search) (length ls)"
    using collapse_labels_skip [of "lab @ ''.'' @ search" ls tld 0 "[]"] assms by simp
  also have "\<dots> = collapse_labels tld (dots ls @ lab) lab (''.'' @ search) (length ls)"
    using collapse_skip_label [of lab "''.'' @ search" tld "dots ls" "[]" "length ls"] assms(2) by simp
  also have "\<dots> = Some (dots ls @ lab)" using assms(1,4,5) by (cases ls) auto
  finally show ?thesis by (simp add: CollapseSearchPath_def search_path_suffix_def)
qed

lemma collapse_last_label: "CHR ''.'' \<notin> set l \<Longrightarrow> collapse_labels tld read label l n = None"
  by (induction l arbitrary: read label) auto

lemma collapse_none:
  assumes "list_all (\<lambda>l. CHR ''.'' \<notin> set l) ls" "CHR ''.'' \<notin> set l" "l \<noteq> []" "list_all (\<lambda>l. l \<noteq> ''svc'' \<and> \<not> tld l) (drop 1 ls)"
  shows "CollapseSearchPath tld (dots ls @ l) = dots ls @ l"
  using collapse_labels_skip [of l ls tld 0 "[]"] assms by (simp add: CollapseSearchPath_def collapse_last_label)

section \<open>Properties\<close>

text \<open>A small address package: addresses are numbers, 0 is the zero address and those below 100 are private.\<close>

definition example_na :: "(nat, nat) netaddr" where
  "example_na = \<lparr>isZero = (\<lambda>i. i = 0), ip_String = format_nat, isPrivate = (\<lambda>i. i < 100), is4 = (\<lambda>_. False),
     as4 = (\<lambda>_. (0, 0, 0, 0)), is6 = (\<lambda>_. True), isLoopback = (\<lambda>_. False), isLinkLocalUnicast = (\<lambda>_. False),
     prefixFrom = (\<lambda>i _. i), pfx_String = format_nat, contains = (=), parseIP = (\<lambda>_. None)\<rparr>"

text \<open>
  C37. Which label a name that was not found gets. A name is cut behind the first of its labels, the first
  and the last label apart, that is \<open>svc\<close> or a public top-level domain, and what follows becomes
  \<open>search_path_suffix\<close>; a name without such a label keeps its own label. So the attempts of a resolver at
  a name like \<open>api.example.com\<close>, of at least two labels that ends in such a label and has none inside, get
  one label for every search domain, while the bare name and names such as \<open>redis.cluster.local\<close> stay as
  they are. The last label is not empty: names are taken without their final dot.
\<close>

theorem CollapseSearchPath_labels:
  assumes "list_all (\<lambda>l. CHR ''.'' \<notin> set l) labels" "labels \<noteq> []" "last labels \<noteq> []"
  shows "(labels = ls @ lab # search \<and> ls \<noteq> [] \<and> search \<noteq> [] \<and> (lab = ''svc'' \<or> tld lab) \<and>
      list_all (\<lambda>l. l \<noteq> ''svc'' \<and> \<not> tld l) (drop 1 ls) \<longrightarrow>
        CollapseSearchPath tld (dotted labels) = dotted (ls @ [lab]) @ ''.search_path_suffix'') \<and>
    (list_all (\<lambda>l. l \<noteq> ''svc'' \<and> \<not> tld l) (drop 1 (butlast labels)) \<longrightarrow>
        CollapseSearchPath tld (dotted labels) = dotted labels)"
proof (intro conjI impI, elim conjE)
  assume l: "labels = ls @ lab # search" "ls \<noteq> []" "search \<noteq> []" "lab = ''svc'' \<or> tld lab"
    "list_all (\<lambda>l. l \<noteq> ''svc'' \<and> \<not> tld l) (drop 1 ls)"
  have "dotted labels = dots ls @ lab @ ''.'' @ dotted search" using l(1,3) by (simp add: dotted_def dots_def butlast_append)
  moreover have "dotted search \<noteq> []" using l(1,3) assms(3) by (simp add: dotted_def)
  ultimately show "CollapseSearchPath tld (dotted labels) = dotted (ls @ [lab]) @ ''.search_path_suffix''"
    using collapse_at [of ls lab tld "dotted search"] l assms(1) by (simp add: dotted_def)
next
  assume "list_all (\<lambda>l. l \<noteq> ''svc'' \<and> \<not> tld l) (drop 1 (butlast labels))"
  moreover have "list_all (\<lambda>l. CHR ''.'' \<notin> set l) (butlast labels)" "CHR ''.'' \<notin> set (last labels)"
    using assms(1,2) by (auto simp: list_all_iff dest: in_set_butlastD)
  ultimately show "CollapseSearchPath tld (dotted labels) = dotted labels"
    using assms(3) by (simp add: collapse_none dotted_def)
qed

theorem CollapseSearchPath_labels_witness:
  "CollapseSearchPath (\<lambda>l. l = ''com'') ''api.example.com.ns.svc.cluster.local'' = ''api.example.com.search_path_suffix''"
  using CollapseSearchPath_labels [of "[''api'', ''example'', ''com'', ''ns'', ''svc'', ''cluster'', ''local'']"
      "[''api'', ''example'']" "''com''" "[''ns'', ''svc'', ''cluster'', ''local'']" "\<lambda>l. l = ''com''"]
  by (simp add: dotted_def dots_def)

text \<open>
  C38. A destination that was let through stays let through: once the filter has decided to keep a
  connection to an address, it keeps every later connection to that address, whatever connections it
  decided before and in between, and wherever those lead. The address is one whose single-address prefix
  contains it and has a text of its own, as every valid address's does.
\<close>

theorem connection_filter_stable:
  assumes "prefix_ok na dst" "f = fold (filter_step na) earlier (fold (WhitelistPrefix na) configured [])"
    "fst (connection_ShouldBeSkipped na dst actual f) = False"
  shows "fst (connection_ShouldBeSkipped na dst actual' (fold (filter_step na) later (snd (connection_ShouldBeSkipped na dst actual f)))) = False"
proof -
  have "whitelist_ok na []" by (simp add: whitelist_ok_def)
  then have ok: "whitelist_ok na f" using assms(2) by (simp add: filter_run_keeps(1) whitelist_run_ok)
  let ?f = "filter_step na (dst, actual) f"
  have "\<not> isLinkLocalUnicast na dst \<and> (IsIpPrivate na dst \<or> isLoopback na dst \<or> covered_by na dst ?f)"
    using let_through [OF assms(1) ok] assms(3) by simp
  then have "\<not> fst (connection_ShouldBeSkipped na dst actual' (fold (filter_step na) later ?f))"
    using covered_mono [OF _ filter_run_keeps(2), of na dst ?f na later] by (auto simp: ShouldBeSkipped_iff)
  then show ?thesis by (simp add: filter_step_def)
qed

theorem connection_filter_stable_witness:
  "fst (connection_ShouldBeSkipped example_na 200 300 (fold (filter_step example_na) [(400, 500)]
      (snd (connection_ShouldBeSkipped example_na 200 7 [])))) = False"
proof -
  have "prefix_ok example_na 200" by (simp add: prefix_ok_def example_na_def)
  moreover have "fst (connection_ShouldBeSkipped example_na 200 7 []) = False"
    by (simp add: connection_ShouldBeSkipped_def example_na_def IsIpPrivate_def)
  ultimately show ?thesis using connection_filter_stable [of example_na 200 "[]" "[]" "[]" 7 300 "[(400, 500)]"] by simp
qed

text \<open>
  C39. The printed form of a destination can be read back: stripping the port of a host and port gives the
  host, for names and for IPv4 and IPv6 addresses, which are put in brackets.
\<close>

theorem StripPort_round_trip:
  assumes "hpPort hp \<noteq> 0" "CHR ''['' \<notin> set (HostPort_Host na hp)" "CHR '']'' \<notin> set (HostPort_Host na hp)"
  shows "StripPort (HostPort_String na hp) = HostPort_Host na hp"
proof -
  have "set (itoa (uint (hpPort hp))) \<inter> {CHR '':'', CHR ''['', CHR '']''} = {}"
    using format_nat_digits [of "nat (uint (hpPort hp))"] by (auto simp: itoa_def list_all_iff is_digit_def ord_def)
  then show ?thesis
    using assms SplitHostPort_Join [of "itoa (uint (hpPort hp))" "HostPort_Host na hp"]
    by (simp add: StripPort_def HostPort_String_def)
qed

theorem StripPort_round_trip_witness:
  "StripPort (HostPort_String example_na \<lparr>hpHost = ''api.example.com'', hpIP = 0, hpPort = 443\<rparr>) = ''api.example.com''"
  using StripPort_round_trip [of "\<lparr>hpHost = ''api.example.com'', hpIP = 0, hpPort = 443\<rparr>" example_na]
  by (simp add: HostPort_Host_def example_na_def)

end
