(* ===== verification/Http_Path.thy ===== *)
theory Http_Path
  imports Golib Key_Value
begin

text \<open>
  Templates of request paths, \<open>src/common/http_path.go\<close>. The regular expressions are on ASCII classes, so
  they are matched byte by byte.
\<close>

definition is_hex_lower :: "char \<Rightarrow> bool" where
  "is_hex_lower c \<longleftrightarrow> is_digit c \<or> 97 \<le> ord c \<and> ord c \<le> 102"

definition is_hex :: "char \<Rightarrow> bool" where
  "is_hex c \<longleftrightarrow> is_hex_lower c \<or> 65 \<le> ord c \<and> ord c \<le> 70"

text \<open>An unanchored match of a sequence of classes.\<close>

definition matches_at :: "(char \<Rightarrow> bool) list \<Rightarrow> string \<Rightarrow> bool" where
  "matches_at cs s \<longleftrightarrow> length cs \<le> length s \<and> list_all (\<lambda>(f, c). f c) (zip cs s)"

fun match_string :: "(char \<Rightarrow> bool) list \<Rightarrow> string \<Rightarrow> bool" where
  "match_string cs [] \<longleftrightarrow> cs = []"
| "match_string cs (c # s) \<longleftrightarrow> matches_at cs (c # s) \<or> match_string cs s"

definition uuidRegex :: "string \<Rightarrow> bool" where
  "uuidRegex =
     (let dash = (\<lambda>c. c = CHR ''-''); hex = (\<lambda>n. replicate n is_hex_lower) in
      match_string (hex 8 @ dash # hex 4 @ dash # hex 4 @ dash # hex 4 @ dash # hex 12))"

definition hexRegex :: "string \<Rightarrow> bool" where
  "hexRegex = match_string (replicate 8 is_hex)"

text \<open>The dot of \<open>alphaNumericMix\<close> does not match a newline.\<close>

definition later_on :: "(char \<Rightarrow> bool) \<Rightarrow> string \<Rightarrow> bool" where
  "later_on P s = list_ex P (takeWhile (\<lambda>c. c \<noteq> CHR 0x0A) s)"

fun alphaNumericMix :: "string \<Rightarrow> bool" where
  "alphaNumericMix [] = False"
| "alphaNumericMix (c # s) =
     (is_alpha c \<and> later_on is_digit s \<or> is_digit c \<and> later_on is_alpha s \<or> alphaNumericMix s)"

definition uuid_part :: string where "uuid_part = ''{uuid}''"
definition id_part :: string where "id_part = ''{id}''"
definition hex_part :: string where "hex_part = ''{hex}''"

definition is_hex_segment :: "string \<Rightarrow> bool" where
  "is_hex_segment p \<longleftrightarrow> \<not> uuidRegex p \<and> snd (atoi p) \<noteq> None \<and> length p \<ge> 8 \<and> hexRegex p"

definition normalize_segment :: "string \<Rightarrow> string" where
  "normalize_segment p =
     (if p = [] then p
      else if uuidRegex p then uuid_part
      else if snd (atoi p) = None then id_part
      else if length p \<ge> 8 \<and> hexRegex p then hex_part
      else if length p \<ge> 10 \<and> alphaNumericMix p then id_part
      else p)"

definition isHashFanout :: "string \<Rightarrow> bool" where
  "isHashFanout segment \<longleftrightarrow> segment \<noteq> [] \<and> \<not> length segment > 4 \<and> list_all is_hex segment"

fun mark_back :: "nat \<Rightarrow> string list \<Rightarrow> string list \<Rightarrow> string list" where
  "mark_back 0 segments parts = parts"
| "mark_back (Suc j) segments parts =
     (if isHashFanout (segments ! j) then mark_back j segments (parts[j := hex_part]) else parts)"

definition mark_fanout :: "string list \<Rightarrow> string list \<Rightarrow> string list" where
  "mark_fanout segments parts =
     fold (\<lambda>i parts. if parts ! i = hex_part then mark_back i segments parts else parts) [0..<length parts] parts"

definition strings_join :: "char \<Rightarrow> string list \<Rightarrow> string" where
  "strings_join sep ks = concat (map (\<lambda>k. k @ [sep]) (butlast ks)) @ last ks"

definition NormalizeHTTPPath :: "string \<Rightarrow> string" where
  "NormalizeHTTPPath path0 =
     (let path = takeWhile (\<lambda>c. c \<noteq> CHR ''?'') path0 in
      if path = [] then []
      else
        (let segments = bytes_split ''/'' path;
             parts = map normalize_segment segments in
         strings_join (CHR ''/'')
           (if list_ex (\<lambda>p. p \<noteq> [] \<and> is_hex_segment p) segments then mark_fanout segments parts else parts)))"

section \<open>Segments\<close>

definition template :: "string \<Rightarrow> bool" where
  "template p \<longleftrightarrow> p \<in> {uuid_part, id_part, hex_part}"

lemma template_fixed: "template p \<Longrightarrow> normalize_segment p = p \<and> \<not> is_hex_segment p"
proof -
  have "normalize_segment uuid_part = uuid_part" "normalize_segment id_part = id_part" "normalize_segment hex_part = hex_part"
    "\<not> is_hex_segment uuid_part" "\<not> is_hex_segment id_part" "\<not> is_hex_segment hex_part"
    by code_simp+
  then show "template p \<Longrightarrow> ?thesis" by (auto simp: template_def)
qed

text \<open>A segment is settled when it is a template or nothing identifier-like.\<close>

definition settled :: "string \<Rightarrow> bool" where
  "settled p \<longleftrightarrow> template p \<or> normalize_segment p = p \<and> \<not> is_hex_segment p"

lemma normalize_settled: "settled (normalize_segment p)"
proof (cases "template (normalize_segment p)")
  case True
  then show ?thesis by (simp add: settled_def)
next
  case False
  then have p: "normalize_segment p = p" "p = [] \<or> \<not> is_hex_segment p"
    by (auto simp: normalize_segment_def template_def is_hex_segment_def split: if_splits)
  moreover have "\<not> is_hex_segment []" by code_simp
  ultimately show ?thesis by (auto simp: settled_def)
qed

lemma settled_fixed: "settled p \<Longrightarrow> normalize_segment p = p \<and> \<not> is_hex_segment p"
  using template_fixed by (auto simp: settled_def)

lemma mark_back_length [simp]: "length (mark_back i ss ps) = length ps"
  by (induction i ss ps rule: mark_back.induct) simp_all

lemma mark_back_all: "list_all P ps \<Longrightarrow> P hex_part \<Longrightarrow> list_all P (mark_back i ss ps)"
proof (induction i ss ps rule: mark_back.induct)
  case (2 j ss ps)
  have "list_all P (ps[j := hex_part])" using 2 by (auto simp: list_all_iff dest: set_update_subset_insert [THEN subsetD])
  with 2 show ?case by simp
qed simp

lemma mark_fanout_all: "list_all P ps \<Longrightarrow> P hex_part \<Longrightarrow> list_all P (mark_fanout ss ps)"
proof -
  have "list_all P ps \<Longrightarrow> P hex_part \<Longrightarrow> list_all P (fold (\<lambda>i ps. if ps ! i = hex_part then mark_back i ss ps else ps) is ps)" for "is"
    by (induction "is" arbitrary: ps) (simp_all add: mark_back_all)
  then show "list_all P ps \<Longrightarrow> P hex_part \<Longrightarrow> ?thesis" by (simp add: mark_fanout_def)
qed

lemma mark_fanout_length: "length (mark_fanout ss ps) = length ps"
proof -
  have "length (fold (\<lambda>i ps. if ps ! i = hex_part then mark_back i ss ps else ps) is ps) = length ps" for "is"
    by (induction "is" arbitrary: ps) simp_all
  then show ?thesis by (simp add: mark_fanout_def)
qed

lemma split_elem: "k \<in> set (bytes_split [x] s) \<Longrightarrow> x \<notin> set k \<and> set k \<subseteq> set s"
proof (induction "[x]" s rule: bytes_split.induct)
  case (1 s)
  obtain a r ok where c: "bytes_cut [x] s = (a, r, ok)" by (cases "bytes_cut [x] s")
  have a: "x \<notin> set a" "set a \<subseteq> set s" "ok \<Longrightarrow> set r \<subseteq> set s"
    using cut_single_before [OF c] cut_found [of "[x]" s a r] cut_missing [of "[x]" s a r] c by (cases ok; auto)+
  from 1(2) have "k = a \<or> ok \<and> k \<in> set (bytes_split [x] r)"
    by (subst (asm) bytes_split.simps) (auto simp: c split: if_splits)
  then show ?case using a 1(1) [OF _ c [symmetric] refl] by auto
qed

lemma split_strings_join: "list_all (\<lambda>k. x \<notin> set k) ks \<Longrightarrow> ks \<noteq> [] \<Longrightarrow> bytes_split [x] (strings_join x ks) = ks"
  unfolding strings_join_def by (rule split_join) (auto simp: list_all_iff)

lemma set_strings_join: "set (strings_join x ks) \<subseteq> insert x (\<Union> (set ` set ks))" if "ks \<noteq> []"
  using that by (auto simp: strings_join_def dest: in_set_butlastD)

definition normal_parts :: "string \<Rightarrow> string list" where
  "normal_parts path =
     (let segments = bytes_split ''/'' path; parts = map normalize_segment segments in
      if list_ex (\<lambda>p. p \<noteq> [] \<and> is_hex_segment p) segments then mark_fanout segments parts else parts)"

definition clean :: "string \<Rightarrow> bool" where
  "clean p \<longleftrightarrow> CHR ''/'' \<notin> set p \<and> CHR ''?'' \<notin> set p"

lemma normal_parts_ok:
  assumes "CHR ''?'' \<notin> set path"
  shows "list_all settled (normal_parts path)" "list_all clean (normal_parts path)" "normal_parts path \<noteq> []"
proof -
  let ?segs = "bytes_split ''/'' path"
  have hex: "settled hex_part" "clean hex_part" "clean uuid_part" "clean id_part"
    by (simp_all add: settled_def template_def clean_def hex_part_def uuid_part_def id_part_def)
  have "clean (normalize_segment p)" if "p \<in> set ?segs" for p
    using split_elem [OF that] assms hex by (auto simp: normalize_segment_def clean_def)
  then have parts: "list_all settled (map normalize_segment ?segs)" "list_all clean (map normalize_segment ?segs)"
    by (auto simp: list_all_iff normalize_settled)
  then show "list_all settled (normal_parts path)" "list_all clean (normal_parts path)"
    using hex by (simp_all add: normal_parts_def Let_def mark_fanout_all)
  show "normal_parts path \<noteq> []"
    using mark_fanout_length [of ?segs "map normalize_segment ?segs"] by (auto simp: normal_parts_def Let_def)
qed

lemma Normalize_parts:
  "NormalizeHTTPPath p0 = (let p = takeWhile (\<lambda>c. c \<noteq> CHR ''?'') p0 in if p = [] then [] else strings_join (CHR ''/'') (normal_parts p))"
  by (simp add: NormalizeHTTPPath_def normal_parts_def Let_def)

lemma settled_parts: "list_all settled ps \<Longrightarrow> bytes_split ''/'' path = ps \<Longrightarrow> normal_parts path = ps"
proof -
  assume "list_all settled ps" and path: "bytes_split ''/'' path = ps"
  then have "\<forall>p \<in> set ps. normalize_segment p = p \<and> \<not> is_hex_segment p" using settled_fixed by (auto simp: list_all_iff)
  then show ?thesis by (auto simp: normal_parts_def path list_ex_iff map_idI)
qed

lemma takeWhile_absent: "x \<notin> set s \<Longrightarrow> takeWhile (\<lambda>c. c \<noteq> x) s = s"
  by (auto simp: takeWhile_eq_all_conv)

definition identifier_like :: "string \<Rightarrow> bool" where
  "identifier_like p \<longleftrightarrow>
     p \<noteq> [] \<and> (uuidRegex p \<or> parse_int p \<noteq> None \<or> 8 \<le> length p \<and> hexRegex p \<or> 10 \<le> length p \<and> alphaNumericMix p)"

lemma settled_plain: "settled p \<Longrightarrow> \<not> identifier_like p"
proof -
  have t: "\<not> identifier_like uuid_part" "\<not> identifier_like id_part" "\<not> identifier_like hex_part"
    by code_simp+
  have "template p" if "normalize_segment p = p" "identifier_like p"
    using that by (auto simp: identifier_like_def normalize_segment_def template_def parse_int_def split: if_splits prod.splits option.splits)
  then show "settled p \<Longrightarrow> ?thesis" using t by (auto simp: settled_def template_def)
qed

section \<open>Properties\<close>

text \<open>
  C36. A path template is final: normalising it again changes nothing, so metrics and spans, which
  normalise on their own, group alike. It has no query, and no segment of it is taken for an identifier.
\<close>

theorem NormalizeHTTPPath_final:
  "NormalizeHTTPPath (NormalizeHTTPPath path) = NormalizeHTTPPath path \<and>
   CHR ''?'' \<notin> set (NormalizeHTTPPath path) \<and>
   \<not> list_ex identifier_like (bytes_split ''/'' (NormalizeHTTPPath path))"
proof (cases "takeWhile (\<lambda>c. c \<noteq> CHR ''?'') path = []")
  case True
  then have "NormalizeHTTPPath path = []" by (simp add: Normalize_parts)
  moreover have "bytes_split ''/'' [] = [[] :: string]" by code_simp
  ultimately show ?thesis by (simp add: Normalize_parts identifier_like_def)
next
  case False
  let ?p = "takeWhile (\<lambda>c. c \<noteq> CHR ''?'') path"
  let ?n = "strings_join (CHR ''/'') (normal_parts ?p)"
  have "CHR ''?'' \<notin> set ?p" by (auto dest: set_takeWhileD)
  note ok = normal_parts_ok [OF this]
  have n: "NormalizeHTTPPath path = ?n" using False by (simp add: Normalize_parts)
  have "list_all (\<lambda>k. CHR ''/'' \<notin> set k) (normal_parts ?p)" using ok(2) by (auto simp: list_all_iff clean_def)
  then have split: "bytes_split ''/'' ?n = normal_parts ?p" using split_strings_join ok(3) by simp
  have q: "CHR ''?'' \<notin> set ?n"
    using set_strings_join [OF ok(3), of "CHR ''/''"] ok(2) by (auto simp: list_all_iff clean_def)
  have "NormalizeHTTPPath ?n = ?n"
    using settled_parts [OF ok(1) split] by (simp add: Normalize_parts takeWhile_absent [OF q] Let_def)
  moreover have "\<not> list_ex identifier_like (normal_parts ?p)"
    using ok(1) settled_plain by (auto simp: list_all_iff list_ex_iff)
  ultimately show ?thesis using q unfolding n split by simp
qed

end
