(* ===== verification/Http_Path_Series.thy ===== *)
theory Http_Path_Series
  imports Prelude
begin

text \<open>
  The path labels of HTTP request series, \<open>src/common/http_path_series.go\<close>. Every operation holds the
  mutex. Maps are association lists, sets are lists without duplicates, a time is a number of nanoseconds.
\<close>

record httpSeries =
  sLabels :: "string list"
  sKey :: "string \<times> string"
  lastSeen :: int

record HTTPPathSeries =
  pathLimit :: int
  overflowLabel :: string
  admitted :: "(string \<times> string list) list"
  candidates :: "(string \<times> string) list"
  series :: "(string \<times> httpSeries) list"
  refs :: "((string \<times> string) \<times> int) list"
  destRefs :: "(string \<times> int) list"

definition NewHTTPPathSeries :: "int \<Rightarrow> string \<Rightarrow> HTTPPathSeries" where
  "NewHTTPPathSeries lim ov =
     \<lparr>pathLimit = lim, overflowLabel = ov, admitted = [], candidates = [], series = [], refs = [], destRefs = []\<rparr>"

definition count_of :: "('k \<times> int) list \<Rightarrow> 'k \<Rightarrow> int" where
  "count_of m k = (case map_of m k of None \<Rightarrow> 0 | Some n \<Rightarrow> n)"

definition paths_of :: "HTTPPathSeries \<Rightarrow> string \<Rightarrow> string list" where
  "paths_of h d = (case map_of (admitted h) d of None \<Rightarrow> [] | Some ps \<Rightarrow> ps)"

definition pathLabel :: "string \<Rightarrow> string \<Rightarrow> HTTPPathSeries \<Rightarrow> (string \<times> bool) \<times> HTTPPathSeries" where
  "pathLabel destination path h =
     (let paths = paths_of h destination; key = (destination, path) in
      if path = [] then ((path, False), h)
      else if path \<in> set paths then ((path, False), h)
      else if int (length paths) \<ge> pathLimit h then ((overflowLabel h, True), h)
      else if key \<in> set (candidates h) then
        ((path, False),
         h\<lparr>candidates := remove1 key (candidates h), admitted := AList.update destination (paths @ [path]) (admitted h)\<rparr>)
      else
        ((overflowLabel h, False),
         h\<lparr>candidates := (if int (length (candidates h)) \<ge> pathLimit h then [] else candidates h) @ [key]\<rparr>))"

fun join_nul :: "string list \<Rightarrow> string" where
  "join_nul [] = []"
| "join_nul [v] = v"
| "join_nul (v # vs) = v @ CHR 0x00 # join_nul vs"

definition Observe ::
  "string \<Rightarrow> string \<Rightarrow> int \<Rightarrow> (string \<Rightarrow> string list) \<Rightarrow> HTTPPathSeries \<Rightarrow> (string list \<times> bool) \<times> HTTPPathSeries" where
  "Observe destination path now labelValues h0 =
     (case pathLabel destination path h0 of ((label, full), h) \<Rightarrow>
        (let values = labelValues label; k = join_nul values in
         case map_of (series h) k of
           Some s \<Rightarrow> ((values, full), h\<lparr>series := AList.update k (s\<lparr>lastSeen := now\<rparr>) (series h)\<rparr>)
         | None \<Rightarrow>
             (let own = (path \<noteq> [] \<and> label = path);
                  key = (destination, if own then path else []) in
              ((values, full),
               h\<lparr>refs := (if own then AList.update key (count_of (refs h) key + 1) (refs h) else refs h),
                 series := AList.update k \<lparr>sLabels = values, sKey = key, lastSeen = now\<rparr> (series h),
                 destRefs := AList.update destination (count_of (destRefs h) destination + 1) (destRefs h)\<rparr>))))"

text \<open>\<open>time.Sub\<close>, which saturates at the bounds of \<open>time.Duration\<close>.\<close>

definition time_Sub :: "int \<Rightarrow> int \<Rightarrow> int" where
  "time_Sub a b = max (- (2 ^ 63)) (min (2 ^ 63 - 1) (a - b))"

definition release_path :: "string \<times> string \<Rightarrow> HTTPPathSeries \<Rightarrow> HTTPPathSeries" where
  "release_path key h =
     (if snd key \<noteq> [] then
        (let n = count_of (refs h) key - 1 in
         if n \<le> 0 then
           h\<lparr>refs := AList.delete key (refs h),
             admitted := AList.map_entry (fst key) (\<lambda>ps. remove1 (snd key) ps) (admitted h)\<rparr>
         else h\<lparr>refs := AList.update key n (refs h)\<rparr>)
      else h)"

definition release_destination :: "string \<Rightarrow> HTTPPathSeries \<Rightarrow> HTTPPathSeries" where
  "release_destination d h =
     (let n = count_of (destRefs h) d - 1 in
      if n \<le> 0 then h\<lparr>destRefs := AList.delete d (destRefs h), admitted := AList.delete d (admitted h)\<rparr>
      else h\<lparr>destRefs := AList.update d n (destRefs h)\<rparr>)"

definition evict_one_series :: "string \<times> httpSeries \<Rightarrow> HTTPPathSeries \<Rightarrow> HTTPPathSeries" where
  "evict_one_series x h =
     (case x of (k, s) \<Rightarrow>
        release_destination (fst (sKey s)) (release_path (sKey s) (h\<lparr>series := AList.delete k (series h)\<rparr>)))"

text \<open>\<open>Evict\<close>: the labels passed to \<open>remove\<close>, whose number is the result, and the state.\<close>

fun evict_loop :: "int \<Rightarrow> int \<Rightarrow> (string \<times> httpSeries) list \<Rightarrow> HTTPPathSeries \<Rightarrow> string list list \<times> HTTPPathSeries" where
  "evict_loop now ttl [] h = ([], h)"
| "evict_loop now ttl (x # xs) h =
     (if time_Sub now (lastSeen (snd x)) \<le> ttl then evict_loop now ttl xs h
      else (case evict_loop now ttl xs (evict_one_series x h) of (removed, h') \<Rightarrow> (sLabels (snd x) # removed, h')))"

definition Evict :: "int \<Rightarrow> int \<Rightarrow> HTTPPathSeries \<Rightarrow> string list list \<times> HTTPPathSeries" where
  "Evict now ttl h = evict_loop now ttl (series h) h"

section \<open>Counting series\<close>

definition occurs :: "(httpSeries \<Rightarrow> bool) \<Rightarrow> (string \<times> httpSeries) list \<Rightarrow> nat" where
  "occurs P xs = length (filter (P \<circ> snd) xs)"

lemma occurs_new: "map_of xs k = None \<Longrightarrow> occurs P (AList.update k s xs) = occurs P xs + of_bool (P s)"
  by (induction xs) (auto simp: occurs_def split: if_splits)

lemma occurs_touch: "map_of xs k = Some s \<Longrightarrow> P s' = P s \<Longrightarrow> occurs P (AList.update k s' xs) = occurs P xs"
  by (induction xs) (auto simp: occurs_def split: if_splits)

lemma delete_absent: "k \<notin> fst ` set xs \<Longrightarrow> AList.delete k xs = xs"
  by (simp add: delete_id)

lemma occurs_delete:
  "distinct (map fst xs) \<Longrightarrow> map_of xs k = Some s \<Longrightarrow> occurs P xs = occurs P (AList.delete k xs) + of_bool (P s)"
proof (induction xs)
  case (Cons x xs)
  show ?case
  proof (cases "fst x = k")
    case True
    then have "AList.delete k (x # xs) = AList.delete k xs" "AList.delete k xs = xs"
      using Cons.prems(1) by (simp_all add: delete_absent)
    with True Cons.prems show ?thesis by (simp add: occurs_def)
  next
    case False
    with Cons show ?thesis by (simp add: occurs_def)
  qed
qed simp

lemma occurs_pos: "x \<in> set xs \<Longrightarrow> P (snd x) \<Longrightarrow> 0 < occurs P xs"
  by (auto simp: occurs_def filter_empty_conv)

lemma occurs_posD: "0 < occurs P xs \<Longrightarrow> \<exists>x \<in> set xs. P (snd x)"
  by (auto simp: occurs_def filter_empty_conv)

lemma count_of_update: "count_of (AList.update k n m) k' = (if k' = k then n else count_of m k')"
  by (simp add: count_of_def update_conv')

lemma count_of_delete: "count_of (AList.delete k m) k' = (if k' = k then 0 else count_of m k')"
  by (simp add: count_of_def delete_conv')

section \<open>The invariant\<close>

text \<open>
  \<open>owner\<close> gives the destination and the path label of a series back from its joined label values, which
  carry both.
\<close>

definition counts_ok :: "HTTPPathSeries \<Rightarrow> bool" where
  "counts_ok h \<longleftrightarrow>
     distinct (map fst (series h)) \<and>
     (\<forall>key. snd key \<noteq> [] \<longrightarrow> count_of (refs h) key = int (occurs (\<lambda>s. sKey s = key) (series h))) \<and>
     (\<forall>d. count_of (destRefs h) d = int (occurs (\<lambda>s. fst (sKey s) = d) (series h)))"

definition owned :: "(string \<Rightarrow> string \<times> string) \<Rightarrow> HTTPPathSeries \<Rightarrow> bool" where
  "owned owner h \<longleftrightarrow>
     (\<forall>(k, s) \<in> set (series h).
        sKey s = (fst (owner k), if snd (owner k) = overflowLabel h then [] else snd (owner k)))"

text \<open>A labelled path, other than one being labelled just now, has a series.\<close>

definition slots_ok :: "(string \<times> string) option \<Rightarrow> HTTPPathSeries \<Rightarrow> bool" where
  "slots_ok except h \<longleftrightarrow>
     (\<forall>d p. p \<in> set (paths_of h d) \<longrightarrow>
        p \<noteq> [] \<and> p \<noteq> overflowLabel h \<and> (Some (d, p) = except \<or> 0 < occurs (\<lambda>s. sKey s = (d, p)) (series h))) \<and>
     (\<forall>d. distinct (paths_of h d) \<and> int (length (paths_of h d)) \<le> max 0 (pathLimit h))"

definition candidates_ok :: "HTTPPathSeries \<Rightarrow> bool" where
  "candidates_ok h \<longleftrightarrow> int (length (candidates h)) \<le> max 1 (pathLimit h)"

definition series_ok :: "(string \<Rightarrow> string \<times> string) \<Rightarrow> HTTPPathSeries \<Rightarrow> bool" where
  "series_ok owner h \<longleftrightarrow> counts_ok h \<and> owned owner h \<and> slots_ok None h \<and> candidates_ok h"

lemma paths_of_update: "paths_of (h\<lparr>admitted := AList.update d ps (admitted h)\<rparr>) d' = (if d' = d then ps else paths_of h d')"
  by (simp add: paths_of_def update_conv')

lemma paths_of_cong: "admitted h' = admitted h \<Longrightarrow> paths_of h' d = paths_of h d"
  by (simp add: paths_of_def)

lemma pathLabel_fields:
  assumes "pathLabel d p h = ((l, full), h')"
  shows "series h' = series h" "refs h' = refs h" "destRefs h' = destRefs h" "overflowLabel h' = overflowLabel h"
    "pathLimit h' = pathLimit h" "l = p \<or> l = overflowLabel h"
  using assms by (auto simp: pathLabel_def Let_def split: if_splits)

lemma pathLabel_candidates: "pathLabel d p h = ((l, full), h') \<Longrightarrow> candidates_ok h \<Longrightarrow> candidates_ok h'"
  by (auto simp: pathLabel_def candidates_ok_def Let_def length_remove1 split: if_splits)

lemma pathLabel_slots:
  assumes "pathLabel d p h = ((l, full), h')" "slots_ok None h" "p \<noteq> overflowLabel h"
  shows "slots_ok (if p \<noteq> [] \<and> l = p then Some (d, p) else None) h'"
proof (cases "admitted h' = admitted h")
  case True
  have "paths_of h' d' = paths_of h d'" for d' by (rule paths_of_cong [OF True])
  then show ?thesis using assms pathLabel_fields [OF assms(1)] by (auto simp: slots_ok_def)
next
  case False
  then have h': "paths_of h' d' = (if d' = d then paths_of h d @ [p] else paths_of h d')" for d'
    using assms(1) by (auto simp: pathLabel_def Let_def paths_of_def update_conv' split: if_splits)
  have "p \<noteq> []" "p \<notin> set (paths_of h d)" "int (length (paths_of h d)) < pathLimit h" "l = p"
    using assms(1) False by (auto simp: pathLabel_def Let_def split: if_splits)
  then show ?thesis using assms(2,3) pathLabel_fields [OF assms(1)] by (auto simp: slots_ok_def h')
qed

lemma slots_cong:
  assumes "slots_ok e h" "admitted h' = admitted h" "overflowLabel h' = overflowLabel h" "pathLimit h' = pathLimit h"
    "\<And>key. snd key \<noteq> [] \<Longrightarrow> Some key = e \<or> 0 < occurs (\<lambda>s. sKey s = key) (series h) \<Longrightarrow>
       Some key = e' \<or> 0 < occurs (\<lambda>s. sKey s = key) (series h')"
  shows "slots_ok e' h'"
  using assms paths_of_cong [OF assms(2)] unfolding slots_ok_def by force

lemma owned_mem:
  assumes "owned owner h" "map_of (series h) k = Some s"
  shows "sKey s = (fst (owner k), if snd (owner k) = overflowLabel h then [] else snd (owner k))"
  using assms map_of_SomeD [OF assms(2)] by (auto simp: owned_def)

text \<open>What an \<open>Observe\<close> does to an existing series, and to a new one.\<close>

lemma observe_known:
  assumes ok: "counts_ok h" "owned owner h" "candidates_ok h" and slots: "slots_ok (if p \<noteq> [] \<and> l = p then Some (d, p) else None) h"
    and k: "owner k = (d, l)" and s: "map_of (series h) k = Some s" and p: "p \<noteq> overflowLabel h"
  shows "series_ok owner (h\<lparr>series := AList.update k (s\<lparr>lastSeen := now\<rparr>) (series h)\<rparr>)"
proof -
  let ?h = "h\<lparr>series := AList.update k (s\<lparr>lastSeen := now\<rparr>) (series h)\<rparr>"
  have occ: "occurs (\<lambda>s. P (sKey s)) (series ?h) = occurs (\<lambda>s. P (sKey s)) (series h)" for P
    using occurs_touch [OF s, of "\<lambda>s. P (sKey s)"] by simp
  have key: "sKey s = (d, if l = overflowLabel h then [] else l)" using owned_mem [OF ok(2) s] k by simp
  have "counts_ok ?h"
    using ok(1) occ [of "\<lambda>x. x = key" for key] occ [of "\<lambda>x. fst x = dd" for dd] by (simp add: counts_ok_def distinct_update)
  moreover have "owned owner ?h"
    using ok(2) key k set_update_subset [of k "s\<lparr>lastSeen := now\<rparr>" "series h"] unfolding owned_def by fastforce
  moreover have "slots_ok None ?h"
  proof (rule slots_cong [OF slots])
    fix key' :: "string \<times> string"
    assume "snd key' \<noteq> []" "Some key' = (if p \<noteq> [] \<and> l = p then Some (d, p) else None) \<or> 0 < occurs (\<lambda>s. sKey s = key') (series h)"
    moreover have "0 < occurs (\<lambda>s. sKey s = (d, p)) (series h)" if "l = p"
      using occurs_pos [OF map_of_SomeD [OF s], of "\<lambda>s. sKey s = (d, p)"] key that p by simp
    ultimately show "Some key' = None \<or> 0 < occurs (\<lambda>s. sKey s = key') (series ?h)"
      using occ [of "\<lambda>x. x = key'"] by (auto split: if_splits)
  qed simp_all
  moreover have "candidates_ok ?h" using ok(3) by (simp add: candidates_ok_def)
  ultimately show ?thesis by (simp add: series_ok_def)
qed

lemma observe_new:
  assumes ok: "counts_ok h" "owned owner h" "candidates_ok h" and slots: "slots_ok (if own then Some (d, p) else None) h"
    and own: "own = (p \<noteq> [] \<and> l = p)" and k: "owner k = (d, l)" and s: "map_of (series h) k = None"
    and p: "p \<noteq> overflowLabel h" "l = p \<or> l = overflowLabel h"
  shows "series_ok owner
    (h\<lparr>refs := (if own then AList.update (d, if own then p else []) (count_of (refs h) (d, if own then p else []) + 1) (refs h) else refs h),
       series := AList.update k \<lparr>sLabels = vs, sKey = (d, if own then p else []), lastSeen = now\<rparr> (series h),
       destRefs := AList.update d (count_of (destRefs h) d + 1) (destRefs h)\<rparr>)"
    (is "series_ok owner ?h")
proof -
  have "counts_ok ?h"
    using ok(1) own by (auto simp: counts_ok_def distinct_update occurs_new [OF s] count_of_update)
  moreover have "owned owner ?h"
    using ok(2) k p own set_update_subset [of k _ "series h"] unfolding owned_def by fastforce
  moreover have "slots_ok None ?h"
    by (rule slots_cong [OF slots]) (auto simp: occurs_new [OF s] split: if_splits)
  moreover have "candidates_ok ?h" using ok(3) by (simp add: candidates_ok_def)
  ultimately show ?thesis by (simp add: series_ok_def)
qed

definition labels_by :: "(string \<Rightarrow> string \<times> string) \<Rightarrow> string \<Rightarrow> (string \<Rightarrow> string list) \<Rightarrow> string \<Rightarrow> bool" where
  "labels_by owner d labelValues l \<longleftrightarrow> owner (join_nul (labelValues l)) = (d, l)"

lemma Observe_ok:
  assumes "series_ok owner h" "labels_by owner d labelValues p" "labels_by owner d labelValues (overflowLabel h)"
    "p \<noteq> overflowLabel h"
  shows "series_ok owner (snd (Observe d p now labelValues h))"
proof -
  obtain l full h1 where pl: "pathLabel d p h = ((l, full), h1)" by (metis surj_pair)
  note f = pathLabel_fields [OF pl]
  have h1: "counts_ok h1" "owned owner h1" "candidates_ok h1"
    using assms(1) pathLabel_candidates [OF pl] f by (auto simp: series_ok_def counts_ok_def owned_def)
  have slots: "slots_ok (if p \<noteq> [] \<and> l = p then Some (d, p) else None) h1"
    using pathLabel_slots [OF pl] assms(1,4) by (simp add: series_ok_def)
  have k: "owner (join_nul (labelValues l)) = (d, l)" using assms(2,3) f(6) by (auto simp: labels_by_def)
  have pp: "p \<noteq> overflowLabel h1" "l = p \<or> l = overflowLabel h1" using f assms(4) by simp_all
  show ?thesis
  proof (cases "map_of (series h1) (join_nul (labelValues l))")
    case None
    show ?thesis using observe_new [OF h1 slots refl k None pp] by (simp add: Observe_def pl None Let_def)
  next
    case (Some s)
    show ?thesis using observe_known [OF h1 slots k Some pp(1)] by (simp add: Observe_def pl Some Let_def)
  qed
qed

section \<open>Eviction\<close>

lemma release_path_fields [simp]:
  "series (release_path key h) = series h" "destRefs (release_path key h) = destRefs h"
  "overflowLabel (release_path key h) = overflowLabel h" "pathLimit (release_path key h) = pathLimit h"
  "candidates (release_path key h) = candidates h"
  by (simp_all add: release_path_def Let_def)

lemma release_destination_fields [simp]:
  "series (release_destination d h) = series h" "refs (release_destination d h) = refs h"
  "overflowLabel (release_destination d h) = overflowLabel h" "pathLimit (release_destination d h) = pathLimit h"
  "candidates (release_destination d h) = candidates h"
  by (simp_all add: release_destination_def Let_def)

lemma release_path_refs:
  "snd key \<noteq> [] \<Longrightarrow> 0 \<le> count_of (refs h) key - 1 \<Longrightarrow> count_of (refs (release_path key h)) key' = count_of (refs h) key' - of_bool (key' = key)"
  "snd key = [] \<Longrightarrow> release_path key h = h"
  by (auto simp: release_path_def Let_def count_of_update count_of_delete)

lemma release_destination_refs:
  "0 \<le> count_of (destRefs h) d - 1 \<Longrightarrow>
     count_of (destRefs (release_destination d h)) d' = count_of (destRefs h) d' - of_bool (d' = d)"
  by (auto simp: release_destination_def Let_def count_of_update count_of_delete)

lemma release_path_paths:
  "paths_of (release_path key h) d =
     (if d = fst key \<and> snd key \<noteq> [] \<and> count_of (refs h) key \<le> 1 then remove1 (snd key) (paths_of h d) else paths_of h d)"
  by (auto simp: release_path_def Let_def paths_of_def map_of_map_entry split: option.splits)

lemma release_destination_paths:
  "paths_of (release_destination d h) d' = (if d' = d \<and> count_of (destRefs h) d \<le> 1 then [] else paths_of h d')"
  by (auto simp: release_destination_def Let_def paths_of_def delete_conv' split: option.splits)

lemma set_delete: "set (AList.delete k xs) = {y \<in> set xs. fst y \<noteq> k}"
  by (induction xs) auto

lemma evict_one_ok:
  assumes ok: "series_ok owner h" and x: "x \<in> set (series h)"
  shows "series_ok owner (evict_one_series x h)"
proof -
  obtain k s where ks: "x = (k, s)" by (cases x)
  define rest where "rest = AList.delete k (series h)"
  define h1 where "h1 = h\<lparr>series := rest\<rparr>"
  define h2 where "h2 = release_path (sKey s) h1"
  define h3 where "h3 = release_destination (fst (sKey s)) h2"
  have h3: "evict_one_series x h = h3" by (simp add: evict_one_series_def ks h1_def h2_def h3_def rest_def)
  have dist: "distinct (map fst (series h))" using ok by (simp add: series_ok_def counts_ok_def)
  have s: "map_of (series h) k = Some s" using dist x ks by (simp add: map_of_eq_Some_iff)
  have occ: "int (occurs P (series h)) - of_bool (P s) = int (occurs P rest)" for P
    using occurs_delete [OF dist s, of P] by (simp add: rest_def)
  have counts: "count_of (refs h) key = int (occurs (\<lambda>s. sKey s = key) (series h))" if "snd key \<noteq> []" for key
    using ok that by (cases key) (simp add: series_ok_def counts_ok_def)
  have dcounts: "count_of (destRefs h) d = int (occurs (\<lambda>s. fst (sKey s) = d) (series h))" for d
    using ok by (simp add: series_ok_def counts_ok_def)
  have pos: "1 \<le> int (occurs (\<lambda>t. sKey t = sKey s) (series h))" "1 \<le> int (occurs (\<lambda>t. fst (sKey t) = fst (sKey s)) (series h))"
    using occurs_pos [OF x, of "\<lambda>t. sKey t = sKey s"] occurs_pos [OF x, of "\<lambda>t. fst (sKey t) = fst (sKey s)"] ks by simp_all
  have same: "refs h1 = refs h" "destRefs h1 = destRefs h" "paths_of h1 d = paths_of h d" for d
    by (simp_all add: h1_def paths_of_def)
  have fields: "series h3 = rest" "overflowLabel h3 = overflowLabel h" "pathLimit h3 = pathLimit h" "candidates h3 = candidates h"
      "refs h3 = refs h2" "destRefs h2 = destRefs h"
    by (simp_all add: h3_def h2_def h1_def)
  have refs: "count_of (refs h3) key = int (occurs (\<lambda>s. sKey s = key) rest)" if "snd key \<noteq> []" for key
  proof (cases "snd (sKey s) = []")
    case True
    then have "sKey s \<noteq> key" using that by auto
    then show ?thesis
      using counts [OF that] occ [of "\<lambda>s. sKey s = key"] True by (simp add: fields h2_def release_path_refs(2) same)
  next
    case False
    have "count_of (refs h2) key = count_of (refs h) key - of_bool (key = sKey s)"
      using release_path_refs(1) [OF False, of h1 key] counts [OF False] pos(1) by (simp add: h2_def same)
    then show ?thesis using counts [OF that] occ [of "\<lambda>s. sKey s = key"] by (simp add: fields eq_commute)
  qed
  have drefs: "count_of (destRefs h3) d = int (occurs (\<lambda>s. fst (sKey s) = d) rest)" for d
    using release_destination_refs [of h2 "fst (sKey s)" d] pos(2) occ [of "\<lambda>s. fst (sKey s) = d"]
    by (simp add: h3_def [symmetric] fields dcounts eq_commute)
  have "counts_ok h3"
    unfolding counts_ok_def fields(1) using refs drefs dist distinct_delete [of "series h" k] unfolding rest_def by blast
  moreover have "owned owner h3"
    using ok unfolding series_ok_def owned_def fields by (auto simp: rest_def set_delete)
  moreover have "slots_ok None h3"
  proof -
    have dp: "distinct (paths_of h d)" "int (length (paths_of h d)) \<le> max 0 (pathLimit h)" for d
      using ok by (simp_all add: series_ok_def slots_ok_def)
    have p3: "paths_of h3 d = [] \<or> paths_of h3 d = paths_of h2 d" for d
      by (simp add: h3_def release_destination_paths)
    have p2: "paths_of h2 d = (if d = fst (sKey s) \<and> snd (sKey s) \<noteq> [] \<and> count_of (refs h) (sKey s) \<le> 1
        then remove1 (snd (sKey s)) (paths_of h d) else paths_of h d)" for d
      by (simp add: h2_def release_path_paths same)
    have fewer: "distinct (paths_of h2 d)" "length (paths_of h2 d) \<le> length (paths_of h d)" for d
      using dp(1) unfolding p2 by (simp_all add: distinct_remove1 length_remove1)
    have live: "p \<noteq> [] \<and> p \<noteq> overflowLabel h \<and> 0 < occurs (\<lambda>s. sKey s = (d, p)) rest" if "p \<in> set (paths_of h2 d)" for d p
    proof -
      have p: "p \<in> set (paths_of h d)" using that set_remove1_subset [of "snd (sKey s)" "paths_of h d"] unfolding p2 by (auto split: if_splits)
      have q: "p \<noteq> []" "p \<noteq> overflowLabel h" "0 < occurs (\<lambda>s. sKey s = (d, p)) (series h)"
        using ok p by (auto simp: series_ok_def slots_ok_def)
      have "1 < count_of (refs h) (d, p)" if "sKey s = (d, p)"
      proof (rule ccontr)
        assume "\<not> 1 < count_of (refs h) (d, p)"
        then have "paths_of h2 d = remove1 p (paths_of h d)" unfolding p2 using that q(1) by simp
        with \<open>p \<in> set (paths_of h2 d)\<close> dp(1) [of d] show False by simp
      qed
      then have "0 < occurs (\<lambda>s. sKey s = (d, p)) rest"
        using q(3) counts [of "(d, p)"] q(1) occ [of "\<lambda>s. sKey s = (d, p)"] by (cases "sKey s = (d, p)") simp_all
      with q show ?thesis by simp
    qed
    have bounds: "distinct (paths_of h3 d)" "int (length (paths_of h3 d)) \<le> max 0 (pathLimit h)" for d
      using p3 [of d] fewer [of d] dp(2) [of d] by (auto intro: order_trans)
    have "p \<noteq> [] \<and> p \<noteq> overflowLabel h \<and> 0 < occurs (\<lambda>s. sKey s = (d, p)) rest" if "p \<in> set (paths_of h3 d)" for d p
      using live [of p d] p3 [of d] that by auto
    with bounds show ?thesis unfolding slots_ok_def fields by simp
  qed
  moreover have "candidates_ok h3" using ok unfolding series_ok_def candidates_ok_def fields by simp
  ultimately show ?thesis by (simp add: h3 series_ok_def)
qed

definition fresh :: "int \<Rightarrow> int \<Rightarrow> string \<times> httpSeries \<Rightarrow> bool" where
  "fresh now ttl x \<longleftrightarrow> time_Sub now (lastSeen (snd x)) \<le> ttl"

lemma evict_one_series_fields [simp]:
  "series (evict_one_series x h) = AList.delete (fst x) (series h)" "overflowLabel (evict_one_series x h) = overflowLabel h"
  "pathLimit (evict_one_series x h) = pathLimit h"
  by (simp_all add: evict_one_series_def split: prod.splits)

lemma evict_loop_ok:
  "series_ok owner h \<Longrightarrow> set xs \<subseteq> set (series h) \<Longrightarrow> distinct (map fst xs) \<Longrightarrow> evict_loop now ttl xs h = (removed, h') \<Longrightarrow>
     series_ok owner h' \<and> overflowLabel h' = overflowLabel h \<and> pathLimit h' = pathLimit h \<and>
     (\<forall>y \<in> set (series h'). y \<in> set (series h) \<and> (y \<in> set xs \<longrightarrow> fresh now ttl y)) \<and>
     removed = map (\<lambda>y. sLabels (snd y)) (filter (\<lambda>y. \<not> fresh now ttl y) xs)"
proof (induction xs arbitrary: h removed)
  case (Cons x xs)
  show ?case
  proof (cases "fresh now ttl x")
    case True
    with Cons.prems Cons.IH [of h removed] show ?thesis by (auto simp: fresh_def)
  next
    case False
    let ?h = "evict_one_series x h"
    obtain removed' where e: "evict_loop now ttl xs ?h = (removed', h')" "removed = sLabels (snd x) # removed'"
      using Cons.prems(4) False by (auto simp: fresh_def split: prod.splits)
    have "series_ok owner ?h" using evict_one_ok Cons.prems(1,2) by simp
    moreover have "set xs \<subseteq> set (series ?h)" using Cons.prems(2,3) by (auto simp: set_delete image_iff)
    ultimately have "series_ok owner h' \<and> overflowLabel h' = overflowLabel h \<and> pathLimit h' = pathLimit h \<and>
       (\<forall>y \<in> set (series h'). y \<in> set (series ?h) \<and> (y \<in> set xs \<longrightarrow> fresh now ttl y)) \<and>
       removed' = map (\<lambda>y. sLabels (snd y)) (filter (\<lambda>y. \<not> fresh now ttl y) xs)"
      using Cons.IH [OF _ _ _ e(1)] Cons.prems(3) by simp
    then show ?thesis using e(2) False by (auto simp: set_delete)
  qed
qed simp

lemma Evict_ok:
  assumes "series_ok owner h" "Evict now ttl h = (removed, h')"
  shows "series_ok owner h' \<and> overflowLabel h' = overflowLabel h \<and> pathLimit h' = pathLimit h \<and>
    (\<forall>y \<in> set (series h'). fresh now ttl y) \<and> removed = map (\<lambda>y. sLabels (snd y)) (filter (\<lambda>y. \<not> fresh now ttl y) (series h))"
  using evict_loop_ok [OF assms(1) subset_refl _ assms(2) [unfolded Evict_def]] assms(1)
  by (auto simp: series_ok_def counts_ok_def)

lemma evict_loop_series:
  "series (snd (evict_loop now ttl xs h)) =
     filter (\<lambda>y. fst y \<notin> fst ` {x \<in> set xs. \<not> fresh now ttl x}) (series h)"
proof (induction xs arbitrary: h)
  case (Cons x xs)
  show ?case
  proof (cases "fresh now ttl x")
    case True
    then have "{y \<in> set (x # xs). \<not> fresh now ttl y} = {y \<in> set xs. \<not> fresh now ttl y}" by auto
    with True Cons show ?thesis by (simp add: fresh_def)
  next
    case False
    then have "{y \<in> set (x # xs). \<not> fresh now ttl y} = insert x {y \<in> set xs. \<not> fresh now ttl y}" by auto
    with False Cons [of "evict_one_series x h"] show ?thesis
      by (simp add: fresh_def AList.delete_eq case_prod_unfold conj_commute eq_commute [of "fst x"] split: prod.splits)
  qed
qed simp

lemma Evict_series:
  assumes "distinct (map fst (series h))"
  shows "series (snd (Evict now ttl h)) = filter (fresh now ttl) (series h)"
  unfolding Evict_def evict_loop_series
proof (rule filter_cong [OF refl])
  fix y assume y: "y \<in> set (series h)"
  have "x = y" if "x \<in> set (series h)" "fst x = fst y" for x
    using eq_key_imp_eq_value [OF assms, of "fst y" "snd x" "snd y"] that y by (metis prod.collapse prod_eqI)
  with y show "(fst y \<notin> fst ` {x \<in> set (series h). \<not> fresh now ttl x}) = fresh now ttl y" by force
qed

section \<open>Runs\<close>

datatype series_op = ObserveOp string string int "string \<Rightarrow> string list" | EvictOp int int

fun series_step :: "series_op \<Rightarrow> HTTPPathSeries \<Rightarrow> HTTPPathSeries" where
  "series_step (ObserveOp d p now labelValues) h = snd (Observe d p now labelValues h)"
| "series_step (EvictOp now ttl) h = snd (Evict now ttl h)"

text \<open>
  The label values of a request's series carry its destination and path label, so both can be read back;
  and no path is itself the overflow label.
\<close>

fun op_ok :: "(string \<Rightarrow> string \<times> string) \<Rightarrow> string \<Rightarrow> series_op \<Rightarrow> bool" where
  "op_ok owner ov (ObserveOp d p now labelValues) \<longleftrightarrow>
     labels_by owner d labelValues p \<and> labels_by owner d labelValues ov \<and> p \<noteq> ov"
| "op_ok owner ov (EvictOp now ttl) \<longleftrightarrow> True"

lemma Observe_fields: "overflowLabel (snd (Observe d p now lv h)) = overflowLabel h" "pathLimit (snd (Observe d p now lv h)) = pathLimit h"
proof -
  obtain l full h1 where pl: "pathLabel d p h = ((l, full), h1)" by (metis surj_pair)
  show "overflowLabel (snd (Observe d p now lv h)) = overflowLabel h" "pathLimit (snd (Observe d p now lv h)) = pathLimit h"
    using pathLabel_fields(4,5) [OF pl] by (simp_all add: Observe_def pl Let_def split: option.splits)
qed

definition run_ok :: "(string \<Rightarrow> string \<times> string) \<Rightarrow> int \<Rightarrow> string \<Rightarrow> HTTPPathSeries \<Rightarrow> bool" where
  "run_ok owner lim ov h \<longleftrightarrow> series_ok owner h \<and> pathLimit h = lim \<and> overflowLabel h = ov"

lemma series_step_ok: "op_ok owner ov x \<Longrightarrow> run_ok owner lim ov h \<Longrightarrow> run_ok owner lim ov (series_step x h)"
proof (cases x)
  case (ObserveOp d p now lv)
  assume "op_ok owner ov x" "run_ok owner lim ov h"
  then show ?thesis using Observe_ok [of owner h d lv p now] Observe_fields [of d p now lv h] ObserveOp by (simp add: run_ok_def)
next
  case (EvictOp now ttl)
  assume "run_ok owner lim ov h"
  then show ?thesis using Evict_ok [of owner h now ttl] EvictOp by (cases "Evict now ttl h") (auto simp: run_ok_def)
qed

lemma series_run_ok: "list_all (op_ok owner ov) ops \<Longrightarrow> run_ok owner lim ov h \<Longrightarrow> run_ok owner lim ov (fold series_step ops h)"
  by (induction ops arbitrary: h) (simp_all add: series_step_ok)

lemma new_run_ok: "run_ok owner lim ov (NewHTTPPathSeries lim ov)"
  by (simp add: run_ok_def series_ok_def counts_ok_def owned_def slots_ok_def candidates_ok_def NewHTTPPathSeries_def
      occurs_def count_of_def paths_of_def)

text \<open>The label of a request, and of the next one for the same path.\<close>

lemma Observe_values: "fst (fst (Observe d p now lv h)) = lv (fst (fst (pathLabel d p h)))"
  by (simp add: Observe_def Let_def split: prod.splits option.splits)

lemma Observe_tables:
  "admitted (snd (Observe d p now lv h)) = admitted (snd (pathLabel d p h)) \<and> candidates (snd (Observe d p now lv h)) = candidates (snd (pathLabel d p h))"
  by (simp add: Observe_def Let_def split: prod.splits option.splits)

lemma second_request:
  assumes "int (length (paths_of h d)) < pathLimit h" "p \<noteq> []"
  shows "fst (fst (pathLabel d p (snd (Observe d p now lv h)))) = p"
proof -
  let ?h = "snd (Observe d p now lv h)" and ?h1 = "snd (pathLabel d p h)"
  have lim: "pathLimit ?h = pathLimit h" by (rule Observe_fields)
  have tables: "paths_of ?h d = paths_of ?h1 d" "candidates ?h = candidates ?h1"
    using Observe_tables [of d p now lv h] by (simp_all add: paths_of_def)
  show ?thesis
  proof (cases "p \<in> set (paths_of ?h1 d)")
    case True
    then show ?thesis using assms(2) tables by (simp add: pathLabel_def)
  next
    case False
    have "p \<notin> set (paths_of h d)"
    proof
      assume "p \<in> set (paths_of h d)"
      then have "?h1 = h" using assms(2) by (simp add: pathLabel_def)
      with False \<open>p \<in> set (paths_of h d)\<close> show False by simp
    qed
    moreover from this have "(d, p) \<notin> set (candidates h)"
    proof (intro notI)
      assume "(d, p) \<in> set (candidates h)"
      then have "admitted ?h1 = AList.update d (paths_of h d @ [p]) (admitted h)"
        using assms \<open>p \<notin> set (paths_of h d)\<close> by (simp add: pathLabel_def Let_def)
      then have "paths_of ?h1 d = paths_of h d @ [p]" by (simp add: paths_of_def update_conv')
      with False show False by simp
    qed
    ultimately have h1: "?h1 = h\<lparr>candidates := (if int (length (candidates h)) \<ge> pathLimit h then [] else candidates h) @ [(d, p)]\<rparr>"
      using assms by (simp add: pathLabel_def Let_def)
    have "paths_of ?h1 d = paths_of h d" "(d, p) \<in> set (candidates ?h1)" unfolding h1 by (simp_all add: paths_of_def)
    with False assms lim tables show ?thesis by (simp add: pathLabel_def Let_def)
  qed
qed

section \<open>Properties\<close>

text \<open>
  C35. The series of HTTP requests stay bounded and none is leaked. After any requests and evictions no
  destination labels more than the limit of paths, and the paths remembered once are no more than the
  limit; every labelled path has a series that carries it, so a slot is freed with its last series, and
  the counts per destination are exact; a path gets its own label from its second request on while its
  destination has room; and an eviction keeps exactly the series seen within the time to live.
\<close>

theorem http_series_correct:
  assumes "list_all (op_ok owner ov) ops" "h = fold series_step ops (NewHTTPPathSeries lim ov)"
  shows "int (length (paths_of h d)) \<le> max 0 lim \<and> int (length (candidates h)) \<le> max 1 lim \<and>
    (p \<in> set (paths_of h d) \<longrightarrow> (\<exists>x. x \<in> set (series h) \<and> sKey (snd x) = (d, p))) \<and>
    count_of (destRefs h) d = int (length (filter (\<lambda>x. fst (sKey (snd x)) = d) (series h))) \<and>
    (int (length (paths_of h d)) < lim \<and> p \<noteq> [] \<longrightarrow>
       fst (fst (Observe d p t2 lv (snd (Observe d p t1 lv h)))) = lv p) \<and>
    (case Evict now ttl h of (removed, h') \<Rightarrow>
       series h' = filter (fresh now ttl) (series h) \<and> removed = map (\<lambda>y. sLabels (snd y)) (filter (\<lambda>y. \<not> fresh now ttl y) (series h)))"
proof -
  have run: "run_ok owner lim ov h" using series_run_ok [OF assms(1) new_run_ok] assms(2) by simp
  then have ok: "series_ok owner h" and lim: "pathLimit h = lim" by (simp_all add: run_ok_def)
  obtain removed h' where e: "Evict now ttl h = (removed, h')" by force
  have bounds: "int (length (paths_of h d)) \<le> max 0 lim" "int (length (candidates h)) \<le> max 1 lim"
    using ok lim by (simp_all add: series_ok_def slots_ok_def candidates_ok_def)
  have carried: "\<exists>x. x \<in> set (series h) \<and> sKey (snd x) = (d, p)" if "p \<in> set (paths_of h d)"
  proof -
    have "0 < occurs (\<lambda>s. sKey s = (d, p)) (series h)" using ok that by (simp add: series_ok_def slots_ok_def)
    from occurs_posD [OF this] show ?thesis by (simp only: Bex_def)
  qed
  have count: "count_of (destRefs h) d = int (length (filter (\<lambda>x. fst (sKey (snd x)) = d) (series h)))"
    using ok by (simp add: series_ok_def counts_ok_def occurs_def o_def)
  have second: "fst (fst (Observe d p t2 lv (snd (Observe d p t1 lv h)))) = lv p" if "int (length (paths_of h d)) < lim" "p \<noteq> []"
    using second_request [of h d p t1 lv] that lim by (simp add: Observe_values)
  have kept: "series h' = filter (fresh now ttl) (series h)"
    using Evict_series [of h now ttl] ok e by (simp add: series_ok_def counts_ok_def)
  have gone: "removed = map (\<lambda>y. sLabels (snd y)) (filter (\<lambda>y. \<not> fresh now ttl y) (series h))"
    using Evict_ok [OF ok e] by simp
  show ?thesis
    unfolding e prod.case by (intro conjI impI bounds carried count second kept gone) (simp_all only: not_False_eq_True)
qed

theorem http_series_correct_witness:
  "fst (fst (Observe ''d'' ''/b'' 3 (\<lambda>l. [''d'', l]) (snd (Observe ''d'' ''/b'' 2 (\<lambda>l. [''d'', l])
      (fold series_step [ObserveOp ''d'' ''/a'' 1 (\<lambda>l. [''d'', l])] (NewHTTPPathSeries 5 ''~other'')))))) = [''d'', ''/b'']"
proof -
  let ?lv = "\<lambda>l. [''d'', l]"
  let ?ops = "[ObserveOp ''d'' ''/a'' 1 ?lv]"
  let ?h = "fold series_step ?ops (NewHTTPPathSeries 5 ''~other'')"
  have ops: "list_all (op_ok (\<lambda>k. (''d'', drop 2 k)) ''~other'') ?ops" by (simp add: labels_by_def)
  have room: "int (length (paths_of ?h ''d'')) < 5" by code_simp
  show ?thesis
    using http_series_correct [OF ops refl, where d = "''d''" and p = "''/b''" and lv = ?lv and ?t1.0 = 2 and ?t2.0 = 3 and lim = 5] room
    by (simp only: list.distinct(2) not_False_eq_True simp_thms)
qed

end
