(* ===== verification/L7_Stats.thy ===== *)
theory L7_Stats
  imports L7 Mongo_Dns Destination Http_Path Http_Path_Series Utf8
begin

text \<open>
  The metrics of requests, \<open>src/containers/l7.go\<close> with the tables of \<open>src/containers/metrics.go\<close>. The
  Prometheus client is not under \<open>src\<close>: a vector is what it is created from, a name, a help text, constant
  labels and label names, and every call the code makes on a vector is a value of \<open>metric_call\<close>. Whether
  \<open>GetMetricWithLabelValues\<close> accepts some values is the parameter \<open>vecOk\<close>. The methods lock around their
  accesses to the maps, so each is one step on the interner's cache and the statistics of a container.
\<close>

section \<open>The interner\<close>

type_synonym interner = "(string \<times> string) list"

text \<open>
  \<open>order\<close> rearranges the entries of the cache into the order in which Go ranges over it. The second lookup
  under the write lock sees the same cache here.
\<close>

definition intern :: "(interner \<Rightarrow> interner) \<Rightarrow> string \<Rightarrow> interner \<Rightarrow> string \<times> interner" where
  "intern order s cache =
     (if s = [] then ([], cache)
      else case map_of cache s of
        Some interned \<Rightarrow> (interned, cache)
      | None \<Rightarrow>
          (let cache1 = (if length cache > 5000 then take 2000 (order cache) else cache) in
           (s, AList.update s s cache1)))"

text \<open>Several strings, one after the other, as in the literal of \<open>labelValues\<close>.\<close>

fun interns :: "(interner \<Rightarrow> interner) \<Rightarrow> string list \<Rightarrow> interner \<Rightarrow> string list \<times> interner" where
  "interns order [] cache = ([], cache)"
| "interns order (s # ss) cache =
     (case intern order s cache of (v, cache1) \<Rightarrow>
        (case interns order ss cache1 of (vs, cache2) \<Rightarrow> (v # vs, cache2)))"

section \<open>Vectors\<close>

record metric_vec =
  vName :: string
  vHelp :: string
  vConst :: "(string \<times> string) list"
  vLabels :: "string list"

definition L7Requests :: "(Protocol \<times> string \<times> string) list" where
  "L7Requests =
    [(1, ''container_http_requests_total'', ''Total number of outbound HTTP requests''),
     (2, ''container_postgres_queries_total'', ''Total number of outbound Postgres queries''),
     (3, ''container_redis_queries_total'', ''Total number of outbound Redis queries''),
     (4, ''container_memcached_queries_total'', ''Total number of outbound Memcached queries''),
     (5, ''container_mysql_queries_total'', ''Total number of outbound Mysql queries''),
     (6, ''container_mongo_queries_total'', ''Total number of outbound Mongo queries''),
     (7, ''container_kafka_requests_total'', ''Total number of outbound Kafka requests''),
     (8, ''container_cassandra_queries_total'', ''Total number of outbound Cassandra requests''),
     (9, ''container_rabbitmq_messages_total'', ''Total number of Rabbitmq messages produced or consumed by the container''),
     (10, ''container_nats_messages_total'', ''Total number of NATS messages produced or consumed by the container''),
     (12, ''container_dubbo_requests_total'', ''Total number of outbound DUBBO requests''),
     (13, ''container_dns_requests_total'', ''Total number of outbound DNS requests''),
     (14, ''container_clickhouse_queries_total'', ''Total number of outbound ClickHouse queries''),
     (15, ''container_zookeeper_requests_total'', ''Total number of outbound Zookeeper requests''),
     (16, ''container_foundationdb_requests_total'', ''Total number of outbound FoundationDB requests'')]"

definition L7Latency :: "(Protocol \<times> string \<times> string) list" where
  "L7Latency =
    [(1, ''container_http_requests_duration_seconds_total'', ''Histogram of the response time for each outbound HTTP request''),
     (2, ''container_postgres_queries_duration_seconds_total'', ''Histogram of the execution time for each outbound Postgres query''),
     (3, ''container_redis_queries_duration_seconds_total'', ''Histogram of the execution time for each outbound Redis query''),
     (4, ''container_memcached_queries_duration_seconds_total'', ''Histogram of the execution time for each outbound Memcached query''),
     (5, ''container_mysql_queries_duration_seconds_total'', ''Histogram of the execution time for each outbound Mysql query''),
     (6, ''container_mongo_queries_duration_seconds_total'', ''Histogram of the execution time for each outbound Mongo query''),
     (7, ''container_kafka_requests_duration_seconds_total'', ''Histogram of the execution time for each outbound Kafka request''),
     (8, ''container_cassandra_queries_duration_seconds_total'', ''Histogram of the execution time for each outbound Cassandra request''),
     (12, ''container_dubbo_requests_duration_seconds_total'', ''Histogram of the response time for each outbound DUBBO request''),
     (13, ''container_dns_requests_duration_seconds_total'', ''Histogram of the response time for each outbound DNS request''),
     (14, ''container_clickhouse_queries_duration_seconds_total'', ''Histogram of the execution time for each outbound ClickHouse query''),
     (15, ''container_zookeeper_requests_duration_seconds_total'', ''Histogram of the execution time for each outbound Zookeeper request''),
     (16, ''container_foundationdb_requests_duration_seconds_total'', ''Histogram of the execution time for each outbound FoundationDB request'')]"

record L7Stats =
  requests :: "(Protocol \<times> metric_vec) list"
  latency :: "(Protocol \<times> metric_vec) list"
  initialized :: "Protocol list"
  promConstLabels :: "(string \<times> string) list"
  seenFQDNs :: "string list"
  httpPaths :: HTTPPathSeries
  pathCapLogged :: bool

definition fqdnOverflowLabel :: string where "fqdnOverflowLabel = ''~other''"

text \<open>The flag \<open>MaxHTTPPathsPerDestination\<close> is the first argument.\<close>

definition NewL7Stats :: "int \<Rightarrow> (string \<times> string) list \<Rightarrow> L7Stats" where
  "NewL7Stats maxPaths constLabels =
     \<lparr>requests = [], latency = [], initialized = [], promConstLabels = constLabels, seenFQDNs = [],
      httpPaths = NewHTTPPathSeries maxPaths fqdnOverflowLabel, pathCapLogged = False\<rparr>"

datatype metric_call =
    CounterInc Protocol metric_vec "string list"
  | CounterError Protocol metric_vec "string list"
  | HistogramObserve Protocol metric_vec "string list" int
  | HistogramError Protocol metric_vec "string list"
  | CounterDelete metric_vec "string list"
  | PathCapLog string

definition logPathCap :: "string \<Rightarrow> L7Stats \<Rightarrow> metric_call list \<times> L7Stats" where
  "logPathCap d s =
     (if pathCapLogged s then ([], s) else ([PathCapLog d], s\<lparr>pathCapLogged := True\<rparr>))"

definition EvictIdleHTTP :: "int \<Rightarrow> int \<Rightarrow> L7Stats \<Rightarrow> metric_call list \<times> L7Stats" where
  "EvictIdleHTTP now ttl s =
     (case map_of (requests s) 1 of
        None \<Rightarrow> ([], s)
      | Some counter \<Rightarrow>
          (case Evict now ttl (httpPaths s) of (removed, h) \<Rightarrow>
             (map (CounterDelete counter) removed, s\<lparr>httpPaths := h\<rparr>)))"

definition dnsDomainLabel :: "int \<Rightarrow> string \<Rightarrow> L7Stats \<Rightarrow> string \<times> L7Stats" where
  "dnsDomainLabel maxFQDNs fqdn s =
     (if fqdn = [] then (fqdn, s)
      else if fqdn \<in> set (seenFQDNs s) then (fqdn, s)
      else if int (length (seenFQDNs s)) \<ge> maxFQDNs then (fqdnOverflowLabel, s)
      else (fqdn, s\<lparr>seenFQDNs := seenFQDNs s @ [fqdn]\<rparr>))"

definition baseLabels :: "string list" where
  "baseLabels =
     [''status'', ''destination'', ''actual_destination'', ''destination_workload_kind'', ''destination_workload_name'',
      ''destination_workload_namespace'', ''src_workload_kind'', ''src_workload_name'', ''src_workload_namespace'',
      ''actual_destination_workload_kind'', ''actual_destination_workload_name'',
      ''actual_destination_workload_namespace'']"

definition requestLabels :: "Protocol \<Rightarrow> string list" where
  "requestLabels metricsProtocol =
     (if metricsProtocol = 9 \<or> metricsProtocol = 10 then baseLabels @ [''method'']
      else if metricsProtocol = 1 then baseLabels @ [''path'', ''method'']
      else if metricsProtocol = 13 then baseLabels @ [''request_type'', ''domain'']
      else baseLabels)"

definition histogramLabels :: "Protocol \<Rightarrow> string list" where
  "histogramLabels metricsProtocol =
     (if metricsProtocol = 13 then baseLabels @ [''request_type'', ''domain''] else baseLabels)"

text \<open>A vector is made where the table of options has the protocol.\<close>

definition add_vec ::
  "(Protocol \<times> string \<times> string) list \<Rightarrow> Protocol \<Rightarrow> Protocol \<Rightarrow> (string \<times> string) list \<Rightarrow> string list \<Rightarrow>
   (Protocol \<times> metric_vec) list \<Rightarrow> (Protocol \<times> metric_vec) list" where
  "add_vec opts metricsProtocol protocol const labels vecs =
     (case map_of opts metricsProtocol of
        Some (name, hlp) \<Rightarrow>
          AList.update protocol \<lparr>vName = name, vHelp = hlp, vConst = const, vLabels = labels\<rparr> vecs
      | None \<Rightarrow> vecs)"

definition ensureInitialized :: "Protocol \<Rightarrow> L7Stats \<Rightarrow> L7Stats" where
  "ensureInitialized protocol s =
     (if protocol \<in> set (initialized s) then s
      else
        (let metricsProtocol = (if protocol = 11 then 1 else protocol) in
         s\<lparr>requests := add_vec L7Requests metricsProtocol protocol (promConstLabels s) (requestLabels metricsProtocol) (requests s),
           latency := add_vec L7Latency metricsProtocol protocol (promConstLabels s) (histogramLabels metricsProtocol) (latency s),
           initialized := initialized s @ [protocol]\<rparr>))"

definition groupHttpStatus :: "string \<Rightarrow> string" where
  "groupHttpStatus status =
     (case status of
        [] \<Rightarrow> ''unknown''
      | c # _ \<Rightarrow>
          if c = CHR ''2'' then ''2xx''
          else if c = CHR ''3'' then ''3xx''
          else if c = CHR ''4'' then ''4xx''
          else if c = CHR ''5'' then ''5xx''
          else ''other'')"

section \<open>A request\<close>

text \<open>
  What a request needs from outside: the addresses and the flag of \<^typ>\<open>'ip DestinationKey\<close>, the DNS message
  parser, the list of public top-level domains, the flag \<open>MaxFQDNsPerContainer\<close>, the Prometheus client and
  the order of the interner's map.
\<close>

record ('ip, 'pfx) l7_env =
  addrs :: "('ip, 'pfx) netaddr"
  collapse :: "bool option"
  publicTLD :: "string \<Rightarrow> bool"
  unpackDns :: "bytes \<Rightarrow> dns_message option"
  dnsTypeName :: "nat \<Rightarrow> string"
  maxFQDNs :: int
  vecOk :: "metric_vec \<Rightarrow> string list \<Rightarrow> bool"
  cacheOrder :: "interner \<Rightarrow> interner"

record 'ip request =
  rProtocol :: Protocol
  rStatus :: string
  rMethod :: string
  rPath :: string
  rDuration :: int
  rKey :: "'ip DestinationKey"
  rSrc :: Workload
  rData :: RequestData

definition base_values :: "('ip, 'pfx) l7_env \<Rightarrow> 'ip request \<Rightarrow> string list" where
  "base_values e q =
     (let destWorkload = destinationWorkload (rKey q); actualDestWorkload = actualDestinationWorkload (rKey q) in
      [rStatus q, DestinationLabelValue (addrs e) (collapse e) (rKey q),
       ActualDestinationLabelValue (addrs e) (collapse e) (rKey q),
       wKind destWorkload, wName destWorkload, wNamespace destWorkload,
       wKind (rSrc q), wName (rSrc q), wNamespace (rSrc q),
       wKind actualDestWorkload, wName actualDestWorkload, wNamespace actualDestWorkload])"

definition dns_labels :: "('ip, 'pfx) l7_env \<Rightarrow> 'ip request \<Rightarrow> L7Stats \<Rightarrow> (string \<times> string) \<times> L7Stats" where
  "dns_labels e q s =
     (case ParseDns (unpackDns e) (dnsTypeName e) (Payload (rData q)) of (dnsRequestType, domain0, _) \<Rightarrow>
        (let domain1 = NormalizeFQDN domain0 dnsRequestType;
             domain = (if rStatus q = ''nxdomain'' then CollapseSearchPath (publicTLD e) domain1 else domain1) in
         case dnsDomainLabel (maxFQDNs e) domain s of (dnsDomain, s') \<Rightarrow> ((dnsRequestType, dnsDomain), s')))"

definition http_destination :: "('ip, 'pfx) l7_env \<Rightarrow> 'ip request \<Rightarrow> string" where
  "http_destination e q =
     (let destWorkload = destinationWorkload (rKey q) in
      if wName destWorkload = [] then DestinationLabelValue (addrs e) (collapse e) (rKey q)
      else wNamespace destWorkload @ ''/'' @ wName destWorkload)"

definition http_normalized :: "string \<Rightarrow> string" where
  "http_normalized path = (if utf8_valid (bytes_of path) then NormalizeHTTPPath path else [])"

text \<open>
  The labels of the counter. For HTTP the label and the method are interned in the function passed to
  \<open>Observe\<close>, which calls it once, on the label it chose.
\<close>

definition counter_labels ::
  "('ip, 'pfx) l7_env \<Rightarrow> int \<Rightarrow> Protocol \<Rightarrow> 'ip request \<Rightarrow> string \<times> string \<Rightarrow> string list \<Rightarrow> interner \<times> L7Stats \<Rightarrow>
   (string list \<times> metric_call list) \<times> (interner \<times> L7Stats)" where
  "counter_labels e now metricsProtocol q dns labelValues w =
     (case w of (c, s) \<Rightarrow>
        if metricsProtocol = 9 \<or> metricsProtocol = 10 then
          (case interns (cacheOrder e) [rMethod q] c of (vs, c') \<Rightarrow> ((labelValues @ vs, []), (c', s)))
        else if metricsProtocol = 1 then
          (let d = http_destination e q; normalized = http_normalized (rPath q);
               interned = (\<lambda>label. interns (cacheOrder e) [label, rMethod q] c);
               label = fst (fst (pathLabel d normalized (httpPaths s))) in
           case Observe d normalized now (\<lambda>l. labelValues @ fst (interned l)) (httpPaths s) of ((values, full), h) \<Rightarrow>
             (let s1 = s\<lparr>httpPaths := h\<rparr> in
              case (if full then logPathCap d s1 else ([], s1)) of (calls, s2) \<Rightarrow>
                ((values, calls), (snd (interned label), s2))))
        else if metricsProtocol = 13 then
          (case interns (cacheOrder e) [fst dns, snd dns] c of (vs, c') \<Rightarrow> ((labelValues @ vs, []), (c', s)))
        else ((labelValues, []), (c, s)))"

definition histogram_labels ::
  "('ip, 'pfx) l7_env \<Rightarrow> Protocol \<Rightarrow> string \<times> string \<Rightarrow> string list \<Rightarrow> interner \<Rightarrow> string list \<times> interner" where
  "histogram_labels e metricsProtocol dns labelValues c =
     (case intern (cacheOrder e) (groupHttpStatus (labelValues ! 0)) c of (status, c1) \<Rightarrow>
        (let values = labelValues[0 := status] in
         if metricsProtocol = 13 then
           (case interns (cacheOrder e) [fst dns, snd dns] c1 of (vs, c2) \<Rightarrow> (values @ vs, c2))
         else (values, c1)))"

definition count_request :: "('ip, 'pfx) l7_env \<Rightarrow> Protocol \<Rightarrow> string list \<Rightarrow> L7Stats \<Rightarrow> metric_call list" where
  "count_request e protocol values s =
     (case map_of (requests s) protocol of
        None \<Rightarrow> []
      | Some counter \<Rightarrow> if vecOk e counter values then [CounterInc protocol counter values] else [CounterError protocol counter values])"

definition time_request :: "('ip, 'pfx) l7_env \<Rightarrow> Protocol \<Rightarrow> string list \<Rightarrow> int \<Rightarrow> L7Stats \<Rightarrow> metric_call list" where
  "time_request e protocol values duration s =
     (case map_of (latency s) protocol of
        None \<Rightarrow> []
      | Some histogram \<Rightarrow>
          if duration = 0 then []
          else if vecOk e histogram values then [HistogramObserve protocol histogram values duration]
          else [HistogramError protocol histogram values])"

definition observe :: "('ip, 'pfx) l7_env \<Rightarrow> int \<Rightarrow> 'ip request \<Rightarrow> interner \<times> L7Stats \<Rightarrow> metric_call list \<times> (interner \<times> L7Stats)" where
  "observe e now q w =
     (case w of (c0, s0) \<Rightarrow>
        (let protocol = (if rProtocol q = 11 then 1 else rProtocol q);
             s1 = ensureInitialized protocol s0;
             metricsProtocol = (if protocol = 11 then 1 else protocol) in
         case interns (cacheOrder e) (base_values e q) c0 of (labelValues, c1) \<Rightarrow>
         case (if metricsProtocol = 13 then dns_labels e q s1 else (([], []), s1)) of (dns, s2) \<Rightarrow>
         case counter_labels e now metricsProtocol q dns labelValues (c1, s2) of ((counterValues, calls), (c2, s3)) \<Rightarrow>
         case histogram_labels e metricsProtocol dns labelValues c2 of (histogramValues, c3) \<Rightarrow>
           (calls @ count_request e protocol counterValues s3 @ time_request e protocol histogramValues (rDuration q) s3,
            (c3, s3))))"

section \<open>Runs\<close>

datatype 'ip l7_op = ObserveL7 int "'ip request" | EvictL7 int int

fun l7_step :: "('ip, 'pfx) l7_env \<Rightarrow> 'ip l7_op \<Rightarrow> interner \<times> L7Stats \<Rightarrow> metric_call list \<times> (interner \<times> L7Stats)" where
  "l7_step e (ObserveL7 now q) w = observe e now q w"
| "l7_step e (EvictL7 now ttl) (c, s) = (case EvictIdleHTTP now ttl s of (calls, s') \<Rightarrow> (calls, (c, s')))"

fun l7_run :: "('ip, 'pfx) l7_env \<Rightarrow> 'ip l7_op list \<Rightarrow> metric_call list \<times> (interner \<times> L7Stats) \<Rightarrow> metric_call list \<times> (interner \<times> L7Stats)" where
  "l7_run e [] (calls, w) = (calls, w)"
| "l7_run e (x # xs) (calls, w) = (case l7_step e x w of (calls', w') \<Rightarrow> l7_run e xs (calls @ calls', w'))"

lemma l7_run_keeps:
  assumes "\<And>x calls w calls' w'. x \<in> set ops \<Longrightarrow> I calls w \<Longrightarrow> l7_step e x w = (calls', w') \<Longrightarrow> I (calls @ calls') w'"
    and "I calls w" "l7_run e ops (calls, w) = (calls', w')"
  shows "I calls' w'"
  using assms
proof (induction ops arbitrary: calls w)
  case (Cons x xs)
  obtain cs w1 where x: "l7_step e x w = (cs, w1)" by (cases "l7_step e x w")
  show ?case
  proof (rule Cons.IH)
    show "I (calls @ cs) w1" using Cons.prems(1) [OF _ Cons.prems(2) x] by simp
    show "l7_run e xs (calls @ cs, w1) = (calls', w')" using Cons.prems(3) x by simp
  qed (rule Cons.prems(1); simp)
qed simp

lemma observe_cases:
  assumes "observe e now q (c0, s0) = (cs, (c3, s3))"
  obtains p lv c1 dns s2 cv calls c2 hv where
    "p = (if rProtocol q = 11 then 1 else rProtocol q)" "interns (cacheOrder e) (base_values e q) c0 = (lv, c1)"
    "(if p = 13 then dns_labels e q (ensureInitialized p s0) else (([], []), ensureInitialized p s0)) = (dns, s2)"
    "counter_labels e now p q dns lv (c1, s2) = ((cv, calls), (c2, s3))"
    "histogram_labels e p dns lv c2 = (hv, c3)"
    "cs = calls @ count_request e p cv s3 @ time_request e p hv (rDuration q) s3" "p \<noteq> 11"
proof -
  define p where "p = (if rProtocol q = 11 then 1 else rProtocol q)"
  have p: "p \<noteq> 11" "(if p = 11 then 1 else p) = p" by (simp_all add: p_def)
  obtain lv c1 where a: "interns (cacheOrder e) (base_values e q) c0 = (lv, c1)" by (rule prod.exhaust)
  obtain dns s2 where b: "(if p = 13 then dns_labels e q (ensureInitialized p s0) else (([], []), ensureInitialized p s0)) = (dns, s2)"
    by (rule prod.exhaust)
  obtain cv calls c2 s3' where c: "counter_labels e now p q dns lv (c1, s2) = ((cv, calls), (c2, s3'))" by (metis surj_pair)
  obtain hv c3' where d: "histogram_labels e p dns lv c2 = (hv, c3')" by (rule prod.exhaust)
  have "observe e now q (c0, s0) =
      (calls @ count_request e p cv s3' @ time_request e p hv (rDuration q) s3', (c3', s3'))"
    unfolding observe_def prod.case Let_def p_def [symmetric] p(2) a b c d ..
  with assms have r: "s3' = s3" "c3' = c3" "cs = calls @ count_request e p cv s3 @ time_request e p hv (rDuration q) s3"
    by auto
  from p_def a b c [unfolded r(1)] d [unfolded r(2)] r(3) p(1) show thesis by (rule that)
qed

section \<open>Label counts\<close>

lemma interns_length: "length (fst (interns order ss c)) = length ss"
  by (induction order ss c rule: interns.induct) (auto split: prod.splits)

lemma base_lengths [simp]: "length (base_values e q) = 12" "length baseLabels = 12"
  by (simp_all add: base_values_def baseLabels_def Let_def)

fun call_arity :: "metric_call \<Rightarrow> bool" where
  "call_arity (CounterInc p v values) \<longleftrightarrow> length values = length (vLabels v)"
| "call_arity (CounterError p v values) \<longleftrightarrow> length values = length (vLabels v)"
| "call_arity (HistogramObserve p v values d) \<longleftrightarrow> length values = length (vLabels v)"
| "call_arity (HistogramError p v values) \<longleftrightarrow> length values = length (vLabels v)"
| "call_arity (CounterDelete v values) \<longleftrightarrow> length values = length (vLabels v)"
| "call_arity (PathCapLog d) \<longleftrightarrow> True"

text \<open>The vectors made from a table of options.\<close>

definition vecs_ok :: "(Protocol \<times> string \<times> string) list \<Rightarrow> (Protocol \<Rightarrow> string list) \<Rightarrow> (Protocol \<times> metric_vec) list \<Rightarrow> bool" where
  "vecs_ok opts labels vecs \<longleftrightarrow> distinct (map fst vecs) \<and>
     (\<forall>x \<in> set vecs. fst x \<noteq> 11 \<and> (\<exists>hlp. (fst x, vName (snd x), hlp) \<in> set opts) \<and> vLabels (snd x) = labels (fst x))"

lemma add_vec_ok:
  assumes "vecs_ok opts labels vecs" "p \<noteq> 11"
  shows "vecs_ok opts labels (add_vec opts p p const (labels p) vecs)"
proof (cases "map_of opts p")
  case (Some x)
  obtain n hlp where x: "x = (n, hlp)" by force
  with Some have "(p, n, hlp) \<in> set opts" by (simp add: map_of_SomeD)
  then show ?thesis
    using assms set_update_subset [of p _ vecs] Some x
    by (fastforce simp: vecs_ok_def add_vec_def distinct_update)
qed (use assms in \<open>simp add: add_vec_def\<close>)

lemma vecs_find: "vecs_ok opts labels vecs \<Longrightarrow> map_of vecs p = Some v \<Longrightarrow> vLabels v = labels p"
  by (fastforce simp: vecs_ok_def dest: map_of_SomeD)

definition stats_typed :: "L7Stats \<Rightarrow> bool" where
  "stats_typed s \<longleftrightarrow> vecs_ok L7Requests requestLabels (requests s) \<and> vecs_ok L7Latency histogramLabels (latency s) \<and>
     (\<forall>x \<in> set (series (httpPaths s)). length (sLabels (snd x)) = 14)"

lemma ensure_typed: "stats_typed s \<Longrightarrow> p \<noteq> 11 \<Longrightarrow> stats_typed (ensureInitialized p s)"
  by (simp add: stats_typed_def ensureInitialized_def add_vec_ok Let_def)

lemma dns_labels_keeps:
  "dns_labels e q s = (dns, s') \<Longrightarrow> requests s' = requests s \<and> latency s' = latency s \<and> httpPaths s' = httpPaths s"
  by (auto simp: dns_labels_def dnsDomainLabel_def Let_def split: prod.splits if_splits)

lemma logPathCap_keeps:
  "(if full then logPathCap d s else ([], s)) = (calls, s') \<Longrightarrow>
     requests s' = requests s \<and> latency s' = latency s \<and> httpPaths s' = httpPaths s \<and> seenFQDNs s' = seenFQDNs s \<and>
     list_all call_arity calls \<and> (\<forall>x \<in> set calls. \<exists>d. x = PathCapLog d)"
  by (auto simp: logPathCap_def split: if_splits)

lemma Observe_series:
  assumes "Observe d p now lv h = ((values, full), h')"
  obtains s where "series h' = AList.update (join_nul values) s (series h)"
    "(case map_of (series h) (join_nul values) of None \<Rightarrow> sLabels s = values | Some s0 \<Rightarrow> sLabels s = sLabels s0)"
    "values = lv (fst (fst (pathLabel d p h)))"
proof -
  obtain l f h1 where pl: "pathLabel d p h = ((l, f), h1)" by (metis surj_pair)
  have h1: "series h1 = series h" by (rule pathLabel_fields(1) [OF pl])
  show thesis
  proof (cases "map_of (series h) (join_nul (lv l))")
    case None
    with assms have "values = lv l" by (simp add: Observe_def pl h1 Let_def)
    with None assms show thesis by (intro that) (auto simp: Observe_def pl h1 Let_def)
  next
    case (Some s)
    with assms have "values = lv l" by (simp add: Observe_def pl h1 Let_def)
    with Some assms show thesis by (intro that [of "s\<lparr>lastSeen := now\<rparr>"]) (auto simp: Observe_def pl h1 Let_def)
  qed
qed

lemma Observe_lengths:
  assumes "Observe d p now lv h = ((values, full), h')" "length values = 14" "\<forall>x \<in> set (series h). length (sLabels (snd x)) = 14"
  shows "\<forall>x \<in> set (series h'). length (sLabels (snd x)) = 14"
proof -
  obtain s where s: "series h' = AList.update (join_nul values) s (series h)"
    "(case map_of (series h) (join_nul values) of None \<Rightarrow> sLabels s = values | Some s0 \<Rightarrow> sLabels s = sLabels s0)"
    using Observe_series [OF assms(1)] by blast
  have s14: "length (sLabels s) = 14"
  proof (cases "map_of (series h) (join_nul values)")
    case (Some s0)
    with s(2) assms(3) map_of_SomeD [OF Some] show ?thesis by fastforce
  qed (use s(2) assms(2) in simp)
  show ?thesis
  proof
    fix x assume "x \<in> set (series h')"
    then have "x = (join_nul values, s) \<or> x \<in> set (series h)"
      using set_update_subset [of "join_nul values" s "series h"] unfolding s(1) by blast
    with s14 assms(3) show "length (sLabels (snd x)) = 14" by (elim disjE) simp_all
  qed
qed

lemma counter_labels_typed:
  assumes "counter_labels e now m q dns lv (c, s) = ((cv, calls), (c', s'))" "length lv = 12" "stats_typed s"
  shows "stats_typed s' \<and> requests s' = requests s \<and> latency s' = latency s \<and> length cv = length (requestLabels m) \<and>
    list_all call_arity calls"
proof (cases "m = 1")
  case True
  let ?lv = "\<lambda>l. lv @ fst (interns (cacheOrder e) [l, rMethod q] c)"
  let ?d = "http_destination e q" and ?p = "http_normalized (rPath q)"
  obtain full h where o: "Observe ?d ?p now ?lv (httpPaths s) = ((cv, full), h)"
    and l: "(if full then logPathCap ?d (s\<lparr>httpPaths := h\<rparr>) else ([], s\<lparr>httpPaths := h\<rparr>)) = (calls, s')"
    using assms(1) True unfolding counter_labels_def by (simp add: Let_def split: prod.splits)
  have cv: "length cv = 14" using Observe_values [of ?d ?p now ?lv "httpPaths s"] o assms(2)
    by (simp add: interns_length del: interns.simps)
  have "\<forall>x \<in> set (series h). length (sLabels (snd x)) = 14"
    using Observe_lengths [OF o cv] assms(3) by (simp add: stats_typed_def)
  then show ?thesis using logPathCap_keeps [OF l] assms(3) cv True by (simp add: stats_typed_def requestLabels_def)
next
  case False
  show ?thesis
    using assms False interns_length [of "cacheOrder e" "[rMethod q]" c] interns_length [of "cacheOrder e" "[fst dns, snd dns]" c]
    by (auto simp: counter_labels_def requestLabels_def split: prod.splits if_splits)
qed

lemma histogram_labels_length:
  assumes "histogram_labels e m dns lv c = (hv, c')" "length lv = 12"
  shows "length hv = length (histogramLabels m)"
proof -
  obtain status c1 where i: "intern (cacheOrder e) (groupHttpStatus (lv ! 0)) c = (status, c1)" by (rule prod.exhaust)
  obtain vs c2 where j: "interns (cacheOrder e) [fst dns, snd dns] c1 = (vs, c2)" by (rule prod.exhaust)
  have "length vs = 2" using interns_length [of "cacheOrder e" "[fst dns, snd dns]" c1] j by simp
  with assms i j show ?thesis
    by (cases "m = 13") (auto simp: histogram_labels_def histogramLabels_def Let_def simp del: interns.simps)
qed

lemma request_calls_typed:
  "stats_typed s \<Longrightarrow> length values = length (requestLabels p) \<Longrightarrow> list_all call_arity (count_request e p values s)"
  "stats_typed s \<Longrightarrow> length values = length (histogramLabels p) \<Longrightarrow> list_all call_arity (time_request e p values d s)"
  by (auto simp: count_request_def time_request_def stats_typed_def vecs_find split: option.splits)

lemma observe_typed:
  assumes "stats_typed s0" "observe e now q (c0, s0) = (cs, (c3, s3))"
  shows "stats_typed s3 \<and> list_all call_arity cs"
proof -
  from assms(2) obtain p lv c1 dns s2 cv calls c2 hv where
    "p = (if rProtocol q = 11 then 1 else rProtocol q)" and lv: "interns (cacheOrder e) (base_values e q) c0 = (lv, c1)"
    and s2: "(if p = 13 then dns_labels e q (ensureInitialized p s0) else (([], []), ensureInitialized p s0)) = (dns, s2)"
    and cl: "counter_labels e now p q dns lv (c1, s2) = ((cv, calls), (c2, s3))"
    and hl: "histogram_labels e p dns lv c2 = (hv, c3)"
    and cs: "cs = calls @ count_request e p cv s3 @ time_request e p hv (rDuration q) s3" and p: "p \<noteq> 11"
    by (rule observe_cases)
  have len: "length lv = 12" using interns_length [of "cacheOrder e" "base_values e q" c0] lv by simp
  have "stats_typed (ensureInitialized p s0)" using assms(1) p by (rule ensure_typed)
  then have "stats_typed s2" using s2 dns_labels_keeps [of e q "ensureInitialized p s0" dns s2] by (auto simp: stats_typed_def split: if_splits)
  with cl len have "stats_typed s3" "length cv = length (requestLabels p)" "list_all call_arity calls"
    by (simp_all add: counter_labels_typed)
  then show ?thesis using histogram_labels_length [OF hl len] by (simp add: cs request_calls_typed)
qed

lemma evict_loop_removed: "fst (evict_loop now ttl xs h) = map (sLabels \<circ> snd) (filter (\<lambda>y. \<not> fresh now ttl y) xs)"
  by (induction xs arbitrary: h) (auto simp: fresh_def split: prod.splits, metis fst_conv)

lemma EvictIdleHTTP_typed:
  assumes "stats_typed s" "EvictIdleHTTP now ttl s = (cs, s')"
  shows "stats_typed s' \<and> list_all call_arity cs"
proof (cases "map_of (requests s) 1")
  case None
  then show ?thesis using assms by (simp add: EvictIdleHTTP_def)
next
  case (Some counter)
  obtain removed h where e: "Evict now ttl (httpPaths s) = (removed, h)" by (rule prod.exhaust)
  have r: "set removed \<subseteq> (sLabels \<circ> snd) ` set (series (httpPaths s))" "set (series h) \<subseteq> set (series (httpPaths s))"
    using evict_loop_removed [of now ttl "series (httpPaths s)" "httpPaths s"]
      evict_loop_series [of now ttl "series (httpPaths s)" "httpPaths s"] e by (auto simp: Evict_def)
  have "length (vLabels counter) = 14"
    using vecs_find [of L7Requests requestLabels, OF _ Some] assms(1) by (simp add: stats_typed_def requestLabels_def)
  then show ?thesis using assms e r Some by (fastforce simp: EvictIdleHTTP_def stats_typed_def list_all_iff)
qed

lemma l7_step_typed: "stats_typed s \<Longrightarrow> l7_step e x (c, s) = (cs, (c', s')) \<Longrightarrow> stats_typed s' \<and> list_all call_arity cs"
proof (cases x)
  case (ObserveL7 now q)
  assume "stats_typed s" "l7_step e x (c, s) = (cs, (c', s'))"
  with ObserveL7 show ?thesis using observe_typed by simp
next
  case (EvictL7 now ttl)
  assume "stats_typed s" "l7_step e x (c, s) = (cs, (c', s'))"
  with EvictL7 show ?thesis using EvictIdleHTTP_typed [of s now ttl] by (auto split: prod.splits)
qed

lemma new_typed: "stats_typed (NewL7Stats maxPaths constLabels)"
  by (simp add: stats_typed_def NewL7Stats_def NewHTTPPathSeries_def vecs_ok_def)

lemma l7_run_typed:
  assumes "l7_run e ops ([], ([], NewL7Stats maxPaths constLabels)) = (calls, (c, s))"
  shows "stats_typed s \<and> list_all call_arity calls"
proof -
  have "stats_typed (snd (c, s)) \<and> list_all call_arity calls"
  proof (rule l7_run_keeps [where I = "\<lambda>cs w. stats_typed (snd w) \<and> list_all call_arity cs", OF _ _ assms])
    fix x cs w cs' w' assume "stats_typed (snd w) \<and> list_all call_arity cs" "l7_step e x w = (cs', w')"
    then show "stats_typed (snd w') \<and> list_all call_arity (cs @ cs')"
      using l7_step_typed [of "snd w" e x "fst w" cs' "fst w'" "snd w'"] by simp
  qed (simp add: new_typed)
  then show ?thesis by simp
qed

lemma metric_names: "distinct (map (fst \<circ> snd) (L7Requests @ L7Latency))"
  by code_simp

lemma vec_names_from: "vecs_ok opts labels vecs \<Longrightarrow> vName ` snd ` set vecs \<subseteq> (fst \<circ> snd) ` set opts"
  by (force simp: vecs_ok_def)

lemma vec_names_distinct:
  assumes "vecs_ok opts labels vecs" "distinct (map (fst \<circ> snd) opts)"
  shows "distinct (map (vName \<circ> snd) vecs)"
proof -
  have "x = y" if xy: "x \<in> set vecs" "y \<in> set vecs" "vName (snd x) = vName (snd y)" for x y
  proof -
    obtain h1 h2 where "(fst x, vName (snd x), h1) \<in> set opts" "(fst y, vName (snd y), h2) \<in> set opts"
      using assms(1) xy(1,2) unfolding vecs_ok_def by blast
    with assms(2) xy(3) have "fst x = fst y" unfolding distinct_map inj_on_def by fastforce
    then have "(fst x, snd y) \<in> set vecs" using xy(2) by simp
    then have "snd x = snd y" using assms(1) xy(1) eq_key_imp_eq_value [of vecs "fst x" "snd x" "snd y"] by (simp add: vecs_ok_def)
    with \<open>fst x = fst y\<close> show "x = y" by (rule prod_eqI)
  qed
  then show ?thesis using assms(1) by (auto simp: vecs_ok_def distinct_map inj_on_def)
qed

lemma stats_names: "stats_typed s \<Longrightarrow> distinct (map (vName \<circ> snd) (requests s @ latency s))"
proof -
  assume s: "stats_typed s"
  have n: "distinct (map (fst \<circ> snd) L7Requests)" "distinct (map (fst \<circ> snd) L7Latency)"
    "(fst \<circ> snd) ` set L7Requests \<inter> (fst \<circ> snd) ` set L7Latency = {}"
    using metric_names unfolding map_append distinct_append set_map by blast+
  have v: "vecs_ok L7Requests requestLabels (requests s)" "vecs_ok L7Latency histogramLabels (latency s)"
    using s by (simp_all add: stats_typed_def)
  have "A \<inter> B = {}" if "A \<subseteq> R" "B \<subseteq> L" "R \<inter> L = {}" for A B R L :: "string set"
    using that by blast
  from this [OF vec_names_from [OF v(1)] vec_names_from [OF v(2)] n(3)]
  have "(vName \<circ> snd) ` set (requests s) \<inter> (vName \<circ> snd) ` set (latency s) = {}" by (simp add: image_comp)
  then show ?thesis
    using vec_names_distinct [OF v(1) n(1)] vec_names_distinct [OF v(2) n(2)] by simp
qed

section \<open>Bounds\<close>

lemma intern_bound: "length c \<le> 5001 \<Longrightarrow> length (snd (intern order s c)) \<le> 5001"
  using length_update_le [of s s "take 2000 (order c)"] length_update_le [of s s c]
  by (auto simp: intern_def Let_def split: option.splits)

lemma interns_bound: "length c \<le> 5001 \<Longrightarrow> length (snd (interns order ss c)) \<le> 5001"
proof (induction ss arbitrary: c)
  case (Cons s ss)
  obtain v c1 where v: "intern order s c = (v, c1)" by (rule prod.exhaust)
  then have "length c1 \<le> 5001" using intern_bound [OF Cons.prems, of order s] by simp
  from Cons.IH [OF this] v show ?case by (auto split: prod.splits)
qed simp

lemma counter_labels_bound:
  assumes "counter_labels e now m q dns lv (c, s) = (cvs, (c', s'))" "length c \<le> 5001"
  shows "length c' \<le> 5001 \<and> seenFQDNs s' = seenFQDNs s"
proof (cases "m = 1")
  case True
  let ?d = "http_destination e q" and ?p = "http_normalized (rPath q)"
  obtain calls full h where
    l: "(if full then logPathCap ?d (s\<lparr>httpPaths := h\<rparr>) else ([], s\<lparr>httpPaths := h\<rparr>)) = (calls, s')"
    and c': "c' = snd (interns (cacheOrder e) [fst (fst (pathLabel ?d ?p (httpPaths s))), rMethod q] c)"
    using assms(1) True unfolding counter_labels_def by (simp add: Let_def del: interns.simps split: prod.splits)
  show ?thesis using logPathCap_keeps [OF l] interns_bound [OF assms(2)] unfolding c' by (simp del: interns.simps)
next
  case False
  then show ?thesis
    using assms interns_bound [OF assms(2), of "cacheOrder e" "[rMethod q]"] interns_bound [OF assms(2), of "cacheOrder e" "[fst dns, snd dns]"]
    by (auto simp: counter_labels_def simp del: interns.simps split: prod.splits if_splits)
qed

lemma histogram_labels_bound:
  assumes "histogram_labels e m dns lv c = (hv, c')" "length c \<le> 5001"
  shows "length c' \<le> 5001"
proof -
  obtain status c1 where i: "intern (cacheOrder e) (groupHttpStatus (lv ! 0)) c = (status, c1)" by (rule prod.exhaust)
  then have "length c1 \<le> 5001" using intern_bound [OF assms(2), of "cacheOrder e" "groupHttpStatus (lv ! 0)"] by simp
  from interns_bound [OF this, of "cacheOrder e" "[fst dns, snd dns]"] this i assms(1) show ?thesis
    by (auto simp: histogram_labels_def Let_def simp del: interns.simps split: prod.splits if_splits)
qed

definition seen_ok :: "('ip, 'pfx) l7_env \<Rightarrow> L7Stats \<Rightarrow> bool" where
  "seen_ok e s \<longleftrightarrow> int (length (seenFQDNs s)) \<le> max 0 (maxFQDNs e)"

lemma dns_labels_seen: "dns_labels e q s = (dns, s') \<Longrightarrow> seen_ok e s \<Longrightarrow> seen_ok e s'"
  by (auto simp: dns_labels_def dnsDomainLabel_def seen_ok_def Let_def split: prod.splits if_splits)

lemma ensure_seen: "seenFQDNs (ensureInitialized p s) = seenFQDNs s"
  by (simp add: ensureInitialized_def Let_def)

lemma observe_bounds:
  assumes "length c0 \<le> 5001" "seen_ok e s0" "observe e now q (c0, s0) = (cs, (c3, s3))"
  shows "length c3 \<le> 5001 \<and> seen_ok e s3"
proof -
  from assms(3) obtain p lv c1 dns s2 cv calls c2 hv where
    "p = (if rProtocol q = 11 then 1 else rProtocol q)" and lv: "interns (cacheOrder e) (base_values e q) c0 = (lv, c1)"
    and s2: "(if p = 13 then dns_labels e q (ensureInitialized p s0) else (([], []), ensureInitialized p s0)) = (dns, s2)"
    and cl: "counter_labels e now p q dns lv (c1, s2) = ((cv, calls), (c2, s3))"
    and hl: "histogram_labels e p dns lv c2 = (hv, c3)"
    and "cs = calls @ count_request e p cv s3 @ time_request e p hv (rDuration q) s3" and "p \<noteq> 11"
    by (rule observe_cases)
  have "length c1 \<le> 5001" using interns_bound [OF assms(1), of "cacheOrder e" "base_values e q"] lv by simp
  with cl have c: "length c2 \<le> 5001" "seenFQDNs s3 = seenFQDNs s2" using counter_labels_bound by blast+
  have "seen_ok e (ensureInitialized p s0)" using assms(2) by (simp add: seen_ok_def ensure_seen)
  then have "seen_ok e s2" using s2 dns_labels_seen [of e q "ensureInitialized p s0" dns s2] by (auto split: if_splits)
  with c hl show ?thesis by (simp add: histogram_labels_bound seen_ok_def)
qed

lemma l7_step_bounds:
  "length c \<le> 5001 \<Longrightarrow> seen_ok e s \<Longrightarrow> l7_step e x (c, s) = (cs, (c', s')) \<Longrightarrow> length c' \<le> 5001 \<and> seen_ok e s'"
proof (cases x)
  case (ObserveL7 now q)
  assume "length c \<le> 5001" "seen_ok e s" "l7_step e x (c, s) = (cs, (c', s'))"
  with ObserveL7 show ?thesis using observe_bounds by simp
next
  case (EvictL7 now ttl)
  assume "length c \<le> 5001" "seen_ok e s" "l7_step e x (c, s) = (cs, (c', s'))"
  with EvictL7 show ?thesis by (auto simp: EvictIdleHTTP_def seen_ok_def split: prod.splits option.splits)
qed

lemma l7_run_bounds:
  assumes "l7_run e ops ([], ([], NewL7Stats maxPaths constLabels)) = (calls, (c, s))"
  shows "length c \<le> 5001 \<and> seen_ok e s"
proof -
  have "length (fst (c, s)) \<le> 5001 \<and> seen_ok e (snd (c, s))"
  proof (rule l7_run_keeps [where I = "\<lambda>cs w. length (fst w) \<le> 5001 \<and> seen_ok e (snd w)", OF _ _ assms])
    fix x cs w cs' w' assume "length (fst w) \<le> 5001 \<and> seen_ok e (snd w)" "l7_step e x w = (cs', w')"
    then show "length (fst w') \<le> 5001 \<and> seen_ok e (snd w')"
      using l7_step_bounds [of "fst w" e "snd w" x cs' "fst w'" "snd w'"] by simp
  qed (simp add: seen_ok_def NewL7Stats_def)
  then show ?thesis by simp
qed

section \<open>Properties\<close>

text \<open>
  C40. The metrics of a container fit together, whatever requests are observed and series evicted. Every
  call on a vector has as many label values as the vector has label names, the deletions of idle series
  included, so none is refused for their number; no two vectors of a container have the same metric name,
  HTTP and HTTP/2 sharing one; and what grows with the traffic is bounded: the domains in use by
  \<open>MaxFQDNsPerContainer\<close> and the interner by 5001 strings.
\<close>

theorem l7_metrics_typed:
  "case l7_run e ops ([], ([], NewL7Stats maxPaths constLabels)) of (calls, (c, s)) \<Rightarrow>
     list_all call_arity calls \<and> distinct (map (vName \<circ> snd) (requests s @ latency s)) \<and>
     int (length (seenFQDNs s)) \<le> max 0 (maxFQDNs e) \<and> length c \<le> 5001"
proof -
  obtain calls c s where run: "l7_run e ops ([], ([], NewL7Stats maxPaths constLabels)) = (calls, (c, s))" by (metis surj_pair)
  show ?thesis
    unfolding run prod.case using l7_run_typed [OF run] l7_run_bounds [OF run] stats_names by (simp add: seen_ok_def)
qed

end
