(* ===== verification/Spec2Isabelle.thy ===== *)
theory Spec2Isabelle
  imports Http2_Exchange Sni Statements Key_Value Zookeeper Mongo_Dns Clickhouse_Correct Http_Correct
    Llm_Conn L7_Stats
begin

text \<open>
  A verification development for the node agent (a Go program that watches the containers of a node
  through eBPF): the code that turns captured bytes into requests, labels and token counts.

  \<^bold>\<open>The program.\<close> eBPF programs copy what processes read and write to ring buffers. For every event
  the agent looks up the connection, runs the parser of its protocol on the payload
  (\<open>src/ebpftracer/l7\<close>), and counts and traces the requests the parser reports
  (\<open>src/containers\<close>), with labels derived from addresses, host names and paths (\<open>src/common\<close>).
  Connections to LLM providers are captured whole and reassembled (\<open>src/llm\<close>).

  \<^bold>\<open>Conventions.\<close> A Go panic (an index or slice out of range, a division by zero) is the value \<open>None\<close>, an
  error is \<open>Inl\<close>; bytes are \<open>8 word\<close> lists, strings are HOL strings of bytes; a map is an association list; a
  machine integer is a word, or an integer with its wrap-around written out (\<open>wrap64\<close>) where it can
  overflow. Code that is not under \<open>src/\<close> is an argument: the Huffman decoder of HPACK, the DNS message
  parser, the BSON printer, decompressors, the JSON decoder, Unicode lower-casing, the operations of the
  address package.

  \<^bold>\<open>Theories.\<close>
  \<^item> \<open>Prelude\<close>: bytes and strings, partial slices, decimal numbers, splitting, Go maps; the locales
    \<open>consumer\<close> (readers that consume their input, interpreted on the HPACK readers) and
    \<open>safe_component\<close> (a stateful component that never panics, interpreted on the HPACK decoder and the
    HTTP/2 parser).
    \<open>Utf8\<close>, \<open>Golib\<close> and \<open>Url\<close>: what the sources use of \<open>unicode/utf8\<close>, \<open>strings\<close>, \<open>net/http\<close>, \<open>net\<close> and
    \<open>net/url\<close>.
  \<^item> \<open>L7\<close> (\<open>l7.go\<close>): the vocabulary of protocols, methods and statuses.
  \<^item> \<open>Hpack\<close>, \<open>Hpack_Table\<close>, \<open>Hpack_Spec\<close>, \<open>Hpack_Sim\<close>, \<open>Hpack_Correct\<close> (\<open>hpack.go\<close>): the decoder of
    header compression with its ring buffer; a reference encoder and an abstract table; the simulation
    between the two (locales \<open>dynamic_table\<close> and \<open>table_relation\<close>). Proved: a decoder that saw everything
    is exact, one that joined late or was reset never reports a wrong field and catches up, no input
    panics.
  \<^item> \<open>Http2\<close>, \<open>Http2_Parse\<close>, \<open>Http2_Inv\<close>, \<open>Http2_Run\<close>, \<open>Http2_Split\<close>, \<open>Http2_Correct\<close>,
    \<open>Http2_Exchange\<close> (\<open>http2.go\<close>): the parser of HTTP/2 connections. Proved: no sequence of events and
    losses panics and the state stays bounded; how a stream of known frame types is cut into events does
    not matter; a frame cut by the capture is skipped exactly; an exchange is reported with its fields; continuation
    frames; which request is evicted.
  \<^item> \<open>Sni\<close> (\<open>sni.go\<close>), \<open>Statements\<close> (\<open>postgres.go\<close>, \<open>mysql.go\<close>, locale \<open>prepared_statements\<close>),
    \<open>Key_Value\<close> (\<open>redis.go\<close>, \<open>memcached.go\<close>), \<open>Zookeeper\<close>, \<open>Mongo_Dns\<close>, \<open>Clickhouse\<close> and
    \<open>Clickhouse_Correct\<close>, \<open>Http\<close> and \<open>Http_Correct\<close> (\<open>http.go\<close>): the other parsers. Proved: round trips
    with encoders of the protocols, the statement an execution reports after any messages, the panics of the MySQL parser exactly, bounds, redaction of
    sensitive headers.
  \<^item> \<open>Llm_Stream\<close> (\<open>stream.go\<close>, locale \<open>byte_queue\<close>), \<open>Llm_Provider\<close>, \<open>Llm_Body\<close>, \<open>Llm_Usage\<close>, \<open>Llm_Conn\<close>
    (\<open>provider.go\<close>, \<open>body.go\<close>, \<open>usage.go\<close>, \<open>conn.go\<close>): capture of LLM traffic. The two parser goroutines of a
    connection are sequences of critical sections, and a claim holds for all their interleavings.
    Proved: captured bytes reach the parser once and in order with their times; a connection keeps its
    bounds; a request and its response are paired exactly once; the tokens recorded are those billed.
  \<^item> \<open>Fqdn_Cache\<close> (\<open>fqdn_cache.go\<close>), \<open>Http_Path\<close> and \<open>Http_Path_Series\<close> (\<open>http_path.go\<close>,
    \<open>http_path_series.go\<close>), \<open>Destination\<close> (\<open>net.go\<close>, \<open>fqdn.go\<close>, \<open>vm_resolver.go\<close>) of \<open>src/common\<close>, and \<open>L7_Stats\<close>
    (\<open>src/containers/l7.go\<close> and the tables of \<open>metrics.go\<close>): the labels of requests and the metrics that carry
    them. The order in which Go ranges over a map is an argument wherever it can show. Proved: the cache
    and the series are bounded and drop what is old, path templates are final, the label of a name that
    was not found, the connection filter is stable, hosts and ports are read back, and every call on a
    metric fits the labels the metric was created with.

  \<^bold>\<open>Fuel and bounds.\<close> Loops over input are functions with a termination proof by the length of what is
  left. Fuel appears once, in \<open>tally_document\<close>: the recursion into a document's base64 \<open>bytes\<close> has the length
  of the payload as fuel, and an encoded document is longer than what it encodes.

  \<^bold>\<open>Not modelled.\<close> The eBPF programs and everything that talks to the kernel, container runtimes, clouds
  or the network (\<open>tracer.go\<close>, \<open>tls.go\<close>, \<open>registry.go\<close>, \<open>ip_resolver.go\<close>, \<open>node\<close>, \<open>pinger\<close>, \<open>gpu\<close>, \<open>prom\<close>, \<open>proc\<close>,
  \<open>cgroup\<close>, \<open>profiling\<close>, \<open>jvm\<close>): they consist of system calls, file reads and third-party clients.
  \<open>logs\<close>, \<open>tracing\<close> and the exporters likewise. In \<open>http.go\<close> the JSON of \<open>ConvertHeadersToBase64String\<close> is left
  out; in \<open>l7.go\<close> the Prometheus client, whose calls are recorded.
  \<open>container.go\<close> joins them to the parsers; its HTTP/1 context is not modelled. Time-outs, locks and the
  Go scheduler appear only as the interleavings named above.
\<close>

end
